(* ===== verification/Sirius_Prelude.thy ===== *)
theory Sirius_Prelude
  imports Main "HOL-Library.Word"
begin

text \<open>
  Shared vocabulary of the development: the exceptions the C++ code raises, the result type of
  fallible operations and its sequencing, traversals that stop at the first failure, and the
  generic list lemmas the components use. An operation that throws, or whose C++ behaviour is
  undefined on some input, returns \<open>Inl\<close> of the error; a null \<open>unique_ptr\<close> or an empty
  \<open>std::optional\<close> is \<open>None\<close>.
\<close>

named_theorems result_simps \<open>rewriting of sequenced results\<close>
named_theorems component_defs \<open>definitions unfolded by the component proofs\<close>

section \<open>Exceptions and results\<close>

datatype sirius_error =
    Internal_exception string
  | Not_implemented_exception string
  | Invalid_input_exception string
  | Runtime_error string
  | Invalid_argument string
  | Out_of_range string
  | Bad_variant_access
  | Undefined_behaviour string

type_synonym 'a result = "sirius_error + 'a"

definition bind_result :: "'e + 'a \<Rightarrow> ('a \<Rightarrow> 'e + 'b) \<Rightarrow> 'e + 'b" where
  "bind_result r f = (case r of Inl e \<Rightarrow> Inl e | Inr x \<Rightarrow> f x)"

lemma bind_result_Inl [simp, result_simps]: "bind_result (Inl e) f = Inl e"
  by (simp add: bind_result_def)

lemma bind_result_Inr [simp, result_simps]: "bind_result (Inr x) f = f x"
  by (simp add: bind_result_def)

lemma bind_result_eq_Inr:
  "bind_result r f = Inr y \<longleftrightarrow> (\<exists>x. r = Inr x \<and> f x = Inr y)"
  by (cases r) auto

lemma bind_result_eq_Inl:
  "bind_result r f = Inl e \<longleftrightarrow> r = Inl e \<or> (\<exists>x. r = Inr x \<and> f x = Inl e)"
  by (cases r) auto

lemma bind_result_cong [fundef_cong]:
  assumes "r = r'" and "\<And>x. r' = Inr x \<Longrightarrow> f x = f' x"
  shows "bind_result r f = bind_result r' f'"
  using assms by (cases r') auto

lemma bind_result_assoc:
  "bind_result (bind_result r f) g = bind_result r (\<lambda>x. bind_result (f x) g)"
  by (cases r) auto

text \<open>A guard that throws.\<close>

definition throw_if :: "bool \<Rightarrow> 'e \<Rightarrow> 'e + 'a \<Rightarrow> 'e + 'a" where
  "throw_if b e k = (if b then Inl e else k)"

lemma throw_if_simps [simp]: "throw_if True e k = Inl e" "throw_if False e k = k"
  by (simp_all add: throw_if_def)

lemma throw_if_eq_Inr: "throw_if b e k = Inr y \<longleftrightarrow> \<not> b \<and> k = Inr y"
  by (simp add: throw_if_def)

lemma throw_if_cong [fundef_cong]:
  assumes "b = b'" and "e = e'" and "\<not> b' \<Longrightarrow> k = k'"
  shows "throw_if b e k = throw_if b' e' k'"
  using assms by (simp add: throw_if_def)

lemmas result_elims = bind_result_eq_Inr throw_if_eq_Inr

section \<open>Loops that stop at the first failure\<close>

text \<open>\<open>map_result\<close>: a loop that appends the result of each element and propagates an exception.\<close>

fun map_result :: "('a \<Rightarrow> 'e + 'b) \<Rightarrow> 'a list \<Rightarrow> 'e + 'b list" where
  "map_result f [] = Inr []"
| "map_result f (x # xs) =
     bind_result (f x) (\<lambda>y. bind_result (map_result f xs) (\<lambda>ys. Inr (y # ys)))"

lemma map_result_length: "map_result f xs = Inr ys \<Longrightarrow> length ys = length xs"
  by (induction xs arbitrary: ys) (auto simp: bind_result_eq_Inr)

lemma map_result_Inr_iff:
  "map_result f xs = Inr ys \<longleftrightarrow> list_all2 (\<lambda>x y. f x = Inr y) xs ys"
  by (induction xs arbitrary: ys) (auto simp: bind_result_eq_Inr list_all2_Cons1)

lemma map_result_map: "(\<And>x. x \<in> set xs \<Longrightarrow> f x = Inr (g x)) \<Longrightarrow> map_result f xs = Inr (map g xs)"
  by (induction xs) auto

lemma map_result_cong [fundef_cong]:
  assumes "xs = ys" and "\<And>x. x \<in> set ys \<Longrightarrow> f x = g x"
  shows "map_result f xs = map_result g ys"
proof -
  from assms(2) have "map_result f ys = map_result g ys"
    by (induction ys) auto
  with assms(1) show ?thesis by simp
qed

section \<open>Unsigned sizes\<close>

text \<open>Subtraction on \<open>size_t\<close>, which wraps below zero.\<close>

definition size_sub :: "nat \<Rightarrow> nat \<Rightarrow> nat" where
  "size_sub a b = nat ((int a - int b) mod 2 ^ 64)"

lemma size_sub_eq:
  assumes "b \<le> a" and "a < 2 ^ 64"
  shows "size_sub a b = a - b"
proof -
  have 1: "int a - int b = int (a - b)" using assms(1) by (rule of_nat_diff [symmetric])
  have "int (a - b) < 2 ^ 64" using assms(2) by simp
  then have "int (a - b) mod 2 ^ 64 = int (a - b)" by (intro mod_pos_pos_trivial) simp_all
  then show ?thesis by (simp only: size_sub_def nat_int 1)
qed

text \<open>Joining disjoint bit fields is addition.\<close>

lemma push_bit_or_add: "v < 2 ^ n \<Longrightarrow> or (push_bit n k) v = k * 2 ^ n + (v :: nat)"
proof -
  assume "v < 2 ^ n"
  then have "take_bit n v = v" by (simp add: take_bit_nat_eq_self)
  then have "\<not> (n \<le> i \<and> bit v i)" for i by (metis bit_take_bit_iff not_less)
  then have "and (push_bit n k) v = 0" by (intro bit_eqI) (auto simp: bit_and_iff bit_push_bit_iff)
  then show ?thesis by (metis disjunctive_add_eq_or push_bit_eq_mult)
qed

section \<open>Lists\<close>

lemma concat_split_at:
  "i < length bs \<Longrightarrow> concat bs = concat (take i bs) @ bs ! i @ concat (drop (Suc i) bs)"
  by (metis concat.simps(2) concat_append id_take_nth_drop)

lemma sum_list_take_le: "sum_list (take i xs) \<le> sum_list (xs :: nat list)"
  by (metis append_take_drop_id le_add1 sum_list_append)

lemma take_drop_append_split:
  "n \<le> m \<Longrightarrow> take m (drop i xs) = take n (drop i xs) @ take (m - n) (drop (i + n) xs)"
proof -
  assume "n \<le> m"
  then have "take m (drop i xs) = take (n + (m - n)) (drop i xs)" by simp
  also have "\<dots> = take n (drop i xs) @ take (m - n) (drop n (drop i xs))"
    by (rule take_add)
  also have "drop n (drop i xs) = drop (i + n) xs" by (simp add: add.commute)
  finally show ?thesis .
qed

lemma distinct_keys_map_of:
  "distinct (map fst ts) \<Longrightarrow> (k, v) \<in> set ts \<Longrightarrow> map_of ts k = Some v"
  by simp

end
