(* ===== verification/Logical_Types.thy ===== *)
theory Logical_Types
  imports Sirius_Prelude
begin

text \<open>
  The engine's column types: \<open>type_id\<close> and \<open>logical_type\<close>
  (\<^verbatim>\<open>src/include/helper/logical_type.hpp\<close>) and their conversion to and from DuckDB's
  \<open>LogicalType\<close> (\<^verbatim>\<open>src/helper/type_conversions.cpp\<close>). DuckDB's type is the data the
  conversions read: its id and, for DECIMAL, the width and scale.
\<close>

section \<open>Types\<close>

datatype type_id =
    INVALID | SQLNULL | BOOLEAN | TINYINT | SMALLINT | INTEGER | BIGINT | HUGEINT
  | UTINYINT | USMALLINT | UINTEGER | UBIGINT | UHUGEINT | FLOAT | DOUBLE | DATE
  | TIMESTAMP_SEC | TIMESTAMP_MS | TIMESTAMP | TIMESTAMP_NS | VARCHAR | STRUCT | LIST | DECIMAL

record logical_type =
  lt_id :: type_id
  lt_precision :: "8 word"
  lt_scale :: "8 word"

definition decimal_max_precision_int16 :: "8 word" where "decimal_max_precision_int16 = 4"
definition decimal_max_precision_int32 :: "8 word" where "decimal_max_precision_int32 = 9"
definition decimal_max_precision_int64 :: "8 word" where "decimal_max_precision_int64 = 18"
definition decimal_max_precision_int128 :: "8 word" where "decimal_max_precision_int128 = 38"

lemmas decimal_max_defs = decimal_max_precision_int16_def decimal_max_precision_int32_def
  decimal_max_precision_int64_def decimal_max_precision_int128_def

text \<open>The default constructor, and the two factories; the class has no other constructor.\<close>

definition default_type :: logical_type where
  "default_type = \<lparr>lt_id = SQLNULL, lt_precision = 0, lt_scale = 0\<rparr>"

definition make_type :: "type_id \<Rightarrow> logical_type" where
  "make_type i = \<lparr>lt_id = i, lt_precision = 0, lt_scale = 0\<rparr>"

definition make_decimal :: "8 word \<Rightarrow> 8 word \<Rightarrow> logical_type" where
  "make_decimal p s = \<lparr>lt_id = DECIMAL, lt_precision = p, lt_scale = s\<rparr>"

definition is_decimal :: "logical_type \<Rightarrow> bool" where
  "is_decimal t = (lt_id t = DECIMAL)"

definition is_varchar :: "logical_type \<Rightarrow> bool" where
  "is_varchar t = (lt_id t = VARCHAR)"

definition is_integer :: "logical_type \<Rightarrow> bool" where
  "is_integer t = (case lt_id t of
       TINYINT \<Rightarrow> True | SMALLINT \<Rightarrow> True | INTEGER \<Rightarrow> True | BIGINT \<Rightarrow> True | HUGEINT \<Rightarrow> True
     | UTINYINT \<Rightarrow> True | USMALLINT \<Rightarrow> True | UINTEGER \<Rightarrow> True | UBIGINT \<Rightarrow> True | UHUGEINT \<Rightarrow> True
     | _ \<Rightarrow> False)"

definition is_numeric :: "logical_type \<Rightarrow> bool" where
  "is_numeric t = (is_integer t \<or> lt_id t = FLOAT \<or> lt_id t = DOUBLE \<or> lt_id t = DECIMAL)"

definition is_temporal :: "logical_type \<Rightarrow> bool" where
  "is_temporal t = (case lt_id t of
       DATE \<Rightarrow> True | TIMESTAMP_SEC \<Rightarrow> True | TIMESTAMP_MS \<Rightarrow> True | TIMESTAMP \<Rightarrow> True
     | TIMESTAMP_NS \<Rightarrow> True | _ \<Rightarrow> False)"

definition is_fixed_width :: "logical_type \<Rightarrow> bool" where
  "is_fixed_width t = (lt_id t \<noteq> VARCHAR \<and> lt_id t \<noteq> STRUCT \<and> lt_id t \<noteq> LIST \<and>
     lt_id t \<noteq> SQLNULL \<and> lt_id t \<noteq> INVALID)"

definition fixed_width_byte_size :: "logical_type \<Rightarrow> nat result" where
  "fixed_width_byte_size t = (case lt_id t of
       BOOLEAN \<Rightarrow> Inr 1 | TINYINT \<Rightarrow> Inr 1 | UTINYINT \<Rightarrow> Inr 1
     | SMALLINT \<Rightarrow> Inr 2 | USMALLINT \<Rightarrow> Inr 2
     | INTEGER \<Rightarrow> Inr 4 | UINTEGER \<Rightarrow> Inr 4 | FLOAT \<Rightarrow> Inr 4 | DATE \<Rightarrow> Inr 4
     | BIGINT \<Rightarrow> Inr 8 | UBIGINT \<Rightarrow> Inr 8 | HUGEINT \<Rightarrow> Inr 8 | UHUGEINT \<Rightarrow> Inr 8
     | DOUBLE \<Rightarrow> Inr 8 | TIMESTAMP_SEC \<Rightarrow> Inr 8 | TIMESTAMP_MS \<Rightarrow> Inr 8 | TIMESTAMP \<Rightarrow> Inr 8
     | TIMESTAMP_NS \<Rightarrow> Inr 8
     | DECIMAL \<Rightarrow>
         (if lt_precision t \<le> decimal_max_precision_int32 then Inr 4
          else if lt_precision t \<le> decimal_max_precision_int64 then Inr 8
          else Inr 16)
     | VARCHAR \<Rightarrow> Inr 0
     | _ \<Rightarrow> Inl (Runtime_error ''fixed_width_byte_size: not applicable for type''))"

section \<open>Conversion to and from DuckDB\<close>

text \<open>
  \<open>D_OTHER n\<close> stands for every \<open>duckdb::LogicalTypeId\<close> the conversion's switch does not name
  (\<open>n\<close> is its enum value).
\<close>

datatype duck_type_id =
    D_SQLNULL | D_BOOLEAN | D_TINYINT | D_SMALLINT | D_INTEGER | D_BIGINT | D_HUGEINT
  | D_UTINYINT | D_USMALLINT | D_UINTEGER | D_UBIGINT | D_UHUGEINT | D_FLOAT | D_DOUBLE | D_DATE
  | D_TIMESTAMP_SEC | D_TIMESTAMP_MS | D_TIMESTAMP | D_TIMESTAMP_NS | D_VARCHAR | D_STRUCT | D_LIST
  | D_DECIMAL | D_OTHER nat

record duck_type =
  dt_id :: duck_type_id
  dt_width :: "8 word"
  dt_scale :: "8 word"

definition duck_type_of :: "duck_type_id \<Rightarrow> duck_type" where
  "duck_type_of i = \<lparr>dt_id = i, dt_width = 0, dt_scale = 0\<rparr>"

definition duck_decimal :: "8 word \<Rightarrow> 8 word \<Rightarrow> duck_type" where
  "duck_decimal w s = \<lparr>dt_id = D_DECIMAL, dt_width = w, dt_scale = s\<rparr>"

definition type_from_duckdb :: "duck_type \<Rightarrow> logical_type result" where
  "type_from_duckdb t = (case dt_id t of
       D_SQLNULL \<Rightarrow> Inr (make_type SQLNULL) | D_BOOLEAN \<Rightarrow> Inr (make_type BOOLEAN)
     | D_TINYINT \<Rightarrow> Inr (make_type TINYINT) | D_SMALLINT \<Rightarrow> Inr (make_type SMALLINT)
     | D_INTEGER \<Rightarrow> Inr (make_type INTEGER) | D_BIGINT \<Rightarrow> Inr (make_type BIGINT)
     | D_HUGEINT \<Rightarrow> Inr (make_type HUGEINT) | D_UTINYINT \<Rightarrow> Inr (make_type UTINYINT)
     | D_USMALLINT \<Rightarrow> Inr (make_type USMALLINT) | D_UINTEGER \<Rightarrow> Inr (make_type UINTEGER)
     | D_UBIGINT \<Rightarrow> Inr (make_type UBIGINT) | D_UHUGEINT \<Rightarrow> Inr (make_type UHUGEINT)
     | D_FLOAT \<Rightarrow> Inr (make_type FLOAT) | D_DOUBLE \<Rightarrow> Inr (make_type DOUBLE) | D_DATE \<Rightarrow> Inr (make_type DATE)
     | D_TIMESTAMP_SEC \<Rightarrow> Inr (make_type TIMESTAMP_SEC) | D_TIMESTAMP_MS \<Rightarrow> Inr (make_type TIMESTAMP_MS)
     | D_TIMESTAMP \<Rightarrow> Inr (make_type TIMESTAMP) | D_TIMESTAMP_NS \<Rightarrow> Inr (make_type TIMESTAMP_NS)
     | D_VARCHAR \<Rightarrow> Inr (make_type VARCHAR) | D_STRUCT \<Rightarrow> Inr (make_type STRUCT) | D_LIST \<Rightarrow> Inr (make_type LIST)
     | D_DECIMAL \<Rightarrow> Inr (make_decimal (dt_width t) (dt_scale t))
     | D_OTHER n \<Rightarrow> Inl (Invalid_input_exception ''from_duckdb: Unsupported DuckDB type''))"

definition type_to_duckdb :: "logical_type \<Rightarrow> duck_type result" where
  "type_to_duckdb t = (case lt_id t of
       SQLNULL \<Rightarrow> Inr (duck_type_of D_SQLNULL) | BOOLEAN \<Rightarrow> Inr (duck_type_of D_BOOLEAN)
     | TINYINT \<Rightarrow> Inr (duck_type_of D_TINYINT) | SMALLINT \<Rightarrow> Inr (duck_type_of D_SMALLINT)
     | INTEGER \<Rightarrow> Inr (duck_type_of D_INTEGER) | BIGINT \<Rightarrow> Inr (duck_type_of D_BIGINT)
     | HUGEINT \<Rightarrow> Inr (duck_type_of D_HUGEINT) | UTINYINT \<Rightarrow> Inr (duck_type_of D_UTINYINT)
     | USMALLINT \<Rightarrow> Inr (duck_type_of D_USMALLINT) | UINTEGER \<Rightarrow> Inr (duck_type_of D_UINTEGER)
     | UBIGINT \<Rightarrow> Inr (duck_type_of D_UBIGINT) | UHUGEINT \<Rightarrow> Inr (duck_type_of D_UHUGEINT)
     | FLOAT \<Rightarrow> Inr (duck_type_of D_FLOAT) | DOUBLE \<Rightarrow> Inr (duck_type_of D_DOUBLE)
     | DATE \<Rightarrow> Inr (duck_type_of D_DATE) | TIMESTAMP_SEC \<Rightarrow> Inr (duck_type_of D_TIMESTAMP_SEC)
     | TIMESTAMP_MS \<Rightarrow> Inr (duck_type_of D_TIMESTAMP_MS)
     | TIMESTAMP \<Rightarrow> Inr (duck_type_of D_TIMESTAMP)
     | TIMESTAMP_NS \<Rightarrow> Inr (duck_type_of D_TIMESTAMP_NS)
     | VARCHAR \<Rightarrow> Inr (duck_type_of D_VARCHAR) | STRUCT \<Rightarrow> Inr (duck_type_of D_STRUCT)
     | LIST \<Rightarrow> Inl (Invalid_input_exception ''to_duckdb: LIST conversion is not supported'')
     | INVALID \<Rightarrow> Inl (Invalid_input_exception ''to_duckdb: INVALID type has no DuckDB equivalent'')
     | DECIMAL \<Rightarrow> Inr (duck_decimal (lt_precision t) (lt_scale t)))"

definition from_duckdb_vec :: "duck_type list \<Rightarrow> logical_type list result" where
  "from_duckdb_vec ts = map_result type_from_duckdb ts"

definition to_duckdb_vec :: "logical_type list \<Rightarrow> duck_type list result" where
  "to_duckdb_vec ts = map_result type_to_duckdb ts"

section \<open>Lemmas\<close>

text \<open>Every value the constructors build keeps precision and scale zero outside DECIMAL.\<close>

definition wf_type :: "logical_type \<Rightarrow> bool" where
  "wf_type t \<longleftrightarrow> (lt_id t = DECIMAL \<or> (lt_precision t = 0 \<and> lt_scale t = 0))"

lemma wf_make [simp]: "wf_type (make_type i)"
  by (simp add: wf_type_def make_type_def)

lemma wf_make_decimal [simp]: "wf_type (make_decimal p s)"
  by (simp add: wf_type_def make_decimal_def)

lemma wf_default_type [simp]: "wf_type default_type"
  by (simp add: wf_type_def default_type_def)

lemma lt_id_make [simp]: "lt_id (make_type i) = i" "lt_id (make_decimal p s) = DECIMAL"
  by (simp_all add: make_type_def make_decimal_def)

lemma make_lt_id: "wf_type t \<Longrightarrow> lt_id t \<noteq> DECIMAL \<Longrightarrow> make_type (lt_id t) = t"
  by (simp add: wf_type_def make_type_def)

lemma type_from_duckdb_wf: "type_from_duckdb d = Inr t \<Longrightarrow> wf_type t"
  by (auto simp: type_from_duckdb_def split: duck_type_id.splits)

lemma type_from_duckdb_valid: "type_from_duckdb d = Inr t \<Longrightarrow> lt_id t \<noteq> INVALID"
  by (auto simp: type_from_duckdb_def split: duck_type_id.splits)

lemma type_to_duckdb_from:
  assumes "wf_type t" and "type_to_duckdb t = Inr d"
  shows "type_from_duckdb d = Inr t"
  using assms
  by (cases "lt_id t")
     (auto simp: type_to_duckdb_def type_from_duckdb_def duck_type_of_def duck_decimal_def
        wf_type_def make_type_def make_decimal_def)

lemma type_to_duckdb_defined:
  "(\<exists>d. type_to_duckdb t = Inr d) \<longleftrightarrow> lt_id t \<noteq> LIST \<and> lt_id t \<noteq> INVALID"
  by (cases "lt_id t") (simp_all add: type_to_duckdb_def)

lemma to_duckdb_vec_from:
  "\<forall>t \<in> set ts. wf_type t \<Longrightarrow> to_duckdb_vec ts = Inr ds \<Longrightarrow> from_duckdb_vec ds = Inr ts"
  unfolding to_duckdb_vec_def from_duckdb_vec_def
  by (induction ts arbitrary: ds) (auto simp: bind_result_eq_Inr type_to_duckdb_from)

lemma to_duckdb_vec_defined:
  "(\<exists>ds. to_duckdb_vec ts = Inr ds) \<longleftrightarrow> (\<forall>t \<in> set ts. lt_id t \<noteq> LIST \<and> lt_id t \<noteq> INVALID)"
  unfolding to_duckdb_vec_def
  by (induction ts) (auto simp: bind_result_eq_Inr type_to_duckdb_defined [symmetric])

lemma power_ten_mono: "p \<le> q \<Longrightarrow> (10::nat) ^ p \<le> 10 ^ q"
  by (rule power_increasing) simp_all

lemma decimal_digits_fit:
  "p \<le> 9 \<Longrightarrow> (10::nat) ^ p \<le> 2 ^ 31"
  "p \<le> 18 \<Longrightarrow> (10::nat) ^ p \<le> 2 ^ 63"
  "p \<le> 38 \<Longrightarrow> (10::nat) ^ p \<le> 2 ^ 127"
  by (rule order_trans [OF power_ten_mono], assumption, simp)+

section \<open>Properties\<close>

text \<open>
  A fixed-width type has a positive byte size and no other type has one. The size of
  a DECIMAL column holds every unscaled value of the declared precision as a signed integer, for all
  precisions the engine admits (at most 38 digits).
\<close>

lemma fixed_width_byte_size_holds_type:
  "(is_fixed_width t \<longleftrightarrow> (\<exists>k > 0. fixed_width_byte_size t = Inr k)) \<and>
   (is_decimal t \<and> lt_precision t \<le> decimal_max_precision_int128 \<longrightarrow>
     (\<exists>k. fixed_width_byte_size t = Inr k \<and> (10::nat) ^ unat (lt_precision t) \<le> 2 ^ (8 * k - 1)))"
proof
  show "is_fixed_width t \<longleftrightarrow> (\<exists>k > 0. fixed_width_byte_size t = Inr k)"
    by (cases "lt_id t") (simp_all add: is_fixed_width_def fixed_width_byte_size_def)
next
  show "is_decimal t \<and> lt_precision t \<le> decimal_max_precision_int128 \<longrightarrow>
     (\<exists>k. fixed_width_byte_size t = Inr k \<and> (10::nat) ^ unat (lt_precision t) \<le> 2 ^ (8 * k - 1))"
    using decimal_digits_fit [of "unat (lt_precision t)"]
    by (auto simp: is_decimal_def fixed_width_byte_size_def decimal_max_defs word_le_nat_alt)
qed

lemma fixed_width_byte_size_holds_type_witness:
  "\<exists>k. fixed_width_byte_size (make_decimal 18 2) = Inr k \<and> (10::nat) ^ 18 \<le> 2 ^ (8 * k - 1)"
  using fixed_width_byte_size_holds_type [of "make_decimal 18 2"]
  by (simp add: is_decimal_def make_decimal_def decimal_max_defs)

text \<open>
  C38: a schema survives the trip to DuckDB and back. Whenever the types of a well-formed
  schema convert, converting the result gives the schema again; a type converts exactly when it is
  neither LIST nor INVALID.
\<close>

theorem schema_round_trip:
  assumes "\<forall>t \<in> set ts. wf_type t"
  shows "(\<forall>ds. to_duckdb_vec ts = Inr ds \<longrightarrow> from_duckdb_vec ds = Inr ts) \<and>
    ((\<exists>ds. to_duckdb_vec ts = Inr ds) \<longleftrightarrow> (\<forall>t \<in> set ts. lt_id t \<noteq> LIST \<and> lt_id t \<noteq> INVALID))"
  using to_duckdb_vec_from [OF assms] to_duckdb_vec_defined by blast

theorem schema_round_trip_witness:
  "\<exists>ds. to_duckdb_vec [make_type DATE, make_decimal 12 3] = Inr ds \<and>
     from_duckdb_vec ds = Inr [make_type DATE, make_decimal 12 3]"
  using schema_round_trip [of "[make_type DATE, make_decimal 12 3]"]
  by (fastforce simp: make_type_def make_decimal_def wf_type_def)

end
