(* ===== verification/Expr_Ids.thy ===== *)
theory Expr_Ids
  imports Logical_Types
begin

text \<open>
  The identifiers an expression carries: scalar functions (\<^verbatim>\<open>src/expression/function_id.cpp\<close>),
  aggregates (\<^verbatim>\<open>src/expression/aggregate_id.cpp\<close>) and comparison operators
  (\<^verbatim>\<open>src/expression/join_condition.cpp\<close>), with the name tables that translate them from
  and to DuckDB and the compile-time consistency check over those tables.
\<close>

section \<open>The interface of a name table\<close>

locale name_table =
  fixes to_name :: "'id \<Rightarrow> 'name" and from_name :: "'name \<Rightarrow> 'id option"
  assumes from_to: "from_name (to_name i) = Some i"
begin

lemma to_name_inject [simp]: "to_name i = to_name j \<longleftrightarrow> i = j"
  by (metis from_to option.inject)

lemma canonical_name: "from_name n = Some i \<Longrightarrow> from_name (to_name i) = from_name n"
  by (simp add: from_to)

lemma from_name_onto: "\<exists>n. from_name n = Some i"
  using from_to by blast

end

section \<open>The consistency check of a forward and a reverse table\<close>

text \<open>
  Both sources hold the same \<open>consteval\<close> function over their own tables: it counts, per
  identifier, the forward entries whose name is the identifier's name in the reverse table.
\<close>

fun count_canonical :: "string list \<Rightarrow> (string \<times> nat) list \<Rightarrow> nat list \<Rightarrow> nat list option" where
  "count_canonical rev_table [] counts = Some counts"
| "count_canonical rev_table ((name, idx) # fwd) counts =
     (if length rev_table \<le> idx then None
      else count_canonical rev_table fwd
        (if name = rev_table ! idx then counts[idx := Suc (counts ! idx)] else counts))"

definition tables_are_consistent :: "(string \<times> nat) list \<Rightarrow> string list \<Rightarrow> bool" where
  "tables_are_consistent fwd rev_table =
     (case count_canonical rev_table fwd (replicate (length rev_table) 0) of
        None \<Rightarrow> False
      | Some counts \<Rightarrow> list_all (\<lambda>c. c = 1) counts)"

lemma count_canonical_length:
  "count_canonical rt fwd cs = Some cs' \<Longrightarrow> length cs' = length cs"
  by (induction rt fwd cs arbitrary: cs' rule: count_canonical.induct) (auto split: if_splits)

lemma count_canonical_nth:
  "count_canonical rt fwd cs = Some cs' \<Longrightarrow> length cs = length rt \<Longrightarrow> i < length rt \<Longrightarrow>
     cs' ! i = cs ! i + length (filter (\<lambda>(n, j). j = i \<and> n = rt ! i) fwd)"
  by (induction rt fwd cs arbitrary: cs' rule: count_canonical.induct)
     (auto simp: nth_list_update split: if_splits)

lemma consistent_entry:
  assumes "tables_are_consistent fwd rt" and "i < length rt"
  shows "(rt ! i, i) \<in> set fwd"
proof -
  from assms(1) obtain cs where cs: "count_canonical rt fwd (replicate (length rt) 0) = Some cs"
    and ones: "list_all (\<lambda>c. c = 1) cs"
    by (auto simp: tables_are_consistent_def split: option.splits)
  from count_canonical_length [OF cs] have "length cs = length rt" by simp
  with ones assms(2) have "cs ! i = 1" by (simp add: list_all_length)
  with count_canonical_nth [OF cs, of i] assms(2)
  have "length (filter (\<lambda>(n, j). j = i \<and> n = rt ! i) fwd) = 1" by simp
  then have "filter (\<lambda>(n, j). j = i \<and> n = rt ! i) fwd \<noteq> []" by auto
  then show ?thesis by (auto simp: filter_empty_conv)
qed

text \<open>The check and distinct forward names make a forward lookup invert the reverse table.\<close>

lemma consistent_lookup:
  assumes "tables_are_consistent fwd rt" and "distinct (map fst fwd)" and "i < length rt"
  shows "map_of fwd (rt ! i) = Some i"
  using consistent_entry [OF assms(1,3)] assms(2) by simp

section \<open>Scalar functions\<close>

datatype function_id =
    fn_add | fn_sub | fn_mul | fn_div | fn_int_div | fn_mod | fn_substring | fn_like
  | fn_not_like | fn_contains | fn_prefix | fn_suffix | fn_strlen | fn_length
  | fn_regexp_replace | fn_year | fn_month | fn_day | fn_hour | fn_minute | fn_second
  | fn_millisecond | fn_microsecond | fn_date_trunc | fn_row | fn_struct_pack | fn_error

fun function_id_value :: "function_id \<Rightarrow> nat" where
  "function_id_value fn_add = 0"
| "function_id_value fn_sub = 1"
| "function_id_value fn_mul = 2"
| "function_id_value fn_div = 3"
| "function_id_value fn_int_div = 4"
| "function_id_value fn_mod = 5"
| "function_id_value fn_substring = 6"
| "function_id_value fn_like = 7"
| "function_id_value fn_not_like = 8"
| "function_id_value fn_contains = 9"
| "function_id_value fn_prefix = 10"
| "function_id_value fn_suffix = 11"
| "function_id_value fn_strlen = 12"
| "function_id_value fn_length = 13"
| "function_id_value fn_regexp_replace = 14"
| "function_id_value fn_year = 15"
| "function_id_value fn_month = 16"
| "function_id_value fn_day = 17"
| "function_id_value fn_hour = 18"
| "function_id_value fn_minute = 19"
| "function_id_value fn_second = 20"
| "function_id_value fn_millisecond = 21"
| "function_id_value fn_microsecond = 22"
| "function_id_value fn_date_trunc = 23"
| "function_id_value fn_row = 24"
| "function_id_value fn_struct_pack = 25"
| "function_id_value fn_error = 26"

definition function_forward_table :: "(string \<times> function_id) list" where
  "function_forward_table =
    [(''+'', fn_add), (''-'', fn_sub), (''*'', fn_mul), (''/'', fn_div),
     (''//'', fn_int_div), (''%'', fn_mod), (''substring'', fn_substring),
     (''substr'', fn_substring), (''~~'', fn_like), (''!~~'', fn_not_like),
     (''contains'', fn_contains), (''prefix'', fn_prefix), (''suffix'', fn_suffix),
     (''strlen'', fn_strlen), (''length'', fn_length),
     (''regexp_replace'', fn_regexp_replace), (''year'', fn_year), (''month'', fn_month),
     (''day'', fn_day), (''hour'', fn_hour), (''minute'', fn_minute),
     (''second'', fn_second), (''millisecond'', fn_millisecond),
     (''microsecond'', fn_microsecond), (''date_trunc'', fn_date_trunc), (''row'', fn_row),
     (''struct_pack'', fn_struct_pack), (''error'', fn_error)]"

definition function_reverse_table :: "string list" where
  "function_reverse_table =
    [''+'', ''-'', ''*'', ''/'', ''//'', ''%'', ''substring'', ''~~'', ''!~~'', ''contains'',
     ''prefix'', ''suffix'', ''strlen'', ''length'', ''regexp_replace'', ''year'', ''month'',
     ''day'', ''hour'', ''minute'', ''second'', ''millisecond'', ''microsecond'',
     ''date_trunc'', ''row'', ''struct_pack'', ''error'']"

definition function_id_tables_are_consistent :: bool where
  "function_id_tables_are_consistent =
     tables_are_consistent (map (\<lambda>(n, i). (n, function_id_value i)) function_forward_table)
       function_reverse_table"

fun lookup_name :: "(string \<times> 'id) list \<Rightarrow> string \<Rightarrow> 'id option" where
  "lookup_name [] name = None"
| "lookup_name ((entry_name, i) # table) name =
     (if entry_name = name then Some i else lookup_name table name)"

definition from_duckdb_function_name :: "string \<Rightarrow> function_id option" where
  "from_duckdb_function_name name = lookup_name function_forward_table name"

definition to_duckdb_function_name :: "function_id \<Rightarrow> string" where
  "to_duckdb_function_name i = function_reverse_table ! function_id_value i"

section \<open>Aggregates\<close>

datatype aggregate_id =
    agg_sum | agg_sum_no_overflow | agg_count | agg_count_star | agg_min | agg_max
  | agg_avg | agg_first

fun aggregate_id_value :: "aggregate_id \<Rightarrow> nat" where
  "aggregate_id_value agg_sum = 0"
| "aggregate_id_value agg_sum_no_overflow = 1"
| "aggregate_id_value agg_count = 2"
| "aggregate_id_value agg_count_star = 3"
| "aggregate_id_value agg_min = 4"
| "aggregate_id_value agg_max = 5"
| "aggregate_id_value agg_avg = 6"
| "aggregate_id_value agg_first = 7"

definition aggregate_forward_table :: "(string \<times> aggregate_id) list" where
  "aggregate_forward_table =
    [(''sum'', agg_sum), (''sum_no_overflow'', agg_sum_no_overflow), (''count'', agg_count),
     (''count_star'', agg_count_star), (''min'', agg_min), (''max'', agg_max),
     (''avg'', agg_avg), (''first'', agg_first)]"

definition aggregate_reverse_table :: "string list" where
  "aggregate_reverse_table =
    [''sum'', ''sum_no_overflow'', ''count'', ''count_star'', ''min'', ''max'', ''avg'',
     ''first'']"

definition aggregate_id_tables_are_consistent :: bool where
  "aggregate_id_tables_are_consistent =
     tables_are_consistent (map (\<lambda>(n, i). (n, aggregate_id_value i)) aggregate_forward_table)
       aggregate_reverse_table"

definition from_duckdb_aggregate_name :: "string \<Rightarrow> aggregate_id option" where
  "from_duckdb_aggregate_name name = lookup_name aggregate_forward_table name"

definition to_duckdb_aggregate_name :: "aggregate_id \<Rightarrow> string" where
  "to_duckdb_aggregate_name i = aggregate_reverse_table ! aggregate_id_value i"

section \<open>Comparison operators\<close>

text \<open>
  The members of \<open>duckdb::ExpressionType\<close> the engine names; \<open>ET_OTHER n\<close> is any other member.
\<close>

datatype duck_expr_type =
    COMPARE_EQUAL | COMPARE_NOTEQUAL | COMPARE_LESSTHAN | COMPARE_LESSTHANOREQUALTO
  | COMPARE_GREATERTHAN | COMPARE_GREATERTHANOREQUALTO | COMPARE_DISTINCT_FROM
  | COMPARE_NOT_DISTINCT_FROM | COMPARE_IN | COMPARE_NOT_IN | CONJUNCTION_AND | CONJUNCTION_OR
  | OPERATOR_NOT | OPERATOR_IS_NULL | OPERATOR_IS_NOT_NULL | OPERATOR_TRY | OPERATOR_COALESCE
  | ET_OTHER nat

datatype comparison_type =
    cmp_equal | cmp_not_equal | cmp_lt | cmp_le | cmp_gt | cmp_ge | cmp_distinct_from
  | cmp_not_distinct_from

definition comparison_from_duckdb :: "duck_expr_type \<Rightarrow> comparison_type result" where
  "comparison_from_duckdb t = (case t of
       COMPARE_EQUAL \<Rightarrow> Inr cmp_equal
     | COMPARE_NOTEQUAL \<Rightarrow> Inr cmp_not_equal
     | COMPARE_LESSTHAN \<Rightarrow> Inr cmp_lt
     | COMPARE_LESSTHANOREQUALTO \<Rightarrow> Inr cmp_le
     | COMPARE_GREATERTHAN \<Rightarrow> Inr cmp_gt
     | COMPARE_GREATERTHANOREQUALTO \<Rightarrow> Inr cmp_ge
     | COMPARE_DISTINCT_FROM \<Rightarrow> Inr cmp_distinct_from
     | COMPARE_NOT_DISTINCT_FROM \<Rightarrow> Inr cmp_not_distinct_from
     | _ \<Rightarrow> Inl (Runtime_error ''sirius::from_duckdb: unsupported ExpressionType''))"

definition comparison_to_duckdb :: "comparison_type \<Rightarrow> duck_expr_type" where
  "comparison_to_duckdb c = (case c of
       cmp_equal \<Rightarrow> COMPARE_EQUAL
     | cmp_not_equal \<Rightarrow> COMPARE_NOTEQUAL
     | cmp_lt \<Rightarrow> COMPARE_LESSTHAN
     | cmp_le \<Rightarrow> COMPARE_LESSTHANOREQUALTO
     | cmp_gt \<Rightarrow> COMPARE_GREATERTHAN
     | cmp_ge \<Rightarrow> COMPARE_GREATERTHANOREQUALTO
     | cmp_distinct_from \<Rightarrow> COMPARE_DISTINCT_FROM
     | cmp_not_distinct_from \<Rightarrow> COMPARE_NOT_DISTINCT_FROM)"

section \<open>Lemmas\<close>

lemma lookup_name_map_of: "lookup_name table n = map_of table n"
  by (induction table) auto

lemma lookup_name_value:
  "inj f \<Longrightarrow> map_of (map (\<lambda>(n, i). (n, f i)) table) n = Some (f i) \<Longrightarrow> lookup_name table n = Some i"
  by (induction table) (auto simp: inj_eq split: if_splits)

lemma function_id_value_less: "function_id_value i < length function_reverse_table"
  by (cases i) (simp_all add: function_reverse_table_def)

lemma function_id_value_inj: "inj function_id_value"
proof (rule injI)
  fix i j assume "function_id_value i = function_id_value j"
  then show "i = j" by (cases i; cases j) simp_all
qed

lemma function_tables_consistent: function_id_tables_are_consistent
  by code_simp

lemma function_names_distinct: "distinct (map fst function_forward_table)"
  by code_simp

lemma aggregate_id_value_less: "aggregate_id_value i < length aggregate_reverse_table"
  by (cases i) (simp_all add: aggregate_reverse_table_def)

lemma aggregate_id_value_inj: "inj aggregate_id_value"
proof (rule injI)
  fix i j assume "aggregate_id_value i = aggregate_id_value j"
  then show "i = j" by (cases i; cases j) simp_all
qed

lemma aggregate_tables_consistent: aggregate_id_tables_are_consistent
  by code_simp

lemma aggregate_names_distinct: "distinct (map fst aggregate_forward_table)"
  by code_simp

text \<open>The round trip of a table pair, from the check and distinct names.\<close>

lemma tables_round_trip:
  assumes "tables_are_consistent (map (\<lambda>(n, i). (n, f i)) fwd) rt"
    and "distinct (map fst fwd)" and "inj f" and "f i < length rt"
  shows "lookup_name fwd (rt ! f i) = Some i"
proof -
  have keys: "map fst (map (\<lambda>(n, i). (n, f i)) fwd) = map fst fwd"
    by (induction fwd) auto
  have "distinct (map fst (map (\<lambda>(n, i). (n, f i)) fwd))"
    unfolding keys by (rule assms(2))
  from consistent_lookup [OF assms(1) this assms(4)] show ?thesis
    by (rule lookup_name_value [OF assms(3)])
qed

interpretation function_names: name_table to_duckdb_function_name from_duckdb_function_name
  by unfold_locales
     (use tables_round_trip [OF function_tables_consistent
          [unfolded function_id_tables_are_consistent_def] function_names_distinct
          function_id_value_inj function_id_value_less]
      in \<open>simp add: to_duckdb_function_name_def from_duckdb_function_name_def\<close>)

interpretation aggregate_names: name_table to_duckdb_aggregate_name from_duckdb_aggregate_name
  by unfold_locales
     (use tables_round_trip [OF aggregate_tables_consistent
          [unfolded aggregate_id_tables_are_consistent_def] aggregate_names_distinct
          aggregate_id_value_inj aggregate_id_value_less]
      in \<open>simp add: to_duckdb_aggregate_name_def from_duckdb_aggregate_name_def\<close>)

interpretation comparison_names:
  name_table comparison_to_duckdb "\<lambda>t. case comparison_from_duckdb t of Inl _ \<Rightarrow> None | Inr c \<Rightarrow> Some c"
  by unfold_locales (simp add: comparison_to_duckdb_def comparison_from_duckdb_def
      split: comparison_type.splits)

lemma comparison_from_to [simp]: "comparison_from_duckdb (comparison_to_duckdb c) = Inr c"
  by (cases c) (simp_all add: comparison_to_duckdb_def comparison_from_duckdb_def)

lemma comparison_to_from: "comparison_from_duckdb t = Inr c \<Longrightarrow> comparison_to_duckdb c = t"
  by (cases t) (auto simp: comparison_to_duckdb_def comparison_from_duckdb_def)

section \<open>Properties\<close>

text \<open>
  The name of every function, aggregate and comparison reads back as itself, so no two
  identifiers share a canonical name. The static assertion of the source checks only that each
  canonical name is found in the forward table once; together with the table's distinct keys that
  is enough.
\<close>

lemma identifier_names_round_trip:
  "from_duckdb_function_name (to_duckdb_function_name f) = Some f \<and>
   from_duckdb_aggregate_name (to_duckdb_aggregate_name a) = Some a \<and>
   comparison_from_duckdb (comparison_to_duckdb c) = Inr c"
  by (simp add: function_names.from_to aggregate_names.from_to)

end
