(* ===== verification/Expr_Value.thy ===== *)
theory Expr_Value
  imports Expr_Ids
begin

unbundle bit_operations_syntax

text \<open>
  Constant payloads: the variant \<open>sirius::value\<close> (\<^verbatim>\<open>src/include/expression/value.hpp\<close>) and its
  conversion from and to \<open>duckdb::Value\<close> (\<^verbatim>\<open>src/expression/value.cpp\<close>). Integers are words of
  their C++ width, floating point numbers their bit patterns. \<open>duckdb::Value\<close> is not part of the
  repository: its accessors and factories are the fields of \<open>duck_value_api\<close>, a parameter of
  the conversions, and \<open>duck_value_laws\<close> states the documented behaviour they rely on (a factory's
  value is not null, has the factory's type and reads back).
\<close>

section \<open>Values\<close>

datatype sval =
    V_null
  | V_bool bool
  | V_int8 "8 word" | V_int16 "16 word" | V_int32 "32 word" | V_int64 "64 word"
  | V_uint8 "8 word" | V_uint16 "16 word" | V_uint32 "32 word" | V_uint64 "64 word"
  | V_float "32 word" | V_double "64 word"
  | V_date "32 word"
  | V_timestamp_sec "64 word" | V_timestamp_ms "64 word" | V_timestamp_us "64 word"
  | V_timestamp_ns "64 word"
  | V_decimal32 "32 word" "8 word" | V_decimal64 "64 word" "8 word" | V_decimal128 "128 word" "8 word"
  | V_string string

record 'dv duck_value_api =
  is_null :: "'dv \<Rightarrow> bool"
  value_type :: "'dv \<Rightarrow> duck_type"
  get_bool :: "'dv \<Rightarrow> bool result"
  get_int8 :: "'dv \<Rightarrow> 8 word result"
  get_int16 :: "'dv \<Rightarrow> 16 word result"
  get_int32 :: "'dv \<Rightarrow> 32 word result"
  get_int64 :: "'dv \<Rightarrow> 64 word result"
  get_uint8 :: "'dv \<Rightarrow> 8 word result"
  get_uint16 :: "'dv \<Rightarrow> 16 word result"
  get_uint32 :: "'dv \<Rightarrow> 32 word result"
  get_uint64 :: "'dv \<Rightarrow> 64 word result"
  get_float :: "'dv \<Rightarrow> 32 word result"
  get_double :: "'dv \<Rightarrow> 64 word result"
  get_date :: "'dv \<Rightarrow> 32 word result"
  get_timestamp_sec :: "'dv \<Rightarrow> 64 word result"
  get_timestamp_ms :: "'dv \<Rightarrow> 64 word result"
  get_timestamp_tz :: "'dv \<Rightarrow> 64 word result"
  get_timestamp_ns :: "'dv \<Rightarrow> 64 word result"
  get_string :: "'dv \<Rightarrow> string result"
  unsafe_int16 :: "'dv \<Rightarrow> 16 word"
  unsafe_int32 :: "'dv \<Rightarrow> 32 word"
  unsafe_int64 :: "'dv \<Rightarrow> 64 word"
  unsafe_hugeint :: "'dv \<Rightarrow> 64 word \<times> 64 word"
  mk_null :: "duck_type \<Rightarrow> 'dv"
  mk_boolean :: "bool \<Rightarrow> 'dv"
  mk_tinyint :: "8 word \<Rightarrow> 'dv"
  mk_smallint :: "16 word \<Rightarrow> 'dv"
  mk_integer :: "32 word \<Rightarrow> 'dv"
  mk_bigint :: "64 word \<Rightarrow> 'dv"
  mk_hugeint :: "64 word \<Rightarrow> 'dv"
  mk_utinyint :: "8 word \<Rightarrow> 'dv"
  mk_usmallint :: "16 word \<Rightarrow> 'dv"
  mk_uinteger :: "32 word \<Rightarrow> 'dv"
  mk_ubigint :: "64 word \<Rightarrow> 'dv"
  mk_uhugeint :: "64 word \<Rightarrow> 'dv"
  mk_float :: "32 word \<Rightarrow> 'dv"
  mk_double :: "64 word \<Rightarrow> 'dv"
  mk_date :: "32 word \<Rightarrow> 'dv"
  mk_timestamp_sec :: "64 word \<Rightarrow> 'dv"
  mk_timestamp_ms :: "64 word \<Rightarrow> 'dv"
  mk_timestamp :: "64 word \<Rightarrow> 'dv"
  mk_timestamp_ns :: "64 word \<Rightarrow> 'dv"
  mk_varchar :: "string \<Rightarrow> 'dv"
  mk_decimal16 :: "16 word \<Rightarrow> 8 word \<Rightarrow> 8 word \<Rightarrow> 'dv"
  mk_decimal32 :: "32 word \<Rightarrow> 8 word \<Rightarrow> 8 word \<Rightarrow> 'dv"
  mk_decimal64 :: "64 word \<Rightarrow> 8 word \<Rightarrow> 8 word \<Rightarrow> 'dv"
  mk_decimal_huge :: "64 word \<times> 64 word \<Rightarrow> 8 word \<Rightarrow> 8 word \<Rightarrow> 'dv"

section \<open>Conversions\<close>

text \<open>\<open>(static_cast<__int128_t>(hi.upper) << 64) | hi.lower\<close> and its inverse.\<close>

definition pack_hugeint :: "64 word \<times> 64 word \<Rightarrow> 128 word" where
  "pack_hugeint h = push_bit 64 (scast (fst h)) OR ucast (snd h)"

definition unpack_hugeint :: "128 word \<Rightarrow> 64 word \<times> 64 word" where
  "unpack_hugeint d = (ucast (signed_drop_bit 64 d), ucast d)"

definition decimal_from_duckdb :: "('dv, 'z) duck_value_api_scheme \<Rightarrow> 'dv \<Rightarrow> logical_type \<Rightarrow> sval" where
  "decimal_from_duckdb api v t =
     (let precision = lt_precision t; scale = lt_scale t in
      if precision \<le> decimal_max_precision_int16 then
        V_decimal32 (scast (unsafe_int16 api v)) scale
      else if precision \<le> decimal_max_precision_int32 then
        V_decimal32 (unsafe_int32 api v) scale
      else if precision \<le> decimal_max_precision_int64 then
        V_decimal64 (unsafe_int64 api v) scale
      else V_decimal128 (pack_hugeint (unsafe_hugeint api v)) scale)"

definition map_value :: "('a \<Rightarrow> sval) \<Rightarrow> 'a result \<Rightarrow> sval result" where
  "map_value f r = bind_result r (\<lambda>x. Inr (f x))"

definition value_from_duckdb :: "('dv, 'z) duck_value_api_scheme \<Rightarrow> 'dv \<Rightarrow> logical_type \<Rightarrow> sval result" where
  "value_from_duckdb api v t =
     (if is_null api v then Inr V_null
      else case lt_id t of
        BOOLEAN \<Rightarrow> map_value V_bool (get_bool api v)
      | TINYINT \<Rightarrow> map_value V_int8 (get_int8 api v)
      | SMALLINT \<Rightarrow> map_value V_int16 (get_int16 api v)
      | INTEGER \<Rightarrow> map_value V_int32 (get_int32 api v)
      | BIGINT \<Rightarrow> map_value V_int64 (get_int64 api v)
      | HUGEINT \<Rightarrow> map_value V_int64 (get_int64 api v)
      | UTINYINT \<Rightarrow> map_value V_uint8 (get_uint8 api v)
      | USMALLINT \<Rightarrow> map_value V_uint16 (get_uint16 api v)
      | UINTEGER \<Rightarrow> map_value V_uint32 (get_uint32 api v)
      | UBIGINT \<Rightarrow> map_value V_uint64 (get_uint64 api v)
      | UHUGEINT \<Rightarrow> map_value V_uint64 (get_uint64 api v)
      | FLOAT \<Rightarrow> map_value V_float (get_float api v)
      | DOUBLE \<Rightarrow> map_value V_double (get_double api v)
      | DATE \<Rightarrow> map_value V_date (get_date api v)
      | TIMESTAMP_SEC \<Rightarrow> map_value V_timestamp_sec (get_timestamp_sec api v)
      | TIMESTAMP_MS \<Rightarrow> map_value V_timestamp_ms (get_timestamp_ms api v)
      | TIMESTAMP \<Rightarrow> map_value V_timestamp_us (get_timestamp_tz api v)
      | TIMESTAMP_NS \<Rightarrow> map_value V_timestamp_ns (get_timestamp_ns api v)
      | VARCHAR \<Rightarrow> map_value V_string (get_string api v)
      | DECIMAL \<Rightarrow> Inr (decimal_from_duckdb api v t)
      | _ \<Rightarrow> Inl (Not_implemented_exception ''sirius::from_duckdb: unsupported type''))"

definition decimal_to_duckdb :: "('dv, 'z) duck_value_api_scheme \<Rightarrow> sval \<Rightarrow> logical_type \<Rightarrow> 'dv result" where
  "decimal_to_duckdb api x t =
     (let precision = lt_precision t; scale = lt_scale t in
      if precision \<le> decimal_max_precision_int16 then
        (case x of V_decimal32 d _ \<Rightarrow> Inr (mk_decimal16 api (ucast d) precision scale)
         | _ \<Rightarrow> Inl Bad_variant_access)
      else if precision \<le> decimal_max_precision_int32 then
        (case x of V_decimal32 d _ \<Rightarrow> Inr (mk_decimal32 api d precision scale)
         | _ \<Rightarrow> Inl Bad_variant_access)
      else if precision \<le> decimal_max_precision_int64 then
        (case x of V_decimal64 d _ \<Rightarrow> Inr (mk_decimal64 api d precision scale)
         | _ \<Rightarrow> Inl Bad_variant_access)
      else
        (case x of V_decimal128 d _ \<Rightarrow> Inr (mk_decimal_huge api (unpack_hugeint d) precision scale)
         | _ \<Rightarrow> Inl Bad_variant_access))"

definition value_to_duckdb :: "('dv, 'z) duck_value_api_scheme \<Rightarrow> sval \<Rightarrow> logical_type \<Rightarrow> 'dv result" where
  "value_to_duckdb api x t =
     (if x = V_null then bind_result (type_to_duckdb t) (\<lambda>d. Inr (mk_null api d))
      else case lt_id t of
        BOOLEAN \<Rightarrow> (case x of V_bool b \<Rightarrow> Inr (mk_boolean api b) | _ \<Rightarrow> Inl Bad_variant_access)
      | TINYINT \<Rightarrow> (case x of V_int8 w \<Rightarrow> Inr (mk_tinyint api w) | _ \<Rightarrow> Inl Bad_variant_access)
      | SMALLINT \<Rightarrow> (case x of V_int16 w \<Rightarrow> Inr (mk_smallint api w) | _ \<Rightarrow> Inl Bad_variant_access)
      | INTEGER \<Rightarrow> (case x of V_int32 w \<Rightarrow> Inr (mk_integer api w) | _ \<Rightarrow> Inl Bad_variant_access)
      | BIGINT \<Rightarrow> (case x of V_int64 w \<Rightarrow> Inr (mk_bigint api w) | _ \<Rightarrow> Inl Bad_variant_access)
      | HUGEINT \<Rightarrow> (case x of V_int64 w \<Rightarrow> Inr (mk_hugeint api w) | _ \<Rightarrow> Inl Bad_variant_access)
      | UTINYINT \<Rightarrow> (case x of V_uint8 w \<Rightarrow> Inr (mk_utinyint api w) | _ \<Rightarrow> Inl Bad_variant_access)
      | USMALLINT \<Rightarrow> (case x of V_uint16 w \<Rightarrow> Inr (mk_usmallint api w) | _ \<Rightarrow> Inl Bad_variant_access)
      | UINTEGER \<Rightarrow> (case x of V_uint32 w \<Rightarrow> Inr (mk_uinteger api w) | _ \<Rightarrow> Inl Bad_variant_access)
      | UBIGINT \<Rightarrow> (case x of V_uint64 w \<Rightarrow> Inr (mk_ubigint api w) | _ \<Rightarrow> Inl Bad_variant_access)
      | UHUGEINT \<Rightarrow> (case x of V_uint64 w \<Rightarrow> Inr (mk_uhugeint api w) | _ \<Rightarrow> Inl Bad_variant_access)
      | FLOAT \<Rightarrow> (case x of V_float w \<Rightarrow> Inr (mk_float api w) | _ \<Rightarrow> Inl Bad_variant_access)
      | DOUBLE \<Rightarrow> (case x of V_double w \<Rightarrow> Inr (mk_double api w) | _ \<Rightarrow> Inl Bad_variant_access)
      | DATE \<Rightarrow> (case x of V_date w \<Rightarrow> Inr (mk_date api w) | _ \<Rightarrow> Inl Bad_variant_access)
      | TIMESTAMP_SEC \<Rightarrow>
          (case x of V_timestamp_sec w \<Rightarrow> Inr (mk_timestamp_sec api w) | _ \<Rightarrow> Inl Bad_variant_access)
      | TIMESTAMP_MS \<Rightarrow>
          (case x of V_timestamp_ms w \<Rightarrow> Inr (mk_timestamp_ms api w) | _ \<Rightarrow> Inl Bad_variant_access)
      | TIMESTAMP \<Rightarrow>
          (case x of V_timestamp_us w \<Rightarrow> Inr (mk_timestamp api w) | _ \<Rightarrow> Inl Bad_variant_access)
      | TIMESTAMP_NS \<Rightarrow>
          (case x of V_timestamp_ns w \<Rightarrow> Inr (mk_timestamp_ns api w) | _ \<Rightarrow> Inl Bad_variant_access)
      | VARCHAR \<Rightarrow> (case x of V_string s \<Rightarrow> Inr (mk_varchar api s) | _ \<Rightarrow> Inl Bad_variant_access)
      | DECIMAL \<Rightarrow> decimal_to_duckdb api x t
      | _ \<Rightarrow> Inl (Not_implemented_exception ''sirius::to_duckdb: unsupported type''))"

section \<open>What the conversions rely on\<close>

definition reads_back ::
  "('dv, 'z) duck_value_api_scheme \<Rightarrow> ('a \<Rightarrow> 'dv) \<Rightarrow> ('dv \<Rightarrow> 'a result) \<Rightarrow> duck_type_id \<Rightarrow> bool" where
  "reads_back api mk_v get_v i \<longleftrightarrow>
     (\<forall>w. \<not> is_null api (mk_v w) \<and> value_type api (mk_v w) = duck_type_of i \<and> get_v (mk_v w) = Inr w)"

definition decimal_reads_back ::
  "('dv, 'z) duck_value_api_scheme \<Rightarrow> ('a \<Rightarrow> 8 word \<Rightarrow> 8 word \<Rightarrow> 'dv) \<Rightarrow> ('dv \<Rightarrow> 'a) \<Rightarrow> bool" where
  "decimal_reads_back api mk_v get_v \<longleftrightarrow>
     (\<forall>w p s. \<not> is_null api (mk_v w p s) \<and> value_type api (mk_v w p s) = duck_decimal p s \<and>
        get_v (mk_v w p s) = w)"

definition duck_value_laws :: "('dv, 'z) duck_value_api_scheme \<Rightarrow> bool" where
  "duck_value_laws api \<longleftrightarrow>
     (\<forall>d. is_null api (mk_null api d) \<and> value_type api (mk_null api d) = d) \<and>
     reads_back api (mk_boolean api) (get_bool api) D_BOOLEAN \<and>
     reads_back api (mk_tinyint api) (get_int8 api) D_TINYINT \<and>
     reads_back api (mk_smallint api) (get_int16 api) D_SMALLINT \<and>
     reads_back api (mk_integer api) (get_int32 api) D_INTEGER \<and>
     reads_back api (mk_bigint api) (get_int64 api) D_BIGINT \<and>
     reads_back api (mk_hugeint api) (get_int64 api) D_HUGEINT \<and>
     reads_back api (mk_utinyint api) (get_uint8 api) D_UTINYINT \<and>
     reads_back api (mk_usmallint api) (get_uint16 api) D_USMALLINT \<and>
     reads_back api (mk_uinteger api) (get_uint32 api) D_UINTEGER \<and>
     reads_back api (mk_ubigint api) (get_uint64 api) D_UBIGINT \<and>
     reads_back api (mk_uhugeint api) (get_uint64 api) D_UHUGEINT \<and>
     reads_back api (mk_float api) (get_float api) D_FLOAT \<and>
     reads_back api (mk_double api) (get_double api) D_DOUBLE \<and>
     reads_back api (mk_date api) (get_date api) D_DATE \<and>
     reads_back api (mk_timestamp_sec api) (get_timestamp_sec api) D_TIMESTAMP_SEC \<and>
     reads_back api (mk_timestamp_ms api) (get_timestamp_ms api) D_TIMESTAMP_MS \<and>
     reads_back api (mk_timestamp api) (get_timestamp_tz api) D_TIMESTAMP \<and>
     reads_back api (mk_timestamp_ns api) (get_timestamp_ns api) D_TIMESTAMP_NS \<and>
     reads_back api (mk_varchar api) (get_string api) D_VARCHAR \<and>
     decimal_reads_back api (mk_decimal16 api) (unsafe_int16 api) \<and>
     decimal_reads_back api (mk_decimal32 api) (unsafe_int32 api) \<and>
     decimal_reads_back api (mk_decimal64 api) (unsafe_int64 api) \<and>
     decimal_reads_back api (mk_decimal_huge api) (unsafe_hugeint api)"

section \<open>Lemmas\<close>

text \<open>A payload fits a type: the alternative is the type's, and a narrow decimal is an int16.\<close>

definition value_fits :: "sval \<Rightarrow> logical_type \<Rightarrow> bool" where
  "value_fits x t \<longleftrightarrow> x = V_null \<or>
     (case (lt_id t, x) of
        (BOOLEAN, V_bool _) \<Rightarrow> True | (TINYINT, V_int8 _) \<Rightarrow> True | (SMALLINT, V_int16 _) \<Rightarrow> True
      | (INTEGER, V_int32 _) \<Rightarrow> True | (BIGINT, V_int64 _) \<Rightarrow> True | (HUGEINT, V_int64 _) \<Rightarrow> True
      | (UTINYINT, V_uint8 _) \<Rightarrow> True | (USMALLINT, V_uint16 _) \<Rightarrow> True | (UINTEGER, V_uint32 _) \<Rightarrow> True
      | (UBIGINT, V_uint64 _) \<Rightarrow> True | (UHUGEINT, V_uint64 _) \<Rightarrow> True
      | (FLOAT, V_float _) \<Rightarrow> True | (DOUBLE, V_double _) \<Rightarrow> True | (DATE, V_date _) \<Rightarrow> True
      | (TIMESTAMP_SEC, V_timestamp_sec _) \<Rightarrow> True | (TIMESTAMP_MS, V_timestamp_ms _) \<Rightarrow> True
      | (TIMESTAMP, V_timestamp_us _) \<Rightarrow> True | (TIMESTAMP_NS, V_timestamp_ns _) \<Rightarrow> True
      | (VARCHAR, V_string _) \<Rightarrow> True
      | (DECIMAL, V_decimal32 d s) \<Rightarrow> s = lt_scale t \<and> lt_precision t \<le> decimal_max_precision_int32 \<and>
          (lt_precision t \<le> decimal_max_precision_int16 \<longrightarrow> scast (ucast d :: 16 word) = d)
      | (DECIMAL, V_decimal64 d s) \<Rightarrow> s = lt_scale t \<and> \<not> lt_precision t \<le> decimal_max_precision_int32 \<and>
          lt_precision t \<le> decimal_max_precision_int64
      | (DECIMAL, V_decimal128 d s) \<Rightarrow> s = lt_scale t \<and> \<not> lt_precision t \<le> decimal_max_precision_int64
      | _ \<Rightarrow> False)"

lemma ucast_scast_16_32 [simp]: "ucast (scast (w :: 16 word) :: 32 word) = w"
  by (rule bit_word_eqI) (auto simp: bit_simps)

lemma pack_unpack_hugeint: "pack_hugeint (unpack_hugeint d) = d"
  by (rule bit_word_eqI) (auto simp: pack_hugeint_def unpack_hugeint_def bit_simps)

lemma duck_value_simps:
  assumes "duck_value_laws api"
  shows "is_null api (mk_null api d)" "value_type api (mk_null api d) = d"
    "\<not> is_null api (mk_boolean api boolean_w)" "value_type api (mk_boolean api boolean_w) = duck_type_of D_BOOLEAN"
    "get_bool api (mk_boolean api boolean_w) = Inr boolean_w"
    "\<not> is_null api (mk_tinyint api tinyint_w)" "value_type api (mk_tinyint api tinyint_w) = duck_type_of D_TINYINT"
    "get_int8 api (mk_tinyint api tinyint_w) = Inr tinyint_w"
    "\<not> is_null api (mk_smallint api smallint_w)" "value_type api (mk_smallint api smallint_w) = duck_type_of D_SMALLINT"
    "get_int16 api (mk_smallint api smallint_w) = Inr smallint_w"
    "\<not> is_null api (mk_integer api integer_w)" "value_type api (mk_integer api integer_w) = duck_type_of D_INTEGER"
    "get_int32 api (mk_integer api integer_w) = Inr integer_w"
    "\<not> is_null api (mk_bigint api bigint_w)" "value_type api (mk_bigint api bigint_w) = duck_type_of D_BIGINT"
    "get_int64 api (mk_bigint api bigint_w) = Inr bigint_w"
    "\<not> is_null api (mk_hugeint api hugeint_w)" "value_type api (mk_hugeint api hugeint_w) = duck_type_of D_HUGEINT"
    "get_int64 api (mk_hugeint api hugeint_w) = Inr hugeint_w"
    "\<not> is_null api (mk_utinyint api utinyint_w)" "value_type api (mk_utinyint api utinyint_w) = duck_type_of D_UTINYINT"
    "get_uint8 api (mk_utinyint api utinyint_w) = Inr utinyint_w"
    "\<not> is_null api (mk_usmallint api usmallint_w)" "value_type api (mk_usmallint api usmallint_w) = duck_type_of D_USMALLINT"
    "get_uint16 api (mk_usmallint api usmallint_w) = Inr usmallint_w"
    "\<not> is_null api (mk_uinteger api uinteger_w)" "value_type api (mk_uinteger api uinteger_w) = duck_type_of D_UINTEGER"
    "get_uint32 api (mk_uinteger api uinteger_w) = Inr uinteger_w"
    "\<not> is_null api (mk_ubigint api ubigint_w)" "value_type api (mk_ubigint api ubigint_w) = duck_type_of D_UBIGINT"
    "get_uint64 api (mk_ubigint api ubigint_w) = Inr ubigint_w"
    "\<not> is_null api (mk_uhugeint api uhugeint_w)" "value_type api (mk_uhugeint api uhugeint_w) = duck_type_of D_UHUGEINT"
    "get_uint64 api (mk_uhugeint api uhugeint_w) = Inr uhugeint_w"
    "\<not> is_null api (mk_float api float_w)" "value_type api (mk_float api float_w) = duck_type_of D_FLOAT"
    "get_float api (mk_float api float_w) = Inr float_w"
    "\<not> is_null api (mk_double api double_w)" "value_type api (mk_double api double_w) = duck_type_of D_DOUBLE"
    "get_double api (mk_double api double_w) = Inr double_w"
    "\<not> is_null api (mk_date api date_w)" "value_type api (mk_date api date_w) = duck_type_of D_DATE"
    "get_date api (mk_date api date_w) = Inr date_w"
    "\<not> is_null api (mk_timestamp_sec api timestamp_sec_w)" "value_type api (mk_timestamp_sec api timestamp_sec_w) = duck_type_of D_TIMESTAMP_SEC"
    "get_timestamp_sec api (mk_timestamp_sec api timestamp_sec_w) = Inr timestamp_sec_w"
    "\<not> is_null api (mk_timestamp_ms api timestamp_ms_w)" "value_type api (mk_timestamp_ms api timestamp_ms_w) = duck_type_of D_TIMESTAMP_MS"
    "get_timestamp_ms api (mk_timestamp_ms api timestamp_ms_w) = Inr timestamp_ms_w"
    "\<not> is_null api (mk_timestamp api timestamp_w)" "value_type api (mk_timestamp api timestamp_w) = duck_type_of D_TIMESTAMP"
    "get_timestamp_tz api (mk_timestamp api timestamp_w) = Inr timestamp_w"
    "\<not> is_null api (mk_timestamp_ns api timestamp_ns_w)" "value_type api (mk_timestamp_ns api timestamp_ns_w) = duck_type_of D_TIMESTAMP_NS"
    "get_timestamp_ns api (mk_timestamp_ns api timestamp_ns_w) = Inr timestamp_ns_w"
    "\<not> is_null api (mk_varchar api varchar_w)" "value_type api (mk_varchar api varchar_w) = duck_type_of D_VARCHAR"
    "get_string api (mk_varchar api varchar_w) = Inr varchar_w"
    "\<not> is_null api (mk_decimal16 api decimal16_w p s)"
    "value_type api (mk_decimal16 api decimal16_w p s) = duck_decimal p s"
    "unsafe_int16 api (mk_decimal16 api decimal16_w p s) = decimal16_w"
    "\<not> is_null api (mk_decimal32 api decimal32_w p s)"
    "value_type api (mk_decimal32 api decimal32_w p s) = duck_decimal p s"
    "unsafe_int32 api (mk_decimal32 api decimal32_w p s) = decimal32_w"
    "\<not> is_null api (mk_decimal64 api decimal64_w p s)"
    "value_type api (mk_decimal64 api decimal64_w p s) = duck_decimal p s"
    "unsafe_int64 api (mk_decimal64 api decimal64_w p s) = decimal64_w"
    "\<not> is_null api (mk_decimal_huge api decimal_huge_w p s)"
    "value_type api (mk_decimal_huge api decimal_huge_w p s) = duck_decimal p s"
    "unsafe_hugeint api (mk_decimal_huge api decimal_huge_w p s) = decimal_huge_w"
  using assms
  by (simp_all add: duck_value_laws_def reads_back_def decimal_reads_back_def del: split_paired_All)

lemma precision_int16_int32: "p \<le> decimal_max_precision_int16 \<Longrightarrow> p \<le> decimal_max_precision_int32"
  by (simp add: decimal_max_defs word_le_nat_alt)

lemma precision_int32_int64: "p \<le> decimal_max_precision_int32 \<Longrightarrow> p \<le> decimal_max_precision_int64"
  by (simp add: decimal_max_defs word_le_nat_alt)

lemma map_value_Inr: "map_value f r = Inr x \<longleftrightarrow> (\<exists>y. r = Inr y \<and> x = f y)"
  by (cases r) (auto simp: map_value_def)

lemma map_value_simp [simp]: "map_value f (Inr y) = Inr (f y)"
  by (simp add: map_value_def)

lemma decimal_from_duckdb_fits: "lt_id t = DECIMAL \<Longrightarrow> value_fits (decimal_from_duckdb api v t) t"
  by (auto simp: value_fits_def decimal_from_duckdb_def Let_def precision_int16_int32)

lemma value_from_duckdb_fits:
  assumes "value_from_duckdb api v t = Inr x"
  shows "value_fits x t"
proof (cases "is_null api v")
  case True
  with assms show ?thesis by (simp add: value_from_duckdb_def value_fits_def)
next
  case nn: False
  show ?thesis
  proof (cases "lt_id t = DECIMAL")
    case True
    with nn assms decimal_from_duckdb_fits [OF True, of api v] show ?thesis
      by (simp add: value_from_duckdb_def)
  next
    case False
    with nn assms show ?thesis
      by (cases "lt_id t") (auto simp: value_from_duckdb_def map_value_Inr value_fits_def)
  qed
qed

lemma decimal_to_duckdb_from:
  assumes laws: "duck_value_laws api" and fits: "value_fits x t" and nn: "x \<noteq> V_null"
    and dec: "lt_id t = DECIMAL"
  shows "\<exists>v. decimal_to_duckdb api x t = Inr v \<and> \<not> is_null api v \<and>
     value_type api v = duck_decimal (lt_precision t) (lt_scale t) \<and> decimal_from_duckdb api v t = x"
  using fits nn dec precision_int32_int64 [of "lt_precision t"]
  by (cases x) (auto simp: value_fits_def decimal_to_duckdb_def decimal_from_duckdb_def
      duck_value_simps [OF laws] pack_unpack_hugeint precision_int16_int32 Let_def)

text \<open>
  Writing a fitting payload gives a DuckDB value of the column's type that reads back as the
  payload. For a null payload the column's type must have a DuckDB counterpart.
\<close>

lemma value_to_duckdb_from:
  assumes laws: "duck_value_laws api" and fits: "value_fits x t" and wf: "wf_type t"
    and dty: "type_to_duckdb t = Inr d"
  shows "\<exists>v. value_to_duckdb api x t = Inr v \<and> value_type api v = d \<and>
     value_from_duckdb api v t = Inr x"
proof (cases "x = V_null")
  case True
  with dty show ?thesis
    by (simp add: value_to_duckdb_def value_from_duckdb_def duck_value_simps [OF laws])
next
  case nn: False
  show ?thesis
  proof (cases "lt_id t = DECIMAL")
    case True
    with nn dty decimal_to_duckdb_from [OF laws fits nn True] show ?thesis
      by (auto simp: value_to_duckdb_def value_from_duckdb_def type_to_duckdb_def)
  next
    case False
    with nn fits dty show ?thesis
      by (cases "lt_id t"; cases x)
         (simp_all add: value_fits_def value_to_duckdb_def value_from_duckdb_def
            type_to_duckdb_def duck_value_simps [OF laws])
  qed
qed

end
