(* ===== verification/Expr_Ast.thy ===== *)
theory Expr_Ast
  imports Expr_Value
begin

text \<open>
  The expression tree \<open>sirius::ast::node\<close> (\<^verbatim>\<open>src/include/expression/ast/*.hpp\<close>) with its
  translation from DuckDB's bound expressions (\<^verbatim>\<open>src/expression/from_duckdb.cpp\<close>), the
  reconstruction of a DuckDB expression (\<^verbatim>\<open>src/expression/to_duckdb.cpp\<close>), deep copy
  (\<^verbatim>\<open>src/expression/ast/clone.cpp\<close>), the checked accessors (\<^verbatim>\<open>src/expression/ast/node.cpp\<close>) and
  the operator count that decides between cuDF's AST and its kernels
  (\<^verbatim>\<open>src/expression_executor/ast_op_counter.cpp\<close>). A child is a \<open>unique_ptr\<close>, so it may be null:
  dereferencing a null child is undefined behaviour and an error of the model.
\<close>

section \<open>Trees\<close>

datatype conjunction_kind = conj_invalid | op_and | op_or

datatype unary_kind = unary_invalid | op_not | op_is_null | op_is_not_null | op_try

datatype node =
    Reference "32 word" logical_type
  | Constant sval logical_type
  | Comparison comparison_type "node option" "node option"
  | Conjunction conjunction_kind "node option list"
  | Between "node option" "node option" "node option" bool bool
  | Case_expr "(node option \<times> node option) list" "node option" logical_type
  | Cast "node option" logical_type bool
  | Unary_op unary_kind "node option"
  | Coalesce "node option list" logical_type
  | In_list "node option" "node option list" bool
  | Function_call function_id "node option list" logical_type
  | Aggregate aggregate_id "node option list" logical_type bool

text \<open>
  DuckDB's bound expressions: per expression class, the fields the translation reads.
  \<open>Other_class\<close> is every \<open>ExpressionClass\<close> its switch does not name.
\<close>

datatype 'dv duck_expr =
    Bound_aggregate string "'dv duck_expr list" duck_type bool
  | Bound_between "'dv duck_expr" "'dv duck_expr" "'dv duck_expr" bool bool
  | Bound_case "('dv duck_expr \<times> 'dv duck_expr) list" "'dv duck_expr" duck_type
  | Bound_cast "'dv duck_expr" duck_type bool
  | Bound_comparison duck_expr_type "'dv duck_expr" "'dv duck_expr"
  | Bound_conjunction duck_expr_type "'dv duck_expr list"
  | Bound_constant 'dv duck_type
  | Bound_function string "'dv duck_expr list" duck_type
  | Bound_operator duck_expr_type "'dv duck_expr list" duck_type
  | Bound_parameter
  | Bound_ref "64 word" duck_type
  | Other_class nat

text \<open>
  \<open>return_type\<close> is the type DuckDB records on an expression and \<open>add_default_cast\<close> is
  \<open>BoundCastExpression::AddDefaultCastToType\<close>, which returns the child itself when it already
  has the target type.
\<close>

record 'dv duck_expr_api = "'dv duck_value_api" +
  return_type :: "'dv duck_expr \<Rightarrow> duck_type"
  add_default_cast :: "'dv duck_expr \<Rightarrow> duck_type \<Rightarrow> 'dv duck_expr"

section \<open>Translation from DuckDB\<close>

text \<open>
  The outcome is an exception, \<open>None\<close> for the null pointer the translator returns on an
  unsupported expression, or the tree.
\<close>

definition bind_node :: "'a option result \<Rightarrow> ('a \<Rightarrow> 'b option result) \<Rightarrow> 'b option result" where
  "bind_node r f = bind_result r (\<lambda>p. case p of None \<Rightarrow> Inr None | Some x \<Rightarrow> f x)"

definition make_node :: "node \<Rightarrow> node option result" where
  "make_node n = Inr (Some n)"

fun is_comparison_type :: "duck_expr_type \<Rightarrow> bool" where
  "is_comparison_type COMPARE_EQUAL = True"
| "is_comparison_type COMPARE_NOTEQUAL = True"
| "is_comparison_type COMPARE_LESSTHAN = True"
| "is_comparison_type COMPARE_LESSTHANOREQUALTO = True"
| "is_comparison_type COMPARE_GREATERTHAN = True"
| "is_comparison_type COMPARE_GREATERTHANOREQUALTO = True"
| "is_comparison_type COMPARE_DISTINCT_FROM = True"
| "is_comparison_type COMPARE_NOT_DISTINCT_FROM = True"
| "is_comparison_type _ = False"

fun translate_conjunction_kind :: "duck_expr_type \<Rightarrow> conjunction_kind" where
  "translate_conjunction_kind CONJUNCTION_AND = op_and"
| "translate_conjunction_kind CONJUNCTION_OR = op_or"
| "translate_conjunction_kind _ = conj_invalid"

fun translate_unary_kind :: "duck_expr_type \<Rightarrow> unary_kind" where
  "translate_unary_kind OPERATOR_NOT = op_not"
| "translate_unary_kind OPERATOR_IS_NULL = op_is_null"
| "translate_unary_kind OPERATOR_IS_NOT_NULL = op_is_not_null"
| "translate_unary_kind OPERATOR_TRY = op_try"
| "translate_unary_kind _ = unary_invalid"

text \<open>
  Each \<open>translate_*\<close> function of the source takes the translations of its children, in the order
  it asks for them; \<open>translate_children\<close> is the loop over a vector of children, which returns
  null at the first child that does not translate.
\<close>

fun translate_children :: "node option result list \<Rightarrow> node option list option result" where
  "translate_children [] = Inr (Some [])"
| "translate_children (r # rs) =
     bind_node r (\<lambda>n. bind_node (translate_children rs) (\<lambda>ns. Inr (Some (Some n # ns))))"

fun translate_cases :: "(node option result \<times> node option result) list \<Rightarrow>
  (node option \<times> node option) list option result" where
  "translate_cases [] = Inr (Some [])"
| "translate_cases ((w, t) # cs) =
     bind_result w (\<lambda>when_node.
     bind_result t (\<lambda>then_node.
       if when_node = None \<or> then_node = None then Inr None
       else bind_node (translate_cases cs) (\<lambda>rest. Inr (Some ((when_node, then_node) # rest)))))"

definition translate_reference :: "64 word \<Rightarrow> duck_type \<Rightarrow> node option result" where
  "translate_reference index rt =
     bind_result (type_from_duckdb rt) (\<lambda>t. make_node (Reference (ucast index) t))"

definition translate_constant :: "('dv, 'z) duck_value_api_scheme \<Rightarrow> 'dv \<Rightarrow> duck_type \<Rightarrow> node option result" where
  "translate_constant api v rt =
     bind_result (type_from_duckdb rt) (\<lambda>t.
     bind_result (value_from_duckdb api v t) (\<lambda>x. make_node (Constant x t)))"

definition translate_comparison ::
  "duck_expr_type \<Rightarrow> node option result \<Rightarrow> node option result \<Rightarrow> node option result" where
  "translate_comparison etype left right =
     (if \<not> is_comparison_type etype then Inr None
      else bind_result left (\<lambda>l. bind_result right (\<lambda>r.
        if l = None \<or> r = None then Inr None
        else bind_result (comparison_from_duckdb etype) (\<lambda>c. make_node (Comparison c l r)))))"

definition translate_conjunction :: "duck_expr_type \<Rightarrow> node option result list \<Rightarrow> node option result" where
  "translate_conjunction etype children =
     (let op = translate_conjunction_kind etype in
      if op = conj_invalid then Inr None
      else bind_node (translate_children children) (\<lambda>cs. make_node (Conjunction op cs)))"

definition translate_between :: "node option result \<Rightarrow> node option result \<Rightarrow> node option result \<Rightarrow>
  bool \<Rightarrow> bool \<Rightarrow> node option result" where
  "translate_between input lower upper lower_inclusive upper_inclusive =
     bind_result input (\<lambda>i. bind_result lower (\<lambda>l. bind_result upper (\<lambda>u.
       if i = None \<or> l = None \<or> u = None then Inr None
       else make_node (Between i l u lower_inclusive upper_inclusive))))"

definition translate_case :: "(node option result \<times> node option result) list \<Rightarrow>
  node option result \<Rightarrow> duck_type \<Rightarrow> node option result" where
  "translate_case checks else_expr rt =
     bind_node (translate_cases checks) (\<lambda>cases.
     bind_node else_expr (\<lambda>e.
     bind_result (type_from_duckdb rt) (\<lambda>t. make_node (Case_expr cases (Some e) t))))"

definition translate_cast :: "node option result \<Rightarrow> duck_type \<Rightarrow> bool \<Rightarrow> node option result" where
  "translate_cast child rt try_cast =
     bind_node child (\<lambda>c.
     bind_result (type_from_duckdb rt) (\<lambda>t. make_node (Cast (Some c) t try_cast)))"

definition translate_function ::
  "string \<Rightarrow> node option result list \<Rightarrow> duck_type \<Rightarrow> node option result" where
  "translate_function name children rt =
     (case from_duckdb_function_name name of
        None \<Rightarrow> Inr None
      | Some i \<Rightarrow> bind_node (translate_children children) (\<lambda>arguments.
          bind_result (type_from_duckdb rt) (\<lambda>t. make_node (Function_call i arguments t))))"

definition translate_aggregate ::
  "string \<Rightarrow> node option result list \<Rightarrow> duck_type \<Rightarrow> bool \<Rightarrow> node option result" where
  "translate_aggregate name children rt is_distinct =
     (case from_duckdb_aggregate_name name of
        None \<Rightarrow> Inr None
      | Some i \<Rightarrow> bind_node (translate_children children) (\<lambda>arguments.
          bind_result (type_from_duckdb rt) (\<lambda>t. make_node (Aggregate i arguments t is_distinct))))"

definition translate_operator ::
  "duck_expr_type \<Rightarrow> node option result list \<Rightarrow> duck_type \<Rightarrow> node option result" where
  "translate_operator op_type children rt =
     (let unary_kind = translate_unary_kind op_type in
      if unary_kind \<noteq> unary_invalid then
        (case children of
           [] \<Rightarrow> Inl (Internal_exception ''D_ASSERT(!expr.children.empty())'')
         | c # _ \<Rightarrow> bind_node c (\<lambda>n. make_node (Unary_op unary_kind (Some n))))
      else if op_type = OPERATOR_COALESCE then
        bind_node (translate_children children) (\<lambda>cs.
        bind_result (type_from_duckdb rt) (\<lambda>t. make_node (Coalesce cs t)))
      else if op_type = COMPARE_IN \<or> op_type = COMPARE_NOT_IN then
        (case children of
           [] \<Rightarrow> Inl (Internal_exception ''D_ASSERT(!expr.children.empty())'')
         | c # vs \<Rightarrow> bind_node c (\<lambda>probe.
             bind_node (translate_children vs) (\<lambda>values.
               make_node (In_list (Some probe) values (op_type = COMPARE_NOT_IN)))))
      else Inr None)"

text \<open>The entry point \<open>sirius::ast::from_duckdb\<close>, which dispatches on the expression class.\<close>

fun ast_from_duckdb :: "('dv, 'z) duck_value_api_scheme \<Rightarrow> 'dv duck_expr \<Rightarrow> node option result" where
  "ast_from_duckdb api (Bound_aggregate name children rt is_distinct) =
     translate_aggregate name (map (ast_from_duckdb api) children) rt is_distinct"
| "ast_from_duckdb api (Bound_between input lower upper li ui) =
     translate_between (ast_from_duckdb api input) (ast_from_duckdb api lower)
       (ast_from_duckdb api upper) li ui"
| "ast_from_duckdb api (Bound_case checks else_expr rt) =
     translate_case (map (\<lambda>(w, t). (ast_from_duckdb api w, ast_from_duckdb api t)) checks)
       (ast_from_duckdb api else_expr) rt"
| "ast_from_duckdb api (Bound_cast child rt try_cast) =
     translate_cast (ast_from_duckdb api child) rt try_cast"
| "ast_from_duckdb api (Bound_comparison etype left right) =
     translate_comparison etype (ast_from_duckdb api left) (ast_from_duckdb api right)"
| "ast_from_duckdb api (Bound_conjunction etype children) =
     translate_conjunction etype (map (ast_from_duckdb api) children)"
| "ast_from_duckdb api (Bound_constant v rt) = translate_constant api v rt"
| "ast_from_duckdb api (Bound_function name children rt) =
     translate_function name (map (ast_from_duckdb api) children) rt"
| "ast_from_duckdb api (Bound_operator etype children rt) =
     translate_operator etype (map (ast_from_duckdb api) children) rt"
| "ast_from_duckdb api Bound_parameter = Inr None"
| "ast_from_duckdb api (Bound_ref index rt) = translate_reference index rt"
| "ast_from_duckdb api (Other_class n) =
     Inl (Internal_exception ''[sirius::ast::from_duckdb] Unknown ExpressionClass'')"

section \<open>Reconstruction of a DuckDB expression\<close>

text \<open>Dereferencing a child pointer.\<close>

definition deref :: "('a \<Rightarrow> 'b result) \<Rightarrow> 'a option \<Rightarrow> 'b result" where
  "deref f p = (case p of None \<Rightarrow> Inl (Undefined_behaviour ''null child'') | Some n \<Rightarrow> f n)"

lemma deref_simps [simp]:
  "deref f None = Inl (Undefined_behaviour ''null child'')"
  "deref f (Some n) = f n"
  by (simp_all add: deref_def)

lemma deref_cong [fundef_cong]:
  "p = q \<Longrightarrow> (\<And>n. q = Some n \<Longrightarrow> f n = g n) \<Longrightarrow> deref f p = deref g q"
  by (cases q) (auto simp: deref_def)

definition reference_to_duckdb :: "32 word \<Rightarrow> logical_type \<Rightarrow> 'dv duck_expr result" where
  "reference_to_duckdb column_index t =
     bind_result (if lt_id t = SQLNULL then Inr (duck_type_of D_INTEGER) else type_to_duckdb t)
       (\<lambda>rt. Inr (Bound_ref (ucast column_index) rt))"

definition constant_to_duckdb :: "('dv, 'z) duck_value_api_scheme \<Rightarrow> sval \<Rightarrow> logical_type \<Rightarrow> 'dv duck_expr result" where
  "constant_to_duckdb api x t =
     bind_result (value_to_duckdb api x t) (\<lambda>v. Inr (Bound_constant v (value_type api v)))"

fun conjunction_kind_to_duckdb :: "conjunction_kind \<Rightarrow> duck_expr_type result" where
  "conjunction_kind_to_duckdb op_and = Inr CONJUNCTION_AND"
| "conjunction_kind_to_duckdb op_or = Inr CONJUNCTION_OR"
| "conjunction_kind_to_duckdb conj_invalid =
     Inl (Internal_exception ''conjunction with kind::invalid is unreachable'')"

fun unary_kind_to_duckdb :: "unary_kind \<Rightarrow> duck_expr_type result" where
  "unary_kind_to_duckdb op_not = Inr OPERATOR_NOT"
| "unary_kind_to_duckdb op_is_null = Inr OPERATOR_IS_NULL"
| "unary_kind_to_duckdb op_is_not_null = Inr OPERATOR_IS_NOT_NULL"
| "unary_kind_to_duckdb op_try = Inr OPERATOR_TRY"
| "unary_kind_to_duckdb unary_invalid =
     Inl (Internal_exception ''unary_op with kind::invalid is unreachable'')"

text \<open>
  The three operands of BETWEEN are arguments of one call, whose evaluation order C++ leaves open;
  the model takes them from left to right.
\<close>

fun ast_to_duckdb :: "('dv, 'z) duck_expr_api_scheme \<Rightarrow> node \<Rightarrow> 'dv duck_expr result" where
  "ast_to_duckdb api (Reference column_index t) = reference_to_duckdb column_index t"
| "ast_to_duckdb api (Constant x t) = constant_to_duckdb api x t"
| "ast_to_duckdb api (Comparison c l r) =
     bind_result (deref (ast_to_duckdb api) l) (\<lambda>left.
     bind_result (deref (ast_to_duckdb api) r) (\<lambda>right.
       Inr (Bound_comparison (comparison_to_duckdb c) left right)))"
| "ast_to_duckdb api (Conjunction k cs) =
     bind_result (conjunction_kind_to_duckdb k) (\<lambda>etype.
     bind_result (map_result (deref (ast_to_duckdb api)) cs) (\<lambda>children.
       Inr (Bound_conjunction etype children)))"
| "ast_to_duckdb api (Between i l u li ui) =
     bind_result (deref (ast_to_duckdb api) i) (\<lambda>input.
     bind_result (deref (ast_to_duckdb api) l) (\<lambda>lower.
     bind_result (deref (ast_to_duckdb api) u) (\<lambda>upper.
       Inr (Bound_between input lower upper li ui))))"
| "ast_to_duckdb api (Case_expr cs e t) =
     bind_result (type_to_duckdb t) (\<lambda>rt.
     bind_result (map_result (\<lambda>(w, h).
       bind_result (deref (ast_to_duckdb api) w) (\<lambda>when_expr.
       bind_result (deref (ast_to_duckdb api) h) (\<lambda>then_expr. Inr (when_expr, then_expr)))) cs)
         (\<lambda>checks.
     bind_result (deref (ast_to_duckdb api) e) (\<lambda>else_expr.
       Inr (Bound_case checks else_expr rt))))"
| "ast_to_duckdb api (Cast c t try_cast) =
     bind_result (deref (ast_to_duckdb api) c) (\<lambda>child.
     bind_result (type_to_duckdb t) (\<lambda>target.
       if try_cast then Inr (Bound_cast child target True)
       else Inr (add_default_cast api child target)))"
| "ast_to_duckdb api (Unary_op k c) =
     bind_result (unary_kind_to_duckdb k) (\<lambda>etype.
     bind_result (deref (ast_to_duckdb api) c) (\<lambda>child.
       Inr (Bound_operator etype [child] (duck_type_of D_BOOLEAN))))"
| "ast_to_duckdb api (Coalesce cs t) =
     bind_result (type_to_duckdb t) (\<lambda>rt.
     bind_result (map_result (deref (ast_to_duckdb api)) cs) (\<lambda>children.
       Inr (Bound_operator OPERATOR_COALESCE children rt)))"
| "ast_to_duckdb api (In_list p vs negated) =
     bind_result (deref (ast_to_duckdb api) p) (\<lambda>probe.
     bind_result (map_result (deref (ast_to_duckdb api)) vs) (\<lambda>values.
       Inr (Bound_operator (if negated then COMPARE_NOT_IN else COMPARE_IN) (probe # values)
         (duck_type_of D_BOOLEAN))))"
| "ast_to_duckdb api (Function_call i args t) =
     bind_result (type_to_duckdb t) (\<lambda>rt.
     bind_result (map_result (deref (ast_to_duckdb api)) args) (\<lambda>children.
       Inr (Bound_function (to_duckdb_function_name i) children rt)))"
| "ast_to_duckdb api (Aggregate i args t is_distinct) =
     Inl (Not_implemented_exception ''aggregate reconstruction is not implemented'')"

section \<open>Deep copy\<close>

text \<open>\<open>clone_child\<close> is \<open>map_option clone\<close>: a null child stays null.\<close>

fun clone :: "node \<Rightarrow> node" where
  "clone (Reference i t) = Reference i t"
| "clone (Constant x t) = Constant x t"
| "clone (Comparison op l r) = Comparison op (map_option clone l) (map_option clone r)"
| "clone (Conjunction op cs) = Conjunction op (map (map_option clone) cs)"
| "clone (Between i l u li ui) =
     Between (map_option clone i) (map_option clone l) (map_option clone u) li ui"
| "clone (Case_expr cs e t) =
     Case_expr (map (\<lambda>(w, h). (map_option clone w, map_option clone h)) cs) (map_option clone e) t"
| "clone (Cast c t try_cast) = Cast (map_option clone c) t try_cast"
| "clone (Unary_op op c) = Unary_op op (map_option clone c)"
| "clone (Coalesce cs t) = Coalesce (map (map_option clone) cs) t"
| "clone (In_list p vs negated) = In_list (map_option clone p) (map (map_option clone) vs) negated"
| "clone (Function_call i args t) = Function_call i (map (map_option clone) args) t"
| "clone (Aggregate i args t is_distinct) = Aggregate i (map (map_option clone) args) t is_distinct"

section \<open>Checked accessors\<close>

fun is_reference :: "node \<Rightarrow> bool" where
  "is_reference (Reference _ _) = True"
| "is_reference _ = False"

fun is_aggregate :: "node \<Rightarrow> bool" where
  "is_aggregate (Aggregate _ _ _ _) = True"
| "is_aggregate _ = False"

fun is_function_call :: "node \<Rightarrow> bool" where
  "is_function_call (Function_call _ _ _) = True"
| "is_function_call _ = False"

definition as_reference :: "node \<Rightarrow> node result" where
  "as_reference n = throw_if (\<not> is_reference n) Bad_variant_access (Inr n)"

definition as_aggregate :: "node \<Rightarrow> node result" where
  "as_aggregate n = throw_if (\<not> is_aggregate n) Bad_variant_access (Inr n)"

definition as_function_call :: "node \<Rightarrow> node result" where
  "as_function_call n = throw_if (\<not> is_function_call n) Bad_variant_access (Inr n)"

definition wrong_node_type :: "string \<Rightarrow> string \<Rightarrow> sirius_error" where
  "wrong_node_type ctx expected = Not_implemented_exception (ctx @ '': expected '' @ expected)"

definition catch_bad_access :: "'a result \<Rightarrow> sirius_error \<Rightarrow> 'a result" where
  "catch_bad_access r e = (case r of Inl Bad_variant_access \<Rightarrow> Inl e | _ \<Rightarrow> r)"

definition require_reference :: "node option \<Rightarrow> string \<Rightarrow> node result" where
  "require_reference p ctx =
     (case p of
        None \<Rightarrow> Inl (wrong_node_type ctx ''non-null reference node'')
      | Some n \<Rightarrow> catch_bad_access (as_reference n) (wrong_node_type ctx ''reference node''))"

definition require_aggregate :: "node option \<Rightarrow> string \<Rightarrow> node result" where
  "require_aggregate p ctx =
     (case p of
        None \<Rightarrow> Inl (wrong_node_type ctx ''non-null aggregate node'')
      | Some n \<Rightarrow> catch_bad_access (as_aggregate n) (wrong_node_type ctx ''aggregate node''))"

section \<open>Operator count\<close>

definition supported_ast_cast_types_native :: "type_id list" where
  "supported_ast_cast_types_native = [UBIGINT, BIGINT, DOUBLE]"

definition supported_ast_functions :: "function_id list" where
  "supported_ast_functions = [fn_add, fn_sub, fn_mul, fn_div, fn_int_div, fn_mod]"

text \<open>The sum is a \<open>size_t\<close>. A null child is dereferenced only where the code visits it.\<close>

definition unary_ops :: "unary_kind \<Rightarrow> 64 word result" where
  "unary_ops k = (case k of
     op_not \<Rightarrow> Inr 1 | op_is_null \<Rightarrow> Inr 1 | op_is_not_null \<Rightarrow> Inr 2
   | op_try \<Rightarrow> Inl (Not_implemented_exception ''TRY operator is not implemented.'')
   | unary_invalid \<Rightarrow> Inl (Internal_exception ''unknown kind''))"

fun cudf_ast_op_count :: "node \<Rightarrow> 64 word result" where
  "cudf_ast_op_count (Reference _ _) = Inr 0"
| "cudf_ast_op_count (Constant _ _) = Inr 0"
| "cudf_ast_op_count (Case_expr _ _ _) = Inr 0"
| "cudf_ast_op_count (Coalesce _ _) = Inr 0"
| "cudf_ast_op_count (Comparison op l r) =
     bind_result (deref cudf_ast_op_count l) (\<lambda>x.
     bind_result (deref cudf_ast_op_count r) (\<lambda>y.
       Inr ((if op = cmp_distinct_from then 2 else 1) + x + y)))"
| "cudf_ast_op_count (Conjunction _ cs) =
     throw_if (cs = []) (Invalid_input_exception ''no children'')
       (bind_result (map_result (deref cudf_ast_op_count) cs) (\<lambda>xs.
         Inr (of_nat (length cs) - 1 + sum_list xs)))"
| "cudf_ast_op_count (Between i l u _ _) =
     bind_result (deref cudf_ast_op_count i) (\<lambda>x.
     bind_result (deref cudf_ast_op_count l) (\<lambda>y.
     bind_result (deref cudf_ast_op_count u) (\<lambda>z. Inr (3 + x + y + z))))"
| "cudf_ast_op_count (Cast c t _) =
     (if lt_id t \<in> set supported_ast_cast_types_native
      then bind_result (deref cudf_ast_op_count c) (\<lambda>x. Inr (1 + x)) else Inr 0)"
| "cudf_ast_op_count (Unary_op op c) =
     bind_result (unary_ops op) (\<lambda>k. bind_result (deref cudf_ast_op_count c) (\<lambda>x. Inr (k + x)))"
| "cudf_ast_op_count (In_list p vs negated) =
     throw_if (vs = []) (Invalid_input_exception ''no values'')
       (bind_result (deref cudf_ast_op_count p) (\<lambda>x.
        bind_result (map_result (deref cudf_ast_op_count) vs) (\<lambda>ys.
          Inr (of_nat (length vs) - 1 + of_nat (length vs) + (if negated then 1 else 0)
            + x + sum_list ys))))"
| "cudf_ast_op_count (Function_call i args t) =
     (if lt_id t = DECIMAL \<or> i \<notin> set supported_ast_functions then Inr 0
      else bind_result (map_result (deref cudf_ast_op_count) args) (\<lambda>xs. Inr (1 + sum_list xs)))"
| "cudf_ast_op_count (Aggregate _ _ _ _) =
     Inl (Not_implemented_exception ''aggregate nodes are not lowered to cuDF AST ops'')"

section \<open>Join conditions\<close>

record 'dv duck_join_condition =
  jc_left :: "'dv duck_expr"
  jc_right :: "'dv duck_expr"
  jc_comparison :: duck_expr_type

record join_condition =
  cond_left :: "node option"
  cond_right :: "node option"
  cond_comparison :: comparison_type

definition wrap_join_condition ::
  "('dv, 'z) duck_value_api_scheme \<Rightarrow> 'dv duck_join_condition \<Rightarrow> join_condition result" where
  "wrap_join_condition api c =
     bind_result (ast_from_duckdb api (jc_left c)) (\<lambda>l.
     bind_result (ast_from_duckdb api (jc_right c)) (\<lambda>r.
     bind_result (comparison_from_duckdb (jc_comparison c)) (\<lambda>op.
       Inr \<lparr>cond_left = l, cond_right = r, cond_comparison = op\<rparr>)))"

definition wrap_join_conditions ::
  "('dv, 'z) duck_value_api_scheme \<Rightarrow> 'dv duck_join_condition list \<Rightarrow> join_condition list result" where
  "wrap_join_conditions api conds = map_result (wrap_join_condition api) conds"

lemma wrap_join_condition_ok:
  "wrap_join_condition api c = Inr j \<Longrightarrow>
     ast_from_duckdb api (jc_left c) = Inr (cond_left j) \<and>
     ast_from_duckdb api (jc_right c) = Inr (cond_right j) \<and>
     comparison_to_duckdb (cond_comparison j) = jc_comparison c"
  by (auto simp: wrap_join_condition_def bind_result_eq_Inr comparison_to_from)

section \<open>Trees without null children\<close>

text \<open>
  \<open>children\<close> lists the child pointers of a node in order. \<open>all_nodes P n\<close> says that no child in
  the tree is null and that every node of it satisfies \<open>P\<close>.
\<close>

fun children :: "node \<Rightarrow> node option list" where
  "children (Reference _ _) = []"
| "children (Constant _ _) = []"
| "children (Comparison _ l r) = [l, r]"
| "children (Conjunction _ cs) = cs"
| "children (Between i l u _ _) = [i, l, u]"
| "children (Case_expr cs e _) = concat (map (\<lambda>(w, h). [w, h]) cs) @ [e]"
| "children (Cast c _ _) = [c]"
| "children (Unary_op _ c) = [c]"
| "children (Coalesce cs _) = cs"
| "children (In_list p vs _) = p # vs"
| "children (Function_call _ args _) = args"
| "children (Aggregate _ args _ _) = args"

lemma child_in_list_smaller: "Some m \<in> set cs \<Longrightarrow> size m < size_list (size_option size) cs"
  by (induction cs) auto

lemma child_in_cases_smaller:
  "Some m \<in> set (concat (map (\<lambda>(w, h). [w, h]) cs)) \<Longrightarrow>
     size m < size_list (size_prod (size_option size) (size_option size)) cs"
  by (induction cs) (auto, fastforce+)

lemma child_smaller: "Some m \<in> set (children n) \<Longrightarrow> size m < size n"
  by (cases n) (auto simp del: set_concat dest: child_in_list_smaller child_in_cases_smaller)

lemma node_tree_induct:
  assumes "\<And>n. (\<And>m. Some m \<in> set (children n) \<Longrightarrow> P m) \<Longrightarrow> P n"
  shows "P n"
  by (induction n rule: measure_induct_rule [of size]) (use assms child_smaller in blast)

function all_nodes :: "(node \<Rightarrow> bool) \<Rightarrow> node \<Rightarrow> bool" where
  "all_nodes P n \<longleftrightarrow>
     P n \<and> (\<forall>c \<in> set (children n). case c of None \<Rightarrow> False | Some m \<Rightarrow> all_nodes P m)"
  by pat_completeness auto
termination
  by (relation "measure (\<lambda>(P, n). size n)") (auto dest: child_smaller)

declare all_nodes.simps [simp del]

lemma all_nodes_iff:
  "all_nodes P n \<longleftrightarrow> P n \<and> (\<forall>c \<in> set (children n). \<exists>m. c = Some m \<and> all_nodes P m)"
  by (subst all_nodes.simps) (auto split: option.splits)

definition nonnull_all :: "(node \<Rightarrow> bool) \<Rightarrow> node option \<Rightarrow> bool" where
  "nonnull_all P c \<longleftrightarrow> (\<exists>m. c = Some m \<and> all_nodes P m)"

lemma nonnull_all_simps [simp]:
  "\<not> nonnull_all P None"
  "nonnull_all P (Some m) \<longleftrightarrow> all_nodes P m"
  by (simp_all add: nonnull_all_def)

lemma all_nodes_children:
  "all_nodes P n \<longleftrightarrow> P n \<and> list_all (nonnull_all P) (children n)"
  by (subst all_nodes_iff) (simp add: nonnull_all_def list_all_iff)

lemma list_all_cases:
  "list_all Q (concat (map (\<lambda>(w, h). [w, h]) cs)) \<longleftrightarrow> list_all (\<lambda>(w, h). Q w \<and> Q h) cs"
  by (induction cs) auto

text \<open>The invariant of translated trees: declared types are valid and constants fit their type.\<close>

definition type_ok :: "logical_type \<Rightarrow> bool" where
  "type_ok t \<longleftrightarrow> wf_type t \<and> lt_id t \<noteq> INVALID"

fun node_ok :: "node \<Rightarrow> bool" where
  "node_ok (Reference _ t) = type_ok t"
| "node_ok (Constant x t) = (type_ok t \<and> value_fits x t)"
| "node_ok (Conjunction k _) = (k \<noteq> conj_invalid)"
| "node_ok (Case_expr _ _ t) = type_ok t"
| "node_ok (Cast _ t _) = type_ok t"
| "node_ok (Unary_op k _) = (k \<noteq> unary_invalid)"
| "node_ok (Coalesce _ t) = type_ok t"
| "node_ok (Function_call _ _ t) = type_ok t"
| "node_ok (Aggregate _ _ t _) = type_ok t"
| "node_ok _ = True"

definition wf_node :: "node \<Rightarrow> bool" where
  "wf_node n \<longleftrightarrow> all_nodes node_ok n"

lemma bind_node_eq_Some:
  "bind_node r f = Inr (Some y) \<longleftrightarrow> (\<exists>x. r = Inr (Some x) \<and> f x = Inr (Some y))"
  by (auto simp: bind_node_def bind_result_eq_Inr split: option.splits)

lemmas translate_elims = bind_node_eq_Some bind_result_eq_Inr make_node_def

lemmas translate_defs = translate_reference_def translate_constant_def translate_comparison_def
  translate_conjunction_def translate_between_def translate_case_def translate_cast_def
  translate_function_def translate_aggregate_def translate_operator_def Let_def

lemma type_from_duckdb_ok: "type_from_duckdb d = Inr t \<Longrightarrow> type_ok t"
  by (simp add: type_ok_def type_from_duckdb_wf type_from_duckdb_valid)

lemma translate_children_ok:
  assumes "translate_children (map f es) = Inr (Some cs)"
    and "\<forall>e \<in> set es. \<forall>n. f e = Inr (Some n) \<longrightarrow> all_nodes P n"
  shows "list_all (nonnull_all P) cs"
  using assms by (induction es arbitrary: cs) (auto simp: translate_elims)

lemma translate_cases_ok:
  assumes "translate_cases (map (\<lambda>(w, t). (f w, f t)) es) = Inr (Some cs)"
    and "\<forall>(w, t) \<in> set es. \<forall>n. f w = Inr (Some n) \<or> f t = Inr (Some n) \<longrightarrow> all_nodes P n"
  shows "list_all (\<lambda>(w, h). nonnull_all P w \<and> nonnull_all P h) cs"
  using assms
  by (induction es arbitrary: cs) (fastforce simp: translate_elims split: if_splits)+

lemma translate_head_ok:
  assumes "\<forall>e \<in> set es. \<forall>n. f e = Inr (Some n) \<longrightarrow> all_nodes P n"
    and "map f es = Inr (Some n) # rs"
  shows "all_nodes P n \<and> rs = map f (tl es) \<and> set (tl es) \<subseteq> set es"
  using assms by (cases es) auto

lemma translated_wf: "ast_from_duckdb api e = Inr (Some n) \<Longrightarrow> all_nodes node_ok n"
proof (induction api e arbitrary: n rule: ast_from_duckdb.induct)
  case (9 api etype children rt)
  have ih: "\<forall>e \<in> set children. \<forall>n. ast_from_duckdb api e = Inr (Some n) \<longrightarrow> all_nodes node_ok n"
    using 9(1) by blast
  from 9(2) consider
      (unary) k m rs where "map (ast_from_duckdb api) children = Inr (Some m) # rs"
        "n = Unary_op k (Some m)" "k \<noteq> unary_invalid"
    | (coalesce) cs t where "translate_children (map (ast_from_duckdb api) children) = Inr (Some cs)"
        "type_from_duckdb rt = Inr t" "n = Coalesce cs t"
    | (in_list) m rs cs where "map (ast_from_duckdb api) children = Inr (Some m) # rs"
        "translate_children rs = Inr (Some cs)" "n = In_list (Some m) cs (etype = COMPARE_NOT_IN)"
    by (auto simp: translate_defs translate_elims split: if_splits list.splits)
  then show ?case
  proof cases
    case unary
    then show ?thesis using translate_head_ok [OF ih unary(1)] by (simp add: all_nodes_children)
  next
    case coalesce
    then show ?thesis
      using translate_children_ok [OF coalesce(1), of node_ok] ih
      by (simp add: all_nodes_children type_from_duckdb_ok)
  next
    case in_list
    have m: "all_nodes node_ok m" "rs = map (ast_from_duckdb api) (tl children)"
      "set (tl children) \<subseteq> set children"
      using translate_head_ok [OF ih in_list(1)] by simp_all
    then have "list_all (nonnull_all node_ok) cs"
      using translate_children_ok [of "ast_from_duckdb api" "tl children" cs node_ok] in_list(2) ih
      by blast
    with m in_list show ?thesis by (simp add: all_nodes_children)
  qed
next
  case (3 api checks else_expr rt)
  from 3(4) obtain cs m t where
    parts: "translate_cases (map (\<lambda>(w, t). (ast_from_duckdb api w, ast_from_duckdb api t)) checks) =
      Inr (Some cs)" "ast_from_duckdb api else_expr = Inr (Some m)" "type_from_duckdb rt = Inr t"
      "n = Case_expr cs (Some m) t"
    by (auto simp: translate_defs translate_elims)
  have "\<forall>(w, t) \<in> set checks. \<forall>n. ast_from_duckdb api w = Inr (Some n) \<or>
    ast_from_duckdb api t = Inr (Some n) \<longrightarrow> all_nodes node_ok n"
    using 3(1,2) by blast
  with parts 3(3) translate_cases_ok [OF parts(1)] show ?case
    by (simp add: all_nodes_children [of _ "Case_expr _ _ _"] list_all_cases type_from_duckdb_ok)
qed (auto simp: translate_defs translate_elims all_nodes_children type_from_duckdb_ok
    value_from_duckdb_fits split: if_splits option.splits intro: translate_children_ok)

section \<open>Reconstruction undoes the translation\<close>

text \<open>
  The documented behaviour of \<open>AddDefaultCastToType\<close>, and the trees \<open>to_duckdb\<close> is meant for:
  no aggregates, no LIST types (DuckDB's LIST needs a child type), references with a type of their
  own, and no cast to the type the child already has.
\<close>

definition default_cast_law :: "('dv, 'z) duck_expr_api_scheme \<Rightarrow> bool" where
  "default_cast_law api \<longleftrightarrow> (\<forall>e t. add_default_cast api e t =
     (if return_type api e = t then e else Bound_cast e t False))"

definition cast_changes_type ::
  "('dv, 'z) duck_expr_api_scheme \<Rightarrow> node option \<Rightarrow> logical_type \<Rightarrow> bool" where
  "cast_changes_type api c t =
     (case (deref (ast_to_duckdb api) c, type_to_duckdb t) of
        (Inr e, Inr d) \<Rightarrow> return_type api e \<noteq> d | _ \<Rightarrow> True)"

fun node_plain :: "('dv, 'z) duck_expr_api_scheme \<Rightarrow> node \<Rightarrow> bool" where
  "node_plain api (Reference _ t) = (lt_id t \<noteq> LIST \<and> lt_id t \<noteq> SQLNULL)"
| "node_plain api (Constant _ t) = (lt_id t \<noteq> LIST)"
| "node_plain api (Case_expr _ _ t) = (lt_id t \<noteq> LIST)"
| "node_plain api (Cast c t try_cast) = (lt_id t \<noteq> LIST \<and> (try_cast \<or> cast_changes_type api c t))"
| "node_plain api (Coalesce _ t) = (lt_id t \<noteq> LIST)"
| "node_plain api (Function_call _ _ t) = (lt_id t \<noteq> LIST)"
| "node_plain api (Aggregate _ _ _ _) = False"
| "node_plain api _ = True"

definition comes_back :: "('dv, 'z) duck_expr_api_scheme \<Rightarrow> node option \<Rightarrow> bool" where
  "comes_back api c \<longleftrightarrow> c \<noteq> None \<and>
     (\<exists>e. deref (ast_to_duckdb api) c = Inr e \<and> ast_from_duckdb api e = Inr c)"

lemma children_come_back:
  "list_all (comes_back api) cs \<Longrightarrow>
     \<exists>es. map_result (deref (ast_to_duckdb api)) cs = Inr es \<and>
       translate_children (map (ast_from_duckdb api) es) = Inr (Some cs)"
  by (induction cs) (auto simp: comes_back_def bind_node_def)

lemma cases_come_back:
  "list_all (\<lambda>(w, h). comes_back api w \<and> comes_back api h) cs \<Longrightarrow>
     \<exists>es. map_result (\<lambda>(w, h).
       bind_result (deref (ast_to_duckdb api) w) (\<lambda>when_expr.
       bind_result (deref (ast_to_duckdb api) h) (\<lambda>then_expr. Inr (when_expr, then_expr)))) cs = Inr es \<and>
       translate_cases (map (\<lambda>(w, t). (ast_from_duckdb api w, ast_from_duckdb api t)) es) = Inr (Some cs)"
  by (induction cs) (auto simp: comes_back_def bind_node_def)

lemma convertible_type:
  assumes "type_ok t" and "lt_id t \<noteq> LIST"
  obtains d where "type_to_duckdb t = Inr d" and "type_from_duckdb d = Inr t"
  using assms type_to_duckdb_defined [of t] type_to_duckdb_from [of t] by (auto simp: type_ok_def)

lemma comparison_to_is_comparison [simp]: "is_comparison_type (comparison_to_duckdb c)"
  by (cases c) (simp_all add: comparison_to_duckdb_def)

lemma conjunction_kind_back:
  "k \<noteq> conj_invalid \<Longrightarrow>
     \<exists>e. conjunction_kind_to_duckdb k = Inr e \<and> translate_conjunction_kind e = k"
  by (cases k) auto

lemma unary_kind_back:
  "k \<noteq> unary_invalid \<Longrightarrow> \<exists>e. unary_kind_to_duckdb k = Inr e \<and> translate_unary_kind e = k"
  by (cases k) auto

lemma column_index_back [simp]: "ucast (ucast i :: 64 word) = i" for i :: "32 word"
  by (rule bit_word_eqI) (auto simp: bit_simps)

lemmas back_simps = translate_defs bind_node_def make_node_def function_names.from_to

lemma node_comes_back:
  assumes laws: "duck_value_laws api" and casts: "default_cast_law api"
    and cs: "list_all (comes_back api) (children n)" and ok: "node_ok n" and plain: "node_plain api n"
  shows "comes_back api (Some n)"
proof (cases n)
  case (Reference i t)
  with ok plain obtain d where "type_to_duckdb t = Inr d" "type_from_duckdb d = Inr t"
    by (auto elim: convertible_type)
  with Reference plain show ?thesis
    by (simp add: comes_back_def reference_to_duckdb_def back_simps)
next
  case (Constant x t)
  with ok plain obtain d where d: "type_to_duckdb t = Inr d" "type_from_duckdb d = Inr t"
    by (auto elim: convertible_type)
  moreover from ok Constant have "value_fits x t" "wf_type t" by (simp_all add: type_ok_def)
  ultimately show ?thesis
    using value_to_duckdb_from [OF laws _ _ d(1)] Constant
    by (fastforce simp: comes_back_def constant_to_duckdb_def back_simps)
next
  case (Comparison c l r)
  with cs show ?thesis by (auto simp: comes_back_def back_simps)
next
  case (Conjunction k xs)
  with cs children_come_back [of api xs] conjunction_kind_back [of k] ok show ?thesis
    by (auto simp: comes_back_def back_simps)
next
  case (Between i l u li ui)
  with cs show ?thesis by (auto simp: comes_back_def back_simps)
next
  case (Case_expr xs e t)
  with ok plain obtain d where "type_to_duckdb t = Inr d" "type_from_duckdb d = Inr t"
    by (auto elim: convertible_type)
  moreover have "list_all (\<lambda>(w, h). comes_back api w \<and> comes_back api h) xs" "comes_back api e"
    using cs Case_expr list_all_cases by auto
  ultimately show ?thesis
    using Case_expr cases_come_back [of api xs] by (auto simp: comes_back_def back_simps)
next
  case (Cast c t try_cast)
  with ok plain obtain d where "type_to_duckdb t = Inr d" "type_from_duckdb d = Inr t"
    by (auto elim: convertible_type)
  with cs Cast plain casts show ?thesis
    by (auto simp: comes_back_def cast_changes_type_def default_cast_law_def back_simps)
next
  case (Unary_op k c)
  with cs unary_kind_back [of k] ok show ?thesis by (auto simp: comes_back_def back_simps)
next
  case (Coalesce xs t)
  with ok plain obtain d where "type_to_duckdb t = Inr d" "type_from_duckdb d = Inr t"
    by (auto elim: convertible_type)
  with cs Coalesce children_come_back [of api xs] show ?thesis
    by (auto simp: comes_back_def back_simps)
next
  case (In_list p xs negated)
  with cs children_come_back [of api xs] show ?thesis by (auto simp: comes_back_def back_simps)
next
  case (Function_call i xs t)
  with ok plain obtain d where "type_to_duckdb t = Inr d" "type_from_duckdb d = Inr t"
    by (auto elim: convertible_type)
  with cs Function_call children_come_back [of api xs] show ?thesis
    by (auto simp: comes_back_def back_simps)
next
  case (Aggregate i xs t is_distinct)
  with plain show ?thesis by simp
qed

lemma tree_comes_back:
  assumes "duck_value_laws api" and "default_cast_law api"
  shows "wf_node n \<Longrightarrow> all_nodes (node_plain api) n \<Longrightarrow> comes_back api (Some n)"
proof (induction n rule: node_tree_induct)
  case (1 n)
  have "list_all (comes_back api) (children n)"
    unfolding list_all_iff
  proof
    fix c assume c: "c \<in> set (children n)"
    with 1(2,3) obtain m where "c = Some m" "all_nodes node_ok m" "all_nodes (node_plain api) m"
      by (fastforce simp: wf_node_def all_nodes_iff [of _ n])
    with 1(1) c show "comes_back api c" by (simp add: wf_node_def)
  qed
  with 1(2,3) show ?case
    by (intro node_comes_back [OF assms]) (auto simp: wf_node_def all_nodes_iff [of _ n])
qed

section \<open>The operator count is defined and does not wrap\<close>

function tree_size :: "node \<Rightarrow> nat" where
  "tree_size n = 1 + sum_list (map (\<lambda>c. case c of None \<Rightarrow> 0 | Some m \<Rightarrow> tree_size m) (children n))"
  by pat_completeness auto
termination
  by (relation "measure size") (auto dest: child_smaller)

declare tree_size.simps [simp del]

fun node_countable :: "node \<Rightarrow> bool" where
  "node_countable (Conjunction _ cs) = (cs \<noteq> [])"
| "node_countable (In_list _ vs _) = (vs \<noteq> [])"
| "node_countable (Unary_op k _) = (k \<noteq> unary_invalid \<and> k \<noteq> op_try)"
| "node_countable (Aggregate _ _ _ _) = False"
| "node_countable _ = True"

text \<open>Two spare units per node absorb the operators IN and BETWEEN add for their operands.\<close>

definition count_bounded :: "node option \<Rightarrow> bool" where
  "count_bounded c \<longleftrightarrow> (\<exists>m k. c = Some m \<and> cudf_ast_op_count m = Inr k \<and>
     unat k + 2 \<le> 3 * tree_size m)"

definition child_sizes :: "node option list \<Rightarrow> nat" where
  "child_sizes cs = sum_list (map (\<lambda>c. case c of None \<Rightarrow> 0 | Some m \<Rightarrow> tree_size m) cs)"

lemma child_sizes_simps [simp]:
  "child_sizes [] = 0"
  "child_sizes (c # cs) = (case c of None \<Rightarrow> 0 | Some m \<Rightarrow> tree_size m) + child_sizes cs"
  by (simp_all add: child_sizes_def)

lemma tree_size_children: "tree_size n = 1 + child_sizes (children n)"
  by (subst tree_size.simps) (simp add: child_sizes_def)

lemmas tree_size_simps =
  tree_size_children [of "Reference i t" for i t]
  tree_size_children [of "Constant x t" for x t]
  tree_size_children [of "Comparison op l r" for op l r]
  tree_size_children [of "Conjunction op cs" for op cs]
  tree_size_children [of "Between i l u li ui" for i l u li ui]
  tree_size_children [of "Case_expr cs e t" for cs e t]
  tree_size_children [of "Cast c t try_cast" for c t try_cast]
  tree_size_children [of "Unary_op op c" for op c]
  tree_size_children [of "Coalesce cs t" for cs t]
  tree_size_children [of "In_list p vs negated" for p vs negated]
  tree_size_children [of "Function_call i args t" for i args t]

lemma tree_size_pos: "1 \<le> tree_size n"
  by (simp add: tree_size_children)

lemma unat_add_le: "unat a \<le> x \<Longrightarrow> unat b \<le> y \<Longrightarrow> unat (a + b) \<le> x + y" for a b :: "64 word"
  using unat_plus_if_size [of a b] by (simp split: if_splits)

lemma children_count_bounded:
  "list_all count_bounded cs \<Longrightarrow>
     \<exists>xs. map_result (deref cudf_ast_op_count) cs = Inr xs \<and>
       unat (sum_list xs) + 2 * length cs \<le> 3 * child_sizes cs"
proof (induction cs)
  case (Cons c cs)
  then obtain m k xs where "c = Some m" "cudf_ast_op_count m = Inr k" "unat k + 2 \<le> 3 * tree_size m"
    "map_result (deref cudf_ast_op_count) cs = Inr xs"
    "unat (sum_list xs) + 2 * length cs \<le> 3 * child_sizes cs"
    by (auto simp: count_bounded_def)
  moreover have "unat (k + sum_list xs) \<le> unat k + unat (sum_list xs)"
    by (rule unat_add_le) simp_all
  ultimately show ?case by auto
qed simp

lemma unat_length_pred:
  "cs \<noteq> [] \<Longrightarrow> length cs < 2 ^ 64 \<Longrightarrow> unat (of_nat (length cs) - 1 :: 64 word) = length cs - 1"
  by (cases cs) (simp_all add: take_bit_nat_eq_self unsigned_of_nat)

lemma in_list_own_ops:
  assumes "vs \<noteq> []" and "length vs < 2 ^ 64"
  shows "unat (of_nat (length vs) - 1 + of_nat (length vs) + (if negated then 1 else 0) :: 64 word)
    \<le> 2 * length vs"
proof -
  have "unat (of_nat (length vs) :: 64 word) \<le> length vs"
    using assms by (simp add: take_bit_nat_eq_self unsigned_of_nat)
  moreover have "unat (if negated then 1 else 0 :: 64 word) \<le> 1" by simp
  ultimately have "unat (of_nat (length vs) - 1 + of_nat (length vs) + (if negated then 1 else 0) :: 64 word)
    \<le> (length vs - 1 + length vs) + 1"
    using unat_length_pred [OF assms] by (intro unat_add_le) simp_all
  with assms(1) show ?thesis by (cases vs) simp_all
qed

lemma length_le_child_sizes: "list_all count_bounded cs \<Longrightarrow> length cs \<le> child_sizes cs"
  by (induction cs) (auto simp: count_bounded_def dest: add_le_mono [OF tree_size_pos])

lemma unary_ops_bound:
  "k \<noteq> unary_invalid \<Longrightarrow> k \<noteq> op_try \<Longrightarrow> \<exists>w. unary_ops k = Inr w \<and> unat w \<le> 2"
  by (cases k) (simp_all add: unary_ops_def)

lemma node_count_bounded:
  assumes cs: "list_all count_bounded (children n)" and ok: "node_countable n"
    and small: "child_sizes (children n) < 2 ^ 64"
  shows "count_bounded (Some n)"
proof (cases n)
  case (Comparison op l r)
  with cs obtain m k m' k' where ks: "l = Some m" "cudf_ast_op_count m = Inr k" "unat k + 2 \<le> 3 * tree_size m"
    "r = Some m'" "cudf_ast_op_count m' = Inr k'" "unat k' + 2 \<le> 3 * tree_size m'"
    by (auto simp: count_bounded_def)
  have "unat ((if op = cmp_distinct_from then 2 else 1) + k + k') \<le> (2 + unat k) + unat k'"
    by (intro unat_add_le) simp_all
  with Comparison ks show ?thesis by (simp add: count_bounded_def tree_size_simps)
next
  case (Conjunction op xs)
  with cs obtain ws where ws: "map_result (deref cudf_ast_op_count) xs = Inr ws"
    "unat (sum_list ws) + 2 * length xs \<le> 3 * child_sizes xs"
    using children_count_bounded [of xs] by auto
  have "length xs < 2 ^ 64" using length_le_child_sizes [of xs] cs small Conjunction by simp
  then have "unat (of_nat (length xs) - 1 + sum_list ws) \<le> (length xs - 1) + unat (sum_list ws)"
    using ok Conjunction by (intro unat_add_le) (simp_all add: unat_length_pred)
  with Conjunction ws ok show ?thesis by (simp add: count_bounded_def tree_size_simps)
next
  case (Between i l u li ui)
  with cs obtain m k m' k' m'' k'' where ks: "i = Some m" "cudf_ast_op_count m = Inr k"
    "unat k + 2 \<le> 3 * tree_size m" "l = Some m'" "cudf_ast_op_count m' = Inr k'"
    "unat k' + 2 \<le> 3 * tree_size m'" "u = Some m''" "cudf_ast_op_count m'' = Inr k''"
    "unat k'' + 2 \<le> 3 * tree_size m''"
    by (auto simp: count_bounded_def)
  have "unat (3 + k + k' + k'') \<le> ((3 + unat k) + unat k') + unat k''"
    by (intro unat_add_le) simp_all
  with Between ks show ?thesis by (simp add: count_bounded_def tree_size_simps)
next
  case (Cast c t try_cast)
  with cs obtain m k where ks: "c = Some m" "cudf_ast_op_count m = Inr k" "unat k + 2 \<le> 3 * tree_size m"
    by (auto simp: count_bounded_def)
  have "unat (1 + k) \<le> 1 + unat k" by (intro unat_add_le) simp_all
  with Cast ks show ?thesis by (simp add: count_bounded_def tree_size_simps)
next
  case (Unary_op op c)
  with cs obtain m k where ks: "c = Some m" "cudf_ast_op_count m = Inr k" "unat k + 2 \<le> 3 * tree_size m"
    by (auto simp: count_bounded_def)
  obtain w where w: "unary_ops op = Inr w" "unat w \<le> 2"
    using ok Unary_op unary_ops_bound by auto
  then have "unat (w + k) \<le> 2 + unat k" by (intro unat_add_le) simp_all
  with Unary_op ks w show ?thesis by (simp add: count_bounded_def tree_size_simps)
next
  case (In_list p xs negated)
  with cs obtain m k ws where ks: "p = Some m" "cudf_ast_op_count m = Inr k" "unat k + 2 \<le> 3 * tree_size m"
    "map_result (deref cudf_ast_op_count) xs = Inr ws"
    "unat (sum_list ws) + 2 * length xs \<le> 3 * child_sizes xs"
    using children_count_bounded [of xs] by (auto simp: count_bounded_def)
  have "length xs < 2 ^ 64" using length_le_child_sizes [of xs] cs small In_list ks by simp
  then have "unat ((of_nat (length xs) - 1 + of_nat (length xs) + (if negated then 1 else 0)) + k + sum_list ws)
    \<le> (2 * length xs + unat k) + unat (sum_list ws)"
    using ok In_list by (intro unat_add_le in_list_own_ops) simp_all
  with In_list ks ok show ?thesis by (simp add: count_bounded_def tree_size_simps)
next
  case (Function_call i xs t)
  with cs obtain ws where ws: "map_result (deref cudf_ast_op_count) xs = Inr ws"
    "unat (sum_list ws) + 2 * length xs \<le> 3 * child_sizes xs"
    using children_count_bounded [of xs] by auto
  have "unat (1 + sum_list ws) \<le> 1 + unat (sum_list ws)" by (intro unat_add_le) simp_all
  with Function_call ws show ?thesis by (simp add: count_bounded_def tree_size_simps)
qed (use ok in \<open>auto simp: count_bounded_def tree_size_simps\<close>)

lemma child_size_le: "Some m \<in> set (children n) \<Longrightarrow> tree_size m < tree_size n"
proof -
  assume "Some m \<in> set (children n)"
  then have "tree_size m \<le> child_sizes (children n)"
    unfolding child_sizes_def
    by (intro member_le_sum_list) (force, simp)
  then show ?thesis by (simp add: tree_size_children [of n])
qed

lemma tree_count_bounded:
  "all_nodes node_countable n \<Longrightarrow> tree_size n < 2 ^ 64 \<Longrightarrow> count_bounded (Some n)"
proof (induction n rule: node_tree_induct)
  case (1 n)
  have "list_all count_bounded (children n)"
    unfolding list_all_iff
  proof
    fix c assume c: "c \<in> set (children n)"
    with 1(2) obtain m where "c = Some m" "all_nodes node_countable m"
      by (auto simp: all_nodes_iff [of _ n])
    with 1 c show "count_bounded c" using child_size_le [of m n] by simp
  qed
  with 1(2,3) show ?case
    by (intro node_count_bounded) (auto simp: all_nodes_iff [of _ n] tree_size_children [of n])
qed

section \<open>Copies\<close>

lemma clone_same: "clone n = n"
proof (induction n rule: node_tree_induct)
  case (1 n)
  have same: "map_option clone c = c" if "c \<in> set (children n)" for c
    using 1 that by (cases c) auto
  then show ?case
    by (cases n) (auto intro!: map_idI)
qed

end
