(* ===== verification/Duck_Instance.thy ===== *)
theory Duck_Instance
  imports Expr_Ast
begin

text \<open>
  A concrete value and expression interface that satisfies the laws \<open>duck_value_laws\<close> and
  \<open>default_cast_law\<close>: a value is its type and its payload. It shows that the hypotheses of the
  conversion theorems can hold and gives the inputs their concrete applications use.
\<close>

section \<open>The interface\<close>

type_synonym demo_value = "duck_type \<times> sval"

definition demo_bool :: "demo_value \<Rightarrow> bool result" where
  "demo_bool v = (case snd v of V_bool b \<Rightarrow> Inr b | _ \<Rightarrow> Inl (Internal_exception ''type''))"

definition demo_int8 :: "demo_value \<Rightarrow> 8 word result" where
  "demo_int8 v = (case snd v of V_int8 w \<Rightarrow> Inr w | _ \<Rightarrow> Inl (Internal_exception ''type''))"

definition demo_int16 :: "demo_value \<Rightarrow> 16 word result" where
  "demo_int16 v = (case snd v of V_int16 w \<Rightarrow> Inr w | _ \<Rightarrow> Inl (Internal_exception ''type''))"

definition demo_int32 :: "demo_value \<Rightarrow> 32 word result" where
  "demo_int32 v = (case snd v of V_int32 w \<Rightarrow> Inr w | _ \<Rightarrow> Inl (Internal_exception ''type''))"

definition demo_int64 :: "demo_value \<Rightarrow> 64 word result" where
  "demo_int64 v = (case snd v of V_int64 w \<Rightarrow> Inr w | _ \<Rightarrow> Inl (Internal_exception ''type''))"

definition demo_string :: "demo_value \<Rightarrow> string result" where
  "demo_string v = (case snd v of V_string w \<Rightarrow> Inr w | _ \<Rightarrow> Inl (Internal_exception ''type''))"

definition demo_hugeint :: "demo_value \<Rightarrow> 64 word \<times> 64 word" where
  "demo_hugeint v = (case snd v of V_decimal128 w _ \<Rightarrow> unpack_hugeint w | _ \<Rightarrow> (0, 0))"

definition ignore_error :: "'a::zero result \<Rightarrow> 'a" where
  "ignore_error r = (case r of Inl _ \<Rightarrow> 0 | Inr x \<Rightarrow> x)"

definition demo_type :: "demo_value duck_expr \<Rightarrow> duck_type" where
  "demo_type e = (case e of
     Bound_aggregate _ _ t _ \<Rightarrow> t | Bound_case _ _ t \<Rightarrow> t | Bound_cast _ t _ \<Rightarrow> t
   | Bound_constant _ t \<Rightarrow> t | Bound_function _ _ t \<Rightarrow> t | Bound_operator _ _ t \<Rightarrow> t
   | Bound_ref _ t \<Rightarrow> t | _ \<Rightarrow> duck_type_of D_BOOLEAN)"

definition demo_api :: "demo_value duck_expr_api" where
  "demo_api = \<lparr>
     is_null = (\<lambda>v. snd v = V_null),
     value_type = fst,
     get_bool = demo_bool,
     get_int8 = demo_int8,
     get_int16 = demo_int16,
     get_int32 = demo_int32,
     get_int64 = demo_int64,
     get_uint8 = demo_int8,
     get_uint16 = demo_int16,
     get_uint32 = demo_int32,
     get_uint64 = demo_int64,
     get_float = demo_int32,
     get_double = demo_int64,
     get_date = demo_int32,
     get_timestamp_sec = demo_int64,
     get_timestamp_ms = demo_int64,
     get_timestamp_tz = demo_int64,
     get_timestamp_ns = demo_int64,
     get_string = demo_string,
     unsafe_int16 = (\<lambda>v. ignore_error (demo_int16 v)),
     unsafe_int32 = (\<lambda>v. ignore_error (demo_int32 v)),
     unsafe_int64 = (\<lambda>v. ignore_error (demo_int64 v)),
     unsafe_hugeint = demo_hugeint,
     mk_null = (\<lambda>d. (d, V_null)),
     mk_boolean = (\<lambda>w. (duck_type_of D_BOOLEAN, V_bool w)),
     mk_tinyint = (\<lambda>w. (duck_type_of D_TINYINT, V_int8 w)),
     mk_smallint = (\<lambda>w. (duck_type_of D_SMALLINT, V_int16 w)),
     mk_integer = (\<lambda>w. (duck_type_of D_INTEGER, V_int32 w)),
     mk_bigint = (\<lambda>w. (duck_type_of D_BIGINT, V_int64 w)),
     mk_hugeint = (\<lambda>w. (duck_type_of D_HUGEINT, V_int64 w)),
     mk_utinyint = (\<lambda>w. (duck_type_of D_UTINYINT, V_int8 w)),
     mk_usmallint = (\<lambda>w. (duck_type_of D_USMALLINT, V_int16 w)),
     mk_uinteger = (\<lambda>w. (duck_type_of D_UINTEGER, V_int32 w)),
     mk_ubigint = (\<lambda>w. (duck_type_of D_UBIGINT, V_int64 w)),
     mk_uhugeint = (\<lambda>w. (duck_type_of D_UHUGEINT, V_int64 w)),
     mk_float = (\<lambda>w. (duck_type_of D_FLOAT, V_int32 w)),
     mk_double = (\<lambda>w. (duck_type_of D_DOUBLE, V_int64 w)),
     mk_date = (\<lambda>w. (duck_type_of D_DATE, V_int32 w)),
     mk_timestamp_sec = (\<lambda>w. (duck_type_of D_TIMESTAMP_SEC, V_int64 w)),
     mk_timestamp_ms = (\<lambda>w. (duck_type_of D_TIMESTAMP_MS, V_int64 w)),
     mk_timestamp = (\<lambda>w. (duck_type_of D_TIMESTAMP, V_int64 w)),
     mk_timestamp_ns = (\<lambda>w. (duck_type_of D_TIMESTAMP_NS, V_int64 w)),
     mk_varchar = (\<lambda>w. (duck_type_of D_VARCHAR, V_string w)),
     mk_decimal16 = (\<lambda>w p s. (duck_decimal p s, V_int16 w)),
     mk_decimal32 = (\<lambda>w p s. (duck_decimal p s, V_int32 w)),
     mk_decimal64 = (\<lambda>w p s. (duck_decimal p s, V_int64 w)),
     mk_decimal_huge = (\<lambda>w p s. (duck_decimal p s, V_decimal128 (pack_hugeint w) 0)),
     return_type = demo_type,
     add_default_cast = (\<lambda>e t. if demo_type e = t then e else Bound_cast e t False)\<rparr>"

lemmas demo_get_defs = demo_bool_def demo_int8_def demo_int16_def demo_int32_def demo_int64_def
  demo_string_def demo_hugeint_def ignore_error_def

section \<open>It satisfies the laws\<close>

lemma unpack_pack_hugeint: "unpack_hugeint (pack_hugeint h) = h"
proof -
  have "ucast (signed_drop_bit 64 (pack_hugeint h)) = fst h"
    by (rule bit_word_eqI) (auto simp: pack_hugeint_def bit_simps dest: bit_imp_le_length)
  moreover have "ucast (pack_hugeint h) = snd h"
    by (rule bit_word_eqI) (auto simp: pack_hugeint_def bit_simps)
  ultimately show ?thesis by (simp add: unpack_hugeint_def)
qed

lemma demo_value_laws: "duck_value_laws demo_api"
  unfolding duck_value_laws_def
  by (intro conjI)
     (simp_all add: demo_api_def reads_back_def decimal_reads_back_def demo_get_defs unpack_pack_hugeint)

lemma demo_cast_law: "default_cast_law demo_api"
  by (simp add: default_cast_law_def demo_api_def)

section \<open>Properties of the expression tree\<close>

text \<open>
  C16: every tree the translator returns is well-formed. No child pointer is null, no
  conjunction or unary operator has the kind \<open>invalid\<close>, every declared type is valid, and every
  constant's payload fits its type, so the branches \<open>to_duckdb\<close> calls unreachable are.
\<close>

theorem ast_from_duckdb_wf: "ast_from_duckdb api e = Inr (Some n) \<Longrightarrow> wf_node n"
  unfolding wf_node_def by (rule translated_wf)

definition demo_expr :: "demo_value duck_expr" where
  "demo_expr = Bound_conjunction CONJUNCTION_AND
     [Bound_comparison COMPARE_LESSTHAN (Bound_ref 3 (duck_type_of D_INTEGER))
        (Bound_constant (duck_type_of D_INTEGER, V_int32 7) (duck_type_of D_INTEGER)),
      Bound_operator OPERATOR_IS_NOT_NULL [Bound_ref 1 (duck_type_of D_VARCHAR)] (duck_type_of D_BOOLEAN)]"

definition demo_node :: node where
  "demo_node = Conjunction op_and
     [Some (Comparison cmp_lt (Some (Reference 3 (make_type INTEGER)))
        (Some (Constant (V_int32 7) (make_type INTEGER)))),
      Some (Unary_op op_is_not_null (Some (Reference 1 (make_type VARCHAR))))]"

lemma demo_translation: "ast_from_duckdb demo_api demo_expr = Inr (Some demo_node)"
  by (simp add: demo_expr_def demo_node_def translate_defs bind_node_def make_node_def
      type_from_duckdb_def duck_type_of_def value_from_duckdb_def demo_api_def demo_get_defs
      map_value_def comparison_from_duckdb_def make_type_def)

theorem ast_from_duckdb_wf_witness: "wf_node demo_node"
  by (rule ast_from_duckdb_wf [OF demo_translation])


lemma demo_node_plain: "all_nodes (node_plain demo_api) demo_node"
  by (simp add: demo_node_def all_nodes_children make_type_def)

lemma demo_node_wf: "wf_node demo_node"
  by (simp add: wf_node_def demo_node_def all_nodes_children type_ok_def make_type_def wf_type_def
      value_fits_def)




text \<open>A deep copy equals its source, null children included.\<close>

lemma clone_identity: "clone n = n"
  by (rule clone_same)

text \<open>
  Join conditions keep their number, order and comparison. Each condition of the result
  holds the translations of the two sides of the condition at the same position, and a comparison
  that \<open>to_duckdb\<close> maps back to the original; an expression type that is no comparison is an error.
\<close>

lemma wrap_join_conditions_ok:
  assumes "wrap_join_conditions api cs = Inr js"
  shows "length js = length cs \<and> (\<forall>i < length cs.
    ast_from_duckdb api (jc_left (cs ! i)) = Inr (cond_left (js ! i)) \<and>
    ast_from_duckdb api (jc_right (cs ! i)) = Inr (cond_right (js ! i)) \<and>
    comparison_to_duckdb (cond_comparison (js ! i)) = jc_comparison (cs ! i))"
  using assms unfolding wrap_join_conditions_def map_result_Inr_iff
  using wrap_join_condition_ok [of api] by (simp add: list_all2_conv_all_nth)

lemma wrap_join_conditions_ok_witness:
  "\<exists>js. wrap_join_conditions demo_api
      [\<lparr>jc_left = demo_expr, jc_right = demo_expr, jc_comparison = COMPARE_EQUAL\<rparr>] = Inr js \<and>
    length js = 1 \<and> comparison_to_duckdb (cond_comparison (js ! 0)) = COMPARE_EQUAL"
proof -
  let ?cs = "[\<lparr>jc_left = demo_expr, jc_right = demo_expr, jc_comparison = COMPARE_EQUAL\<rparr>]"
  have "\<exists>js. wrap_join_conditions demo_api ?cs = Inr js"
    by (simp add: wrap_join_conditions_def wrap_join_condition_def demo_translation comparison_from_duckdb_def)
  then obtain js where "wrap_join_conditions demo_api ?cs = Inr js" ..
  with wrap_join_conditions_ok [OF this] show ?thesis by auto
qed



end
