(* ===== verification/Block_Accessor.thy ===== *)
theory Block_Accessor
  imports Sirius_Prelude "HOL-Library.Word"
begin

text \<open>
  The cursor over a block-wise host allocation (\<^verbatim>\<open>src/include/memory/multiple_blocks_allocation_accessor.hpp\<close>).
  An allocation of the memory library is a block size and a list of blocks of that size; reads and
  writes go through \<open>block_write\<close> and \<open>block_read\<close> at a block index and an offset. The
  specification is flat memory: \<open>flat\<close> concatenates the blocks, \<open>position\<close> is the cursor's
  byte address, and every operation is shown to be the corresponding operation on flat memory.
  Sizes and offsets are natural numbers: they address bytes of an allocation that exists.
\<close>

section \<open>Allocations and cursors\<close>

type_synonym byte = "8 word"

record alloc =
  al_block_size :: nat
  al_blocks :: "byte list list"

record accessor =
  block_size :: nat
  num_blocks :: nat
  block_index :: nat
  offset_in_block :: nat
  initial_byte_offset :: nat

definition uninitialized_accessor :: accessor where
  "uninitialized_accessor = \<lparr>block_size = 0, num_blocks = 0, block_index = 0, offset_in_block = 0,
     initial_byte_offset = 0\<rparr>"

definition block_write :: "nat \<Rightarrow> nat \<Rightarrow> byte list \<Rightarrow> alloc \<Rightarrow> alloc" where
  "block_write i off bytes al =
     (let b = al_blocks al ! i in
      al\<lparr>al_blocks := (al_blocks al)[i := take off b @ bytes @ drop (off + length bytes) b]\<rparr>)"

definition block_read :: "nat \<Rightarrow> nat \<Rightarrow> nat \<Rightarrow> alloc \<Rightarrow> byte list" where
  "block_read i off n al = take n (drop off (al_blocks al ! i))"

section \<open>Operations\<close>

definition set_cursor :: "nat \<Rightarrow> accessor \<Rightarrow> accessor result" where
  "set_cursor byte_offset a =
     throw_if (block_size a = 0) (Undefined_behaviour ''assert(block_size != 0)'')
       (Inr (a\<lparr>block_index := byte_offset div block_size a, offset_in_block := byte_offset mod block_size a\<rparr>))"

definition acc_initialize :: "nat \<Rightarrow> nat \<Rightarrow> alloc \<Rightarrow> accessor \<Rightarrow> accessor result" where
  "acc_initialize sizeof_T byte_offset al a =
     throw_if (al_block_size al mod sizeof_T \<noteq> 0)
       (Runtime_error ''The underlying type size must be aligned with the block size.'')
       (set_cursor byte_offset (a\<lparr>block_size := al_block_size al, num_blocks := length (al_blocks al),
          initial_byte_offset := byte_offset\<rparr>))"

definition get_current_global_byte_offset :: "accessor \<Rightarrow> nat" where
  "get_current_global_byte_offset a =
     initial_byte_offset a + block_index a * block_size a + offset_in_block a"

definition reset_cursor :: "accessor \<Rightarrow> accessor result" where
  "reset_cursor a = set_cursor (initial_byte_offset a) a"

definition set_current :: "byte list \<Rightarrow> accessor \<Rightarrow> alloc \<Rightarrow> alloc result" where
  "set_current value a al =
     throw_if (\<not> block_index a < num_blocks a) (Undefined_behaviour ''assert(block_index < num_blocks)'')
       (throw_if (\<not> offset_in_block a + length value \<le> block_size a)
         (Undefined_behaviour ''assert(offset_in_block + sizeof(T) <= block_size)'')
         (Inr (block_write (block_index a) (offset_in_block a) value al)))"

definition get_current_as :: "nat \<Rightarrow> accessor \<Rightarrow> alloc \<Rightarrow> byte list result" where
  "get_current_as sizeof_S a al =
     throw_if (\<not> block_index a < num_blocks a) (Internal_exception ''D_ASSERT(block_index < num_blocks)'')
       (throw_if (\<not> offset_in_block a + sizeof_S \<le> block_size a)
         (Internal_exception ''D_ASSERT(offset_in_block + sizeof(S) <= block_size)'')
         (Inr (block_read (block_index a) (offset_in_block a) sizeof_S al)))"

definition acc_get :: "nat \<Rightarrow> nat \<Rightarrow> accessor \<Rightarrow> alloc \<Rightarrow> byte list result" where
  "acc_get sizeof_T off a al =
     (let global_offset = initial_byte_offset a + sizeof_T * off;
          temp_block_index = global_offset div al_block_size al;
          temp_offset_in_block = global_offset mod al_block_size al in
      throw_if (\<not> temp_block_index < num_blocks a) (Undefined_behaviour ''assert(temp_block_index < num_blocks)'')
        (throw_if (\<not> temp_offset_in_block + sizeof_T \<le> block_size a)
          (Undefined_behaviour ''assert(temp_offset_in_block + sizeof(T) <= block_size)'')
          (Inr (block_read temp_block_index temp_offset_in_block sizeof_T al))))"

definition advance_as :: "nat \<Rightarrow> accessor \<Rightarrow> accessor" where
  "advance_as sizeof_S a =
     (let a' = a\<lparr>offset_in_block := offset_in_block a + sizeof_S\<rparr> in
      if offset_in_block a' \<ge> block_size a'
      then a'\<lparr>block_index := block_index a' + 1, offset_in_block := 0\<rparr> else a')"

text \<open>The cursor update at the end of each iteration of the three bulk loops.\<close>

definition bulk_step :: "nat \<Rightarrow> alloc \<Rightarrow> accessor \<Rightarrow> accessor" where
  "bulk_step n al a =
     (let a' = a\<lparr>offset_in_block := offset_in_block a + n\<rparr> in
      if offset_in_block a' = al_block_size al
      then a'\<lparr>block_index := block_index a' + 1, offset_in_block := 0\<rparr> else a')"

lemma al_blocks_block_write [simp]:
  "al_block_size (block_write i off bs al) = al_block_size al"
  "length (al_blocks (block_write i off bs al)) = length (al_blocks al)"
  by (simp_all add: block_write_def Let_def)

lemma bulk_step_progress:
  "r \<noteq> 0 \<Longrightarrow> off \<le> bs \<Longrightarrow> r - min r (bs - off) < r \<or> off = bs" for r bs off :: nat
  by auto

lemma bulk_step_index:
  "block_index (bulk_step n al a) =
     (if offset_in_block a + n = al_block_size al then block_index a + 1 else block_index a)"
  by (simp add: bulk_step_def Let_def)

text \<open>
  The loops. A cursor beyond the end of its block would make the unsigned difference wrap and the
  copy leave the block; that is undefined behaviour.
\<close>

function acc_memset :: "byte \<Rightarrow> nat \<Rightarrow> accessor \<Rightarrow> alloc \<Rightarrow> (accessor \<times> alloc) result" where
  "acc_memset val bytes a al =
     (if bytes = 0 then Inr (a, al)
      else if \<not> block_index a < length (al_blocks al) then
        Inl (Undefined_behaviour ''assert(block_index < allocation->get_blocks().size())'')
      else if offset_in_block a > al_block_size al then Inl (Undefined_behaviour ''out of bounds'')
      else let n = min bytes (al_block_size al - offset_in_block a) in
        acc_memset val (bytes - n) (bulk_step n al a)
          (block_write (block_index a) (offset_in_block a) (replicate n val) al))"
  by pat_completeness auto
termination
  by (relation "measures [\<lambda>(_, n, _, _). n, \<lambda>(_, _, a, al). length (al_blocks al) - block_index a]")
     (auto simp: bulk_step_index)

function memcpy_from :: "byte list \<Rightarrow> accessor \<Rightarrow> alloc \<Rightarrow> (accessor \<times> alloc) result" where
  "memcpy_from src a al =
     (if src = [] then Inr (a, al)
      else if \<not> block_index a < length (al_blocks al) then
        Inl (Undefined_behaviour ''assert(block_index < allocation->get_blocks().size())'')
      else if offset_in_block a > al_block_size al then Inl (Undefined_behaviour ''out of bounds'')
      else let n = min (length src) (al_block_size al - offset_in_block a) in
        memcpy_from (drop n src) (bulk_step n al a)
          (block_write (block_index a) (offset_in_block a) (take n src) al))"
  by pat_completeness auto
termination
  by (relation "measures [\<lambda>(src, _, _). length src, \<lambda>(_, a, al). length (al_blocks al) - block_index a]")
     (auto simp: bulk_step_index)

function memcpy_to :: "nat \<Rightarrow> accessor \<Rightarrow> alloc \<Rightarrow> (accessor \<times> byte list) result" where
  "memcpy_to bytes a al =
     (if bytes = 0 then Inr (a, [])
      else if \<not> block_index a < length (al_blocks al) then
        Inl (Undefined_behaviour ''assert(block_index < allocation->get_blocks().size())'')
      else if offset_in_block a > al_block_size al then Inl (Undefined_behaviour ''out of bounds'')
      else let n = min bytes (al_block_size al - offset_in_block a) in
        bind_result (memcpy_to (bytes - n) (bulk_step n al a) al) (\<lambda>(a', rest).
          Inr (a', block_read (block_index a) (offset_in_block a) n al @ rest)))"
  by pat_completeness auto
termination
  by (relation "measures [\<lambda>(n, _, _). n, \<lambda>(_, a, al). length (al_blocks al) - block_index a]")
     (auto simp: bulk_step_index)

declare acc_memset.simps [simp del] memcpy_from.simps [simp del] memcpy_to.simps [simp del]

section \<open>Flat memory\<close>

definition wf_alloc :: "alloc \<Rightarrow> bool" where
  "wf_alloc al \<longleftrightarrow> al_block_size al > 0 \<and> (\<forall>b \<in> set (al_blocks al). length b = al_block_size al)"

definition flat :: "alloc \<Rightarrow> byte list" where
  "flat al = concat (al_blocks al)"

definition position :: "accessor \<Rightarrow> nat" where
  "position a = block_index a * block_size a + offset_in_block a"

text \<open>A cursor that fits an allocation: the invariant of every operation.\<close>

definition cursor_ok :: "alloc \<Rightarrow> accessor \<Rightarrow> bool" where
  "cursor_ok al a \<longleftrightarrow> block_size a = al_block_size al \<and> num_blocks a = length (al_blocks al) \<and>
     offset_in_block a < block_size a"

definition write_at :: "nat \<Rightarrow> byte list \<Rightarrow> byte list \<Rightarrow> byte list" where
  "write_at p bs m = take p m @ bs @ drop (p + length bs) m"

definition read_at :: "nat \<Rightarrow> nat \<Rightarrow> byte list \<Rightarrow> byte list" where
  "read_at p n m = take n (drop p m)"

lemma length_write_at [simp]: "p + length bs \<le> length m \<Longrightarrow> length (write_at p bs m) = length m"
  by (simp add: write_at_def)

lemma length_read_at [simp]: "p + n \<le> length m \<Longrightarrow> length (read_at p n m) = n"
  by (simp add: read_at_def)

lemma write_at_Nil [simp]: "write_at p [] m = m"
  by (simp add: write_at_def)

lemma nth_write_at:
  "p + length bs \<le> length m \<Longrightarrow> i < length m \<Longrightarrow>
     write_at p bs m ! i = (if p \<le> i \<and> i < p + length bs then bs ! (i - p) else m ! i)"
  by (auto simp: write_at_def nth_append)

lemma write_at_write_at:
  assumes "p + length (bs @ cs) \<le> length m"
  shows "write_at (p + length bs) cs (write_at p bs m) = write_at p (bs @ cs) m"
  using assms by (intro nth_equalityI) (auto simp: nth_write_at nth_append)

lemma read_at_write_at_same [simp]:
  "p + length bs \<le> length m \<Longrightarrow> n = length bs \<Longrightarrow> read_at p n (write_at p bs m) = bs"
  by (simp add: read_at_def write_at_def)

lemma nth_read_at: "p + n \<le> length m \<Longrightarrow> i < n \<Longrightarrow> read_at p n m ! i = m ! (p + i)"
  by (simp add: read_at_def)

lemma read_at_write_at_disjoint:
  assumes "q + length bs \<le> length m" and "p + n \<le> length m" and "p + n \<le> q \<or> q + length bs \<le> p"
  shows "read_at p n (write_at q bs m) = read_at p n m"
  using assms by (intro nth_equalityI) (auto simp: nth_read_at nth_write_at)

lemma read_at_split:
  "p + (k + n) \<le> length m \<Longrightarrow> read_at p (k + n) m = read_at p k m @ read_at (p + k) n m"
  by (simp add: read_at_def take_add add.commute)

section \<open>Blocks are flat memory\<close>

lemma wf_alloc_block_length: "wf_alloc al \<Longrightarrow> i < length (al_blocks al) \<Longrightarrow>
    length (al_blocks al ! i) = al_block_size al"
  by (simp add: wf_alloc_def)

lemma length_concat_same: "\<forall>b \<in> set bs. length b = n \<Longrightarrow> length (concat bs) = length bs * n"
  by (induction bs) auto

lemma length_flat: "wf_alloc al \<Longrightarrow> length (flat al) = length (al_blocks al) * al_block_size al"
  by (simp add: flat_def wf_alloc_def length_concat_same)

lemma flat_block:
  assumes "wf_alloc al" and "i < length (al_blocks al)"
  obtains pre post where "flat al = pre @ (al_blocks al ! i) @ post"
    and "length pre = i * al_block_size al"
    and "\<forall>b. concat ((al_blocks al)[i := b]) = pre @ b @ post"
proof
  show "flat al = concat (take i (al_blocks al)) @ (al_blocks al ! i) @ concat (drop (Suc i) (al_blocks al))"
    using assms(2) by (simp add: flat_def concat_split_at)
  show "length (concat (take i (al_blocks al))) = i * al_block_size al"
    using assms by (subst length_concat_same [of _ "al_block_size al"])
      (auto simp: wf_alloc_def dest: in_set_takeD)
  show "\<forall>b. concat ((al_blocks al)[i := b]) =
      concat (take i (al_blocks al)) @ b @ concat (drop (Suc i) (al_blocks al))"
    using assms(2) by (simp add: upd_conv_take_nth_drop)
qed

lemma flat_block_write:
  assumes "wf_alloc al" and "i < length (al_blocks al)" and "off + length bs \<le> al_block_size al"
  shows "flat (block_write i off bs al) = write_at (i * al_block_size al + off) bs (flat al)"
proof -
  obtain pre post where f: "flat al = pre @ (al_blocks al ! i) @ post"
    and pre: "length pre = i * al_block_size al"
    and upd: "\<forall>b. concat ((al_blocks al)[i := b]) = pre @ b @ post"
    by (rule flat_block [OF assms(1,2)])
  have "flat (block_write i off bs al) =
      pre @ (take off (al_blocks al ! i) @ bs @ drop (off + length bs) (al_blocks al ! i)) @ post"
    by (simp add: block_write_def Let_def flat_def upd)
  also have "\<dots> = write_at (length pre + off) bs (flat al)"
    using assms wf_alloc_block_length [OF assms(1,2)] by (simp add: f write_at_def add.assoc)
  finally show ?thesis by (simp add: pre)
qed

lemma wf_block_write:
  assumes "wf_alloc al" and "i < length (al_blocks al)" and "off + length bs \<le> al_block_size al"
  shows "wf_alloc (block_write i off bs al)"
proof -
  have "length (take off (al_blocks al ! i) @ bs @ drop (off + length bs) (al_blocks al ! i)) = al_block_size al"
    using assms(3) wf_alloc_block_length [OF assms(1,2)] by simp
  then show ?thesis
    using assms(1) by (auto simp: wf_alloc_def block_write_def Let_def dest!: set_update_subset_insert [THEN subsetD])
qed

lemma flat_block_read:
  assumes "wf_alloc al" and "i < length (al_blocks al)" and "off + n \<le> al_block_size al"
  shows "block_read i off n al = read_at (i * al_block_size al + off) n (flat al)"
proof -
  obtain pre post where f: "flat al = pre @ (al_blocks al ! i) @ post"
    and pre: "length pre = i * al_block_size al"
    by (rule flat_block [OF assms(1,2)])
  show ?thesis
    using assms(3) wf_alloc_block_length [OF assms(1,2)]
    by (simp add: block_read_def read_at_def f pre [symmetric])
qed

section \<open>Cursor movement\<close>

lemma set_cursor_ok:
  assumes "block_size a > 0"
  shows "\<exists>a'. set_cursor p a = Inr a' \<and> position a' = p \<and> offset_in_block a' < block_size a' \<and>
    block_size a' = block_size a \<and> num_blocks a' = num_blocks a \<and>
    initial_byte_offset a' = initial_byte_offset a"
  using assms by (simp add: set_cursor_def position_def)

lemma initialize_ok:
  assumes "wf_alloc al" and "al_block_size al mod sz = 0"
  shows "\<exists>a'. acc_initialize sz p al a = Inr a' \<and> cursor_ok al a' \<and> position a' = p \<and>
    initial_byte_offset a' = p"
  using assms by (simp add: acc_initialize_def set_cursor_def cursor_ok_def position_def wf_alloc_def)

lemma cursor_okD:
  assumes "cursor_ok al a"
  shows "block_size a = al_block_size al" "num_blocks a = length (al_blocks al)"
    "offset_in_block a < al_block_size al"
  using assms by (auto simp: cursor_ok_def)

lemma position_block:
  assumes "wf_alloc al" and "cursor_ok al a" and "position a < length (flat al)"
  shows "block_index a < length (al_blocks al)"
proof (rule ccontr)
  assume "\<not> block_index a < length (al_blocks al)"
  then have "length (al_blocks al) * al_block_size al \<le> block_index a * al_block_size al"
    by (intro mult_le_mono1) simp
  with assms show False by (simp add: length_flat position_def cursor_ok_def)
qed

lemma bulk_step_ok:
  assumes "cursor_ok al a" and "offset_in_block a + n \<le> al_block_size al" and "al_block_size al > 0"
  shows "cursor_ok al (bulk_step n al a)" and "position (bulk_step n al a) = position a + n"
    and "initial_byte_offset (bulk_step n al a) = initial_byte_offset a"
  using assms by (auto simp: bulk_step_def cursor_ok_def position_def Let_def)

lemma cursor_ok_block_write [simp]: "cursor_ok (block_write i off bs al) a = cursor_ok al a"
  by (simp add: cursor_ok_def)

lemma advance_ok:
  assumes "cursor_ok al a" and "offset_in_block a + n \<le> al_block_size al" and "al_block_size al > 0"
  shows "cursor_ok al (advance_as n a)" and "position (advance_as n a) = position a + n"
    and "initial_byte_offset (advance_as n a) = initial_byte_offset a"
  using assms by (auto simp: advance_as_def cursor_ok_def position_def Let_def)

text \<open>An element of a type whose size divides the block size never straddles two blocks.\<close>

lemma aligned_fits:
  assumes "al_block_size al mod sz = 0" and "cursor_ok al a" and "position a mod sz = 0" and "sz > 0"
  shows "offset_in_block a + sz \<le> al_block_size al"
proof -
  from assms(1) obtain k where k: "al_block_size al = k * sz" by (auto simp: mod_eq_0_iff_dvd dvd_def mult.commute)
  have "position a = (block_index a * k) * sz + offset_in_block a"
    using cursor_okD [OF assms(2)] by (simp add: position_def k)
  with assms(3) have "offset_in_block a mod sz = 0" by simp
  then obtain j where j: "offset_in_block a = j * sz" by (auto simp: mod_eq_0_iff_dvd dvd_def mult.commute)
  with cursor_okD(3) [OF assms(2)] k have "j < k" by simp
  then have "(j + 1) * sz \<le> k * sz" by (intro mult_le_mono1) simp
  with j k show ?thesis by simp
qed

lemma cursor_position_unique:
  assumes "cursor_ok al a" and "cursor_ok al b" and "position a = position b"
    and "initial_byte_offset a = initial_byte_offset b"
  shows "a = b"
proof -
  let ?s = "al_block_size al"
  have "block_index a * ?s + offset_in_block a = block_index b * ?s + offset_in_block b"
    and "offset_in_block a < ?s" "offset_in_block b < ?s"
    using assms by (simp_all add: position_def cursor_ok_def)
  then have "offset_in_block a = offset_in_block b" "block_index a = block_index b"
    by (metis mod_less mod_mult_self3, metis add_right_cancel div_less div_mult_self3 less_nat_zero_code
        plus_nat.add_0 add.commute)
  with assms show ?thesis by (simp add: cursor_ok_def)
qed

section \<open>Single elements\<close>

lemma set_current_ok:
  assumes "wf_alloc al" and "cursor_ok al a" and "position a < length (flat al)"
    and "offset_in_block a + length v \<le> al_block_size al"
  shows "\<exists>al'. set_current v a al = Inr al' \<and> wf_alloc al' \<and>
    flat al' = write_at (position a) v (flat al) \<and> (\<forall>b. cursor_ok al' b = cursor_ok al b) \<and>
    al_block_size al' = al_block_size al"
proof -
  have i: "block_index a < length (al_blocks al)" by (rule position_block [OF assms(1-3)])
  then show ?thesis
    using assms cursor_okD [OF assms(2)] flat_block_write [OF assms(1) i assms(4)]
      wf_block_write [OF assms(1) i assms(4)]
    by (simp add: set_current_def position_def)
qed

lemma get_current_ok:
  assumes "wf_alloc al" and "cursor_ok al a" and "position a < length (flat al)"
    and "offset_in_block a + n \<le> al_block_size al"
  shows "get_current_as n a al = Inr (read_at (position a) n (flat al))"
proof -
  have i: "block_index a < length (al_blocks al)" by (rule position_block [OF assms(1-3)])
  then show ?thesis
    using assms cursor_okD [OF assms(2)] flat_block_read [OF assms(1) i assms(4)]
    by (simp add: get_current_as_def position_def)
qed

lemma acc_get_ok:
  assumes "wf_alloc al" and "cursor_ok al a" and "al_block_size al mod sz = 0" and "sz > 0"
    and "initial_byte_offset a mod sz = 0" and "initial_byte_offset a + sz * k < length (flat al)"
  shows "acc_get sz k a al = Inr (read_at (initial_byte_offset a + sz * k) sz (flat al))"
proof -
  let ?p = "initial_byte_offset a + sz * k"
  let ?b = "a\<lparr>block_index := ?p div al_block_size al, offset_in_block := ?p mod al_block_size al\<rparr>"
  have b: "cursor_ok al ?b" "position ?b = ?p"
    using assms(1,2) by (simp_all add: cursor_ok_def position_def wf_alloc_def)
  have i: "?p div al_block_size al < length (al_blocks al)"
    using position_block [OF assms(1) b(1)] assms(6) b(2) by simp
  have off: "?p mod al_block_size al + sz \<le> al_block_size al"
    using aligned_fits [OF assms(3) b(1)] b(2) assms(4,5) by simp
  show ?thesis
    using i off cursor_okD [OF assms(2)] flat_block_read [OF assms(1) i off]
    by (simp add: acc_get_def Let_def)
qed

section \<open>Bulk operations\<close>

lemma memcpy_from_flat:
  assumes "wf_alloc al" and "cursor_ok al a" and "position a + length src \<le> length (flat al)"
  shows "\<exists>a' al'. memcpy_from src a al = Inr (a', al') \<and> wf_alloc al' \<and> cursor_ok al' a' \<and>
    flat al' = write_at (position a) src (flat al) \<and> position a' = position a + length src \<and>
    initial_byte_offset a' = initial_byte_offset a \<and> (\<forall>b. cursor_ok al' b = cursor_ok al b) \<and>
    al_block_size al' = al_block_size al"
  using assms
proof (induction src a al rule: memcpy_from.induct)
  case (1 src a al)
  show ?case
  proof (cases "src = []")
    case True
    with "1.prems" show ?thesis by (simp add: memcpy_from.simps)
  next
    case False
    let ?n = "min (length src) (al_block_size al - offset_in_block a)"
    let ?al = "block_write (block_index a) (offset_in_block a) (take ?n src) al"
    let ?a = "bulk_step ?n al a"
    have i: "block_index a < length (al_blocks al)"
      using position_block [OF "1.prems"(1,2)] "1.prems"(3) False by (cases src) simp_all
    have off: "offset_in_block a < al_block_size al" using cursor_okD(3) [OF "1.prems"(2)] .
    then have fits: "offset_in_block a + length (take ?n src) \<le> al_block_size al" by simp
    have n: "offset_in_block a + ?n \<le> al_block_size al" using off by simp
    have pos: "position a = block_index a * al_block_size al + offset_in_block a"
      using cursor_okD(1) [OF "1.prems"(2)] by (simp add: position_def)
    note step = bulk_step_ok [OF "1.prems"(2) n]
    have flat: "flat ?al = write_at (position a) (take ?n src) (flat al)"
      using flat_block_write [OF "1.prems"(1) i fits] pos by simp
    have "position ?a + length (drop ?n src) \<le> length (flat ?al)"
      using "1.prems"(3) step(2) off by (simp add: flat)
    then obtain a' al' where r: "memcpy_from (drop ?n src) ?a ?al = Inr (a', al')" "wf_alloc al'"
      "cursor_ok al' a'" "flat al' = write_at (position ?a) (drop ?n src) (flat ?al)"
      "position a' = position ?a + length (drop ?n src)" "initial_byte_offset a' = initial_byte_offset ?a"
      "\<forall>b. cursor_ok al' b = cursor_ok ?al b" "al_block_size al' = al_block_size ?al"
      using "1.IH" [OF False _ _ refl] i off wf_block_write [OF "1.prems"(1) i fits] step(1) by auto
    have "memcpy_from src a al = Inr (a', al')"
      using False i off r(1) by (subst memcpy_from.simps) (simp add: Let_def)
    moreover have "flat al' = write_at (position a) src (flat al)"
      using write_at_write_at [of "position a" "take ?n src" "drop ?n src" "flat al"] "1.prems"(3)
        r(4) step(2) off by (simp add: flat)
    ultimately show ?thesis using r step off by auto
  qed
qed

lemma acc_memset_memcpy_from: "acc_memset val n a al = memcpy_from (replicate n val) a al"
proof (induction val n a al rule: acc_memset.induct)
  case (1 val n a al)
  then show ?case
    by (subst acc_memset.simps, subst memcpy_from.simps)
       (simp add: Let_def min.absorb_iff2 [symmetric] min_def)
qed

lemma memcpy_to_flat:
  assumes "wf_alloc al" and "cursor_ok al a" and "position a + n \<le> length (flat al)"
  shows "\<exists>a'. memcpy_to n a al = Inr (a', read_at (position a) n (flat al)) \<and> cursor_ok al a' \<and>
    position a' = position a + n \<and> initial_byte_offset a' = initial_byte_offset a"
  using assms
proof (induction n a al rule: memcpy_to.induct)
  case (1 n a al)
  show ?case
  proof (cases "n = 0")
    case True
    with "1.prems" show ?thesis by (simp add: memcpy_to.simps read_at_def)
  next
    case False
    let ?k = "min n (al_block_size al - offset_in_block a)"
    let ?a = "bulk_step ?k al a"
    have i: "block_index a < length (al_blocks al)"
      using position_block [OF "1.prems"(1,2)] "1.prems"(3) False by simp
    have off: "offset_in_block a < al_block_size al" using cursor_okD(3) [OF "1.prems"(2)] .
    have k: "offset_in_block a + ?k \<le> al_block_size al" using off by simp
    note step = bulk_step_ok [OF "1.prems"(2) k]
    have "position ?a + (n - ?k) \<le> length (flat al)"
      using "1.prems"(3) step(2) off by simp
    then obtain a' where r: "memcpy_to (n - ?k) ?a al = Inr (a', read_at (position ?a) (n - ?k) (flat al))"
      "cursor_ok al a'" "position a' = position ?a + (n - ?k)" "initial_byte_offset a' = initial_byte_offset ?a"
      using "1.IH" [OF False _ _ refl] i off "1.prems"(1) step(1) by auto
    have "block_read (block_index a) (offset_in_block a) ?k al = read_at (position a) ?k (flat al)"
      using flat_block_read [OF "1.prems"(1) i k] cursor_okD(1) [OF "1.prems"(2)]
      by (simp add: position_def)
    moreover have "read_at (position a) n (flat al) =
        read_at (position a) ?k (flat al) @ read_at (position ?a) (n - ?k) (flat al)"
      using read_at_split [of "position a" ?k "n - ?k" "flat al"] "1.prems"(3) step(2) off by simp
    ultimately have "memcpy_to n a al = Inr (a', read_at (position a) n (flat al))"
      using False i off r(1) by (subst memcpy_to.simps) (simp add: Let_def)
    with r step off show ?thesis by auto
  qed
qed

section \<open>Stores\<close>

text \<open>\<open>wrote al p bs al'\<close>: the allocation \<open>al'\<close> is \<open>al\<close> with the bytes \<open>bs\<close> at address \<open>p\<close>.\<close>

definition wrote :: "alloc \<Rightarrow> nat \<Rightarrow> byte list \<Rightarrow> alloc \<Rightarrow> bool" where
  "wrote al p bs al' \<longleftrightarrow> wf_alloc al' \<and> flat al' = write_at p bs (flat al) \<and>
     p + length bs \<le> length (flat al) \<and> (\<forall>b. cursor_ok al' b = cursor_ok al b) \<and>
     al_block_size al' = al_block_size al"

lemma wrote_length: "wrote al p bs al' \<Longrightarrow> length (flat al') = length (flat al)"
  by (simp add: wrote_def)

lemma wrote_Nil: "wf_alloc al \<Longrightarrow> p \<le> length (flat al) \<Longrightarrow> wrote al p [] al"
  by (simp add: wrote_def)

lemma wrote_trans:
  "wrote al p bs al1 \<Longrightarrow> wrote al1 (p + length bs) cs al2 \<Longrightarrow> wrote al p (bs @ cs) al2"
  by (auto simp: wrote_def write_at_write_at add.assoc)

lemma memcpy_from_wrote:
  assumes "wf_alloc al" and "cursor_ok al a" and "position a + length src \<le> length (flat al)"
  obtains a' al' where "memcpy_from src a al = Inr (a', al')" and "wrote al (position a) src al'"
    and "cursor_ok al' a'" and "position a' = position a + length src"
    and "initial_byte_offset a' = initial_byte_offset a"
  using memcpy_from_flat [OF assms] assms(3) by (auto simp: wrote_def)

lemma set_current_wrote:
  assumes "wf_alloc al" and "cursor_ok al a" and "position a < length (flat al)"
    and "offset_in_block a + length v \<le> al_block_size al" and "position a + length v \<le> length (flat al)"
  obtains al' where "set_current v a al = Inr al'" and "wrote al (position a) v al'"
  using set_current_ok [OF assms(1-4)] assms(5) by (auto simp: wrote_def)

lemma cursor_offset_byte: "cursor_ok al a \<Longrightarrow> offset_in_block a + 1 \<le> al_block_size al"
  using cursor_okD(3) [of al a] by simp

lemma set_byte_wrote:
  assumes "wf_alloc al" and "cursor_ok al a" and "position a < length (flat al)"
  obtains al' where "set_current [v] a al = Inr al'" and "wrote al (position a) [v] al'"
  using set_current_wrote [OF assms, of "[v]"] cursor_offset_byte [OF assms(2)] assms(3) by auto

lemma advance_byte:
  assumes "wf_alloc al" and "cursor_ok al a"
  shows "cursor_ok al (advance_as 1 a)" and "position (advance_as 1 a) = position a + 1"
    and "initial_byte_offset (advance_as 1 a) = initial_byte_offset a"
  using advance_ok [OF assms(2) cursor_offset_byte [OF assms(2)]] assms(1) by (simp_all add: wf_alloc_def)

lemma wroteD:
  assumes "wrote al p bs al'"
  shows "wf_alloc al'" "flat al' = write_at p bs (flat al)" "cursor_ok al' b = cursor_ok al b"
    "al_block_size al' = al_block_size al" "p + length bs \<le> length (flat al)"
  using assms by (simp_all add: wrote_def)

section \<open>Properties\<close>

text \<open>
  C31: bulk copies across block boundaries are copies of flat memory. Copying a buffer into
  a well-formed allocation at a cursor with enough room terminates without error, changes exactly the
  bytes from the cursor's address on, leaves the cursor behind the last byte, and copying the same
  number of bytes back from the original cursor returns the buffer.
\<close>

theorem memcpy_round_trip:
  assumes "wf_alloc al" and "cursor_ok al a" and "position a + length src \<le> length (flat al)"
  shows "\<exists>a' al'. memcpy_from src a al = Inr (a', al') \<and>
    flat al' = take (position a) (flat al) @ src @ drop (position a + length src) (flat al) \<and>
    position a' = position a + length src \<and> wf_alloc al' \<and> cursor_ok al' a' \<and>
    memcpy_to (length src) a al' = Inr (a', src)"
proof -
  obtain a' al' where w: "memcpy_from src a al = Inr (a', al')" "wf_alloc al'" "cursor_ok al' a'"
    "flat al' = write_at (position a) src (flat al)" "position a' = position a + length src"
    "initial_byte_offset a' = initial_byte_offset a" "\<forall>b. cursor_ok al' b = cursor_ok al b"
    "al_block_size al' = al_block_size al"
    using memcpy_from_flat [OF assms] by auto
  have a: "cursor_ok al' a" using w(7) assms(2) by simp
  obtain a'' where r: "memcpy_to (length src) a al' = Inr (a'', read_at (position a) (length src) (flat al'))"
    "cursor_ok al' a''" "position a'' = position a + length src" "initial_byte_offset a'' = initial_byte_offset a"
    using memcpy_to_flat [OF w(2) a, of "length src"] assms(3) w(4) by auto
  have "a'' = a'" using cursor_position_unique [OF r(2) w(3)] r w by simp
  moreover have "read_at (position a) (length src) (flat al') = src" using w(4) assms(3) by simp
  ultimately show ?thesis using w r by (simp add: write_at_def)
qed

definition demo_alloc :: alloc where
  "demo_alloc = \<lparr>al_block_size = 4, al_blocks = [[0, 0, 0, 0], [0, 0, 0, 0]]\<rparr>"

definition demo_cursor :: accessor where
  "demo_cursor = \<lparr>block_size = 4, num_blocks = 2, block_index = 0, offset_in_block = 2, initial_byte_offset = 2\<rparr>"

theorem memcpy_round_trip_witness:
  "\<exists>a' al'. memcpy_from [1, 2, 3, 4] demo_cursor demo_alloc = Inr (a', al') \<and>
     flat al' = [0, 0, 1, 2, 3, 4, 0, 0] \<and> position a' = 6 \<and>
     memcpy_to 4 demo_cursor al' = Inr (a', [1, 2, 3, 4])"
proof -
  have "wf_alloc demo_alloc" "cursor_ok demo_alloc demo_cursor" "position demo_cursor = 2"
    "flat demo_alloc = [0, 0, 0, 0, 0, 0, 0, 0]"
    by (simp_all add: wf_alloc_def demo_alloc_def demo_cursor_def cursor_ok_def position_def flat_def)
  then show ?thesis
    using memcpy_round_trip [of demo_alloc demo_cursor "[1, 2, 3, 4]"] by (auto simp: numeral_eq_Suc)
qed

text \<open>
  The address the accessor reports is not its position: the initial offset is part of the cursor
  already and is added once more.
\<close>

theorem global_byte_offset_counts_initial_twice:
  "get_current_global_byte_offset a = position a + initial_byte_offset a"
  by (simp add: get_current_global_byte_offset_def position_def)

end
