(* ===== verification/Validity_Bits.thy ===== *)
theory Validity_Bits
  imports Block_Accessor
begin

unbundle bit_operations_syntax

text \<open>
  The bit arithmetic of \<^verbatim>\<open>src/include/helper/utils.hpp\<close> and the layout of validity masks: one bit per
  row, eight rows per byte, least significant bit first. \<open>pack\<close> is the specification of a mask
  buffer: the bytes that hold a list of row validities, padded with zero bits.
\<close>

section \<open>Arithmetic helpers\<close>

definition ceil_div :: "nat \<Rightarrow> nat \<Rightarrow> nat" where
  "ceil_div a b = (a + b - 1) div b"

definition ceil_div_8 :: "nat \<Rightarrow> nat" where
  "ceil_div_8 a = drop_bit 3 (a + 7)"

definition div_8 :: "nat \<Rightarrow> nat" where
  "div_8 a = drop_bit 3 a"

definition mul_8 :: "nat \<Rightarrow> nat" where
  "mul_8 a = push_bit 3 a"

definition mod_8 :: "nat \<Rightarrow> nat" where
  "mod_8 a = a AND 7"

definition make_mask :: "nat \<Rightarrow> byte" where
  "make_mask num_bits = of_nat (push_bit num_bits 1 - 1)"

section \<open>Packed bits\<close>

definition pack :: "bool list \<Rightarrow> byte list" where
  "pack bs = map (\<lambda>k. horner_sum of_bool 2 (take 8 (drop (8 * k) bs))) [0..<(length bs + 7) div 8]"

section \<open>Lemmas\<close>

lemma eighths [simp]:
  "ceil_div_8 a = (a + 7) div 8" "div_8 a = a div 8" "mul_8 a = 8 * a" "mod_8 a = a mod 8"
proof -
  have "a AND 7 = take_bit 3 a" using take_bit_eq_mask [of 3 a] by (simp add: mask_eq_exp_minus_1)
  then show "mod_8 a = a mod 8" by (simp add: mod_8_def take_bit_eq_mod)
qed (simp_all add: ceil_div_8_def div_8_def mul_8_def drop_bit_eq_div push_bit_eq_mult)

lemma ceil_div_8_is_ceil_div: "ceil_div_8 a = ceil_div a 8"
  by (simp add: ceil_div_def)

lemma make_mask_eq: "make_mask k = mask k"
proof -
  have "of_nat (2 ^ k - 1) = (2 ^ k - 1 :: byte)"
    by (subst of_nat_diff) simp_all
  then show ?thesis by (simp add: make_mask_def mask_eq_exp_minus_1)
qed

lemma bit_make_mask [simp]: "bit (make_mask k) j \<longleftrightarrow> j < 8 \<and> j < k"
  by (auto simp: make_mask_eq bit_simps)

lemma length_pack [simp]: "length (pack bs) = (length bs + 7) div 8"
  by (simp add: pack_def)

lemma bit_pack:
  assumes "k < (length bs + 7) div 8"
  shows "bit (pack bs ! k) j \<longleftrightarrow> j < 8 \<and> 8 * k + j < length bs \<and> bs ! (8 * k + j)"
  using assms by (auto simp: pack_def bit_horner_sum_bit_iff)

lemma byte_eqI: "(\<And>j. j < 8 \<Longrightarrow> bit (a :: byte) j = bit b j) \<Longrightarrow> a = b"
  by (rule bit_word_eqI) simp

lemma pack_eqI:
  assumes "length ys = (length bs + 7) div 8"
    and "\<And>k j. k < (length bs + 7) div 8 \<Longrightarrow> j < 8 \<Longrightarrow>
      bit (ys ! k) j \<longleftrightarrow> 8 * k + j < length bs \<and> bs ! (8 * k + j)"
  shows "ys = pack bs"
  using assms by (intro nth_equalityI byte_eqI) (simp_all add: bit_pack)

lemma pack_Nil [simp]: "pack [] = []"
  by (simp add: pack_def)

lemma partial_byte: "0 < s \<Longrightarrow> s < 8 \<Longrightarrow> (s + 7) div 8 = (1::nat)"
  by (rule div_nat_eqI) simp_all

lemma pack_replicate_True:
  "pack (replicate n True) =
     replicate (n div 8) 255 @ (if n mod 8 \<noteq> 0 then [make_mask (n mod 8)] else [])"
proof (rule pack_eqI [symmetric])
  define q s where "q = n div 8" and "s = n mod 8"
  have n: "n = 8 * q + s" and s8: "s < 8" by (simp_all add: q_def s_def)
  have total: "(length (replicate n True) + 7) div 8 = q + (if s \<noteq> 0 then 1 else 0)"
    using s8 partial_byte [of s] by (simp add: n add.assoc)
  show "length (replicate (n div 8) (255 :: byte) @ (if n mod 8 \<noteq> 0 then [make_mask (n mod 8)] else []))
      = (length (replicate n True) + 7) div 8"
    using total by (simp add: q_def s_def)
  fix k j :: nat
  assume k: "k < (length (replicate n True) + 7) div 8" and j: "j < 8"
  have full: "bit (255 :: byte) j" using j bit_make_mask [of 8 j] by (simp add: make_mask_def)
  show "bit ((replicate (n div 8) (255 :: byte) @ (if n mod 8 \<noteq> 0 then [make_mask (n mod 8)] else [])) ! k) j
      \<longleftrightarrow> 8 * k + j < length (replicate n True) \<and> replicate n True ! (8 * k + j)"
  proof (cases "k < q")
    case True
    then have "8 * k + j < n" using j n by linarith
    with True full show ?thesis by (simp add: nth_append q_def)
  next
    case False
    then have "k = q" "s \<noteq> 0" using k total by (auto split: if_splits)
    then show ?thesis using j n s8 by (auto simp: nth_append q_def [symmetric] s_def [symmetric])
  qed
qed

text \<open>
  Extending a packed mask from its last partial byte: the new bytes start with the bits the partial
  byte already has.
\<close>

lemma pack_extend:
  assumes len: "length outs = (length bits mod 8 + length new + 7) div 8"
    and bits: "\<And>k j. k < length outs \<Longrightarrow> j < 8 \<Longrightarrow> bit (outs ! k) j \<longleftrightarrow>
      (if 8 * k + j < length bits mod 8 then bits ! (8 * (length bits div 8) + j)
       else 8 * k + j - length bits mod 8 < length new \<and> new ! (8 * k + j - length bits mod 8))"
  shows "take (length bits div 8) (pack bits) @ outs = pack (bits @ new)"
proof (rule pack_eqI)
  define q s where "q = length bits div 8" and "s = length bits mod 8"
  have n: "length bits = 8 * q + s" and s8: "s < 8" by (simp_all add: q_def s_def)
  have eighth: "(8 * q + x) div 8 = q + x div 8" for x :: nat by simp
  have total: "(length (bits @ new) + 7) div 8 = q + length outs"
    using eighth [of "s + length new + 7"] len s8 by (simp add: n add.assoc)
  have take: "length (take q (pack bits)) = q"
    using eighth [of "s + 7"] by (simp add: n add.assoc min_def)
  show "length (take (length bits div 8) (pack bits) @ outs) = (length (bits @ new) + 7) div 8"
    using take total by (simp add: q_def [symmetric] del: length_take)
  fix k j :: nat
  assume k: "k < (length (bits @ new) + 7) div 8" and j: "j < 8"
  show "bit ((take (length bits div 8) (pack bits) @ outs) ! k) j \<longleftrightarrow>
      8 * k + j < length (bits @ new) \<and> (bits @ new) ! (8 * k + j)"
  proof (cases "k < q")
    case True
    then have "8 * k + j < length bits" using j n by linarith
    moreover have "k < (length bits + 7) div 8" using True eighth [of "s + 7"] by (simp add: n add.assoc)
    ultimately show ?thesis
      using True j take by (simp add: nth_append bit_pack q_def [symmetric] del: length_take)
  next
    case False
    define d where "d = k - q"
    have kd: "k = q + d" using False by (simp add: d_def)
    have d: "d < length outs" using k total by (simp add: kd)
    have at: "(take q (pack bits) @ outs) ! k = outs ! d"
      using take by (simp add: nth_append kd del: length_take)
    have "8 * k + j < length bits \<longleftrightarrow> 8 * d + j < s" "8 * k + j - length bits = 8 * d + j - s"
      "8 * d + j < s \<Longrightarrow> d = 0" "8 * k + j < length bits + length new \<longleftrightarrow> 8 * d + j < s + length new"
      using n s8 by (simp_all add: kd)
    then show ?thesis
      using bits [OF d j] at by (auto simp: nth_append q_def [symmetric] s_def [symmetric] kd)
  qed
qed

lemma pack_append_aligned:
  assumes "length xs mod 8 = 0"
  shows "pack (xs @ ys) = pack xs @ pack ys"
proof -
  have "take (length xs div 8) (pack xs) @ pack ys = pack (xs @ ys)"
    using assms by (intro pack_extend) (auto simp: bit_pack)
  moreover have "length (pack xs) = length xs div 8" using assms by (auto elim!: dvdE simp: mod_eq_0_iff_dvd)
  ultimately show ?thesis by simp
qed

end
