(* ===== verification/Cudf_Types.thy ===== *)
theory Cudf_Types
  imports Logical_Types
begin

text \<open>
  The map from Sirius types to cuDF column types (\<^verbatim>\<open>src/include/cudf/cudf_utils.hpp\<close>) and the map from
  a stored cuDF type back to a DuckDB type of the same storage size
  (\<^verbatim>\<open>src/op/result/host_table_chunk_reader.cpp\<close>).
\<close>

section \<open>Types\<close>

datatype cudf_id =
    CUDF_EMPTY | CUDF_INT8 | CUDF_INT16 | CUDF_INT32 | CUDF_INT64 | CUDF_UINT8 | CUDF_UINT16
  | CUDF_UINT32 | CUDF_UINT64 | CUDF_FLOAT32 | CUDF_FLOAT64 | CUDF_BOOL8 | CUDF_TIMESTAMP_DAYS
  | CUDF_TIMESTAMP_SECONDS | CUDF_TIMESTAMP_MILLISECONDS | CUDF_TIMESTAMP_MICROSECONDS
  | CUDF_TIMESTAMP_NANOSECONDS | CUDF_STRING | CUDF_STRUCT | CUDF_DECIMAL32 | CUDF_DECIMAL64
  | CUDF_DECIMAL128 | CUDF_OTHER nat

record cudf_type =
  cudf_type_id :: cudf_id
  cudf_scale :: int

definition cudf_plain :: "cudf_id \<Rightarrow> cudf_type" where
  "cudf_plain i = \<lparr>cudf_type_id = i, cudf_scale = 0\<rparr>"

definition is_cudf_type_decimal :: "cudf_type \<Rightarrow> bool" where
  "is_cudf_type_decimal t = (cudf_type_id t = CUDF_DECIMAL32 \<or> cudf_type_id t = CUDF_DECIMAL64 \<or>
     cudf_type_id t = CUDF_DECIMAL128)"

definition get_cudf_decimal_type_size :: "cudf_type \<Rightarrow> nat result" where
  "get_cudf_decimal_type_size t =
     (if cudf_type_id t = CUDF_DECIMAL32 then Inr 4
      else if cudf_type_id t = CUDF_DECIMAL64 then Inr 8
      else if cudf_type_id t = CUDF_DECIMAL128 then Inr 16
      else Inl (Internal_exception ''Non decimal cudf type called in GetCudfDecimalTypeSize''))"

definition get_cudf_type :: "logical_type \<Rightarrow> cudf_type result" where
  "get_cudf_type t = (case lt_id t of
       TINYINT \<Rightarrow> Inr (cudf_plain CUDF_INT8) | SMALLINT \<Rightarrow> Inr (cudf_plain CUDF_INT16)
     | INTEGER \<Rightarrow> Inr (cudf_plain CUDF_INT32) | BIGINT \<Rightarrow> Inr (cudf_plain CUDF_INT64)
     | HUGEINT \<Rightarrow> Inr (cudf_plain CUDF_INT64)
     | UTINYINT \<Rightarrow> Inr (cudf_plain CUDF_UINT8) | USMALLINT \<Rightarrow> Inr (cudf_plain CUDF_UINT16)
     | UINTEGER \<Rightarrow> Inr (cudf_plain CUDF_UINT32) | UBIGINT \<Rightarrow> Inr (cudf_plain CUDF_UINT64)
     | UHUGEINT \<Rightarrow> Inr (cudf_plain CUDF_UINT64)
     | FLOAT \<Rightarrow> Inr (cudf_plain CUDF_FLOAT32) | DOUBLE \<Rightarrow> Inr (cudf_plain CUDF_FLOAT64)
     | BOOLEAN \<Rightarrow> Inr (cudf_plain CUDF_BOOL8) | DATE \<Rightarrow> Inr (cudf_plain CUDF_TIMESTAMP_DAYS)
     | TIMESTAMP_SEC \<Rightarrow> Inr (cudf_plain CUDF_TIMESTAMP_SECONDS)
     | TIMESTAMP_MS \<Rightarrow> Inr (cudf_plain CUDF_TIMESTAMP_MILLISECONDS)
     | TIMESTAMP \<Rightarrow> Inr (cudf_plain CUDF_TIMESTAMP_MICROSECONDS)
     | TIMESTAMP_NS \<Rightarrow> Inr (cudf_plain CUDF_TIMESTAMP_NANOSECONDS)
     | VARCHAR \<Rightarrow> Inr (cudf_plain CUDF_STRING) | STRUCT \<Rightarrow> Inr (cudf_plain CUDF_STRUCT)
     | DECIMAL \<Rightarrow>
         (if lt_precision t \<le> decimal_max_precision_int16 then
            Inl (Invalid_input_exception ''DECIMAL stored as INT16 has no direct cuDF equivalent'')
          else if lt_precision t \<le> decimal_max_precision_int32 then
            Inr \<lparr>cudf_type_id = CUDF_DECIMAL32, cudf_scale = - uint (lt_scale t)\<rparr>
          else if lt_precision t \<le> decimal_max_precision_int64 then
            Inr \<lparr>cudf_type_id = CUDF_DECIMAL64, cudf_scale = - uint (lt_scale t)\<rparr>
          else Inr \<lparr>cudf_type_id = CUDF_DECIMAL128, cudf_scale = - uint (lt_scale t)\<rparr>)
     | _ \<Rightarrow> Inl (Invalid_input_exception ''sirius::get_cudf_type: Type cannot be mapped to cuDF''))"

text \<open>\<open>Decimal::MAX_WIDTH_INT32\<close> and its siblings are the precisions 9, 18 and 38.\<close>

definition cudf_type_to_duckdb :: "cudf_type \<Rightarrow> duck_type" where
  "cudf_type_to_duckdb t = (case cudf_type_id t of
       CUDF_INT8 \<Rightarrow> duck_type_of D_TINYINT | CUDF_INT16 \<Rightarrow> duck_type_of D_SMALLINT
     | CUDF_INT32 \<Rightarrow> duck_type_of D_INTEGER | CUDF_INT64 \<Rightarrow> duck_type_of D_BIGINT
     | CUDF_UINT8 \<Rightarrow> duck_type_of D_UTINYINT | CUDF_UINT16 \<Rightarrow> duck_type_of D_USMALLINT
     | CUDF_UINT32 \<Rightarrow> duck_type_of D_UINTEGER | CUDF_UINT64 \<Rightarrow> duck_type_of D_UBIGINT
     | CUDF_FLOAT32 \<Rightarrow> duck_type_of D_FLOAT | CUDF_FLOAT64 \<Rightarrow> duck_type_of D_DOUBLE
     | CUDF_DECIMAL32 \<Rightarrow> duck_decimal decimal_max_precision_int32 (word_of_int (- cudf_scale t))
     | CUDF_DECIMAL64 \<Rightarrow> duck_decimal decimal_max_precision_int64 (word_of_int (- cudf_scale t))
     | CUDF_DECIMAL128 \<Rightarrow> duck_decimal decimal_max_precision_int128 (word_of_int (- cudf_scale t))
     | _ \<Rightarrow> duck_type_of D_SQLNULL)"

section \<open>Properties\<close>

text \<open>
  C39: the stored type of a numeric column reads back as a type of the same width and scale.
  For every type with a cuDF type, if the reader's map recognises the stored type at all, then the
  Sirius type of the result has the byte size of the column, and a DECIMAL keeps its scale and has
  a precision of at least the declared one.
\<close>

theorem cudf_type_keeps_width:
  assumes "get_cudf_type t = Inr c" and "dt_id (cudf_type_to_duckdb c) \<noteq> D_SQLNULL"
    and "lt_precision t \<le> decimal_max_precision_int128"
  shows "\<exists>t'. type_from_duckdb (cudf_type_to_duckdb c) = Inr t' \<and>
    fixed_width_byte_size t' = fixed_width_byte_size t \<and>
    (is_decimal t \<longrightarrow> is_decimal t' \<and> lt_scale t' = lt_scale t \<and> lt_precision t \<le> lt_precision t' \<and>
       get_cudf_decimal_type_size c = fixed_width_byte_size t)"
proof (cases "is_decimal t")
  case True
  with assms show ?thesis
    by (auto simp: get_cudf_type_def is_decimal_def cudf_type_to_duckdb_def duck_decimal_def
        type_from_duckdb_def make_decimal_def fixed_width_byte_size_def decimal_max_defs
        get_cudf_decimal_type_size_def split: if_splits)
next
  case False
  with assms show ?thesis
    by (cases "lt_id t")
       (auto simp: get_cudf_type_def is_decimal_def cudf_type_to_duckdb_def duck_type_of_def cudf_plain_def
        type_from_duckdb_def make_type_def fixed_width_byte_size_def)
qed

theorem cudf_type_keeps_width_witness:
  "\<exists>t'. type_from_duckdb (cudf_type_to_duckdb \<lparr>cudf_type_id = CUDF_DECIMAL64, cudf_scale = - 3\<rparr>) = Inr t' \<and>
    fixed_width_byte_size t' = Inr 8 \<and> lt_scale t' = 3 \<and> 12 \<le> lt_precision t'"
proof -
  let ?t = "make_decimal 12 3" and ?c = "\<lparr>cudf_type_id = CUDF_DECIMAL64, cudf_scale = - 3\<rparr>"
  have "get_cudf_type ?t = Inr ?c" "dt_id (cudf_type_to_duckdb ?c) \<noteq> D_SQLNULL"
    "lt_precision ?t \<le> decimal_max_precision_int128"
    by (simp_all add: get_cudf_type_def make_decimal_def decimal_max_defs cudf_type_to_duckdb_def
        duck_decimal_def)
  from cudf_type_keeps_width [OF this]
  obtain t' where "type_from_duckdb (cudf_type_to_duckdb ?c) = Inr t'"
    "fixed_width_byte_size t' = fixed_width_byte_size ?t" "lt_scale t' = lt_scale ?t"
    "lt_precision ?t \<le> lt_precision t'"
    by (auto simp: is_decimal_def make_decimal_def)
  moreover have "fixed_width_byte_size ?t = Inr 8" "lt_scale ?t = 3" "lt_precision ?t = 12"
    by (simp_all add: fixed_width_byte_size_def make_decimal_def decimal_max_defs)
  ultimately show ?thesis by auto
qed

end
