(* ===== verification/Column_Builder.thy ===== *)
theory Column_Builder
  imports Validity_Bits Cudf_Types
begin

unbundle bit_operations_syntax

text \<open>
  The column builder of the DuckDB scan task (\<^verbatim>\<open>src/op/scan/duckdb_scan_task.cpp\<close>): it appends the
  vectors of one column, chunk by chunk, to three regions of a block allocation: data, validity mask
  and, for VARCHAR, 32-bit offsets. A flattened DuckDB vector is its data bytes or its strings; a
  DuckDB validity mask is a parameter with the laws \<open>vm_ok\<close> (its words hold one bit per row, a null
  data pointer means that all rows are valid).
\<close>

section \<open>Vectors and builders\<close>

record validity_mask =
  vm_data :: "byte list option"
  vm_row_is_valid :: "nat \<Rightarrow> bool"
  vm_count_valid :: "nat \<Rightarrow> nat"

record vector =
  vec_data :: "byte list"
  vec_strings :: "byte list list"

record column_builder =
  cb_type :: logical_type
  type_size :: nat
  total_data_bytes :: nat
  total_data_bytes_allocated :: nat
  null_count :: nat
  data_blocks_accessor :: accessor
  mask_blocks_accessor :: accessor
  offset_blocks_accessor :: accessor

definition FULL_MASK :: byte where "FULL_MASK = 255"

definition make_column_builder :: "logical_type \<Rightarrow> nat \<Rightarrow> column_builder result" where
  "make_column_builder t default_varchar_size =
     bind_result (if is_varchar t then Inr default_varchar_size else fixed_width_byte_size t) (\<lambda>sz.
       Inr \<lparr>cb_type = t, type_size = sz, total_data_bytes = 0, total_data_bytes_allocated = 0,
         null_count = 0, data_blocks_accessor = uninitialized_accessor,
         mask_blocks_accessor = uninitialized_accessor, offset_blocks_accessor = uninitialized_accessor\<rparr>)"

text \<open>A 32-bit offset is stored with its least significant byte first.\<close>

definition int32_bytes :: "32 word \<Rightarrow> byte list" where
  "int32_bytes w = map (\<lambda>i. ucast (drop_bit (8 * i) w)) [0..<4]"

definition bytes_int32 :: "byte list \<Rightarrow> 32 word" where
  "bytes_int32 bs = foldr (\<lambda>b w. ucast b OR push_bit 8 w) bs 0"

definition initialize_accessors ::
  "nat \<Rightarrow> nat \<Rightarrow> column_builder \<Rightarrow> alloc \<Rightarrow> (column_builder \<times> alloc) result" where
  "initialize_accessors estimated_num_rows byte_offset cb al =
     throw_if (al_blocks al = []) (Undefined_behaviour ''assert(!allocation->get_blocks().empty())'')
     (if is_varchar (cb_type cb) then
        bind_result (acc_initialize 4 byte_offset al (offset_blocks_accessor cb)) (\<lambda>oa.
        bind_result (set_current (int32_bytes 0) oa al) (\<lambda>al'.
          let allocated = estimated_num_rows * type_size cb;
              data_byte_offset = byte_offset + (estimated_num_rows + 1) * 4 in
          bind_result (acc_initialize 1 data_byte_offset al' (data_blocks_accessor cb)) (\<lambda>da.
          bind_result (acc_initialize 1 (data_byte_offset + allocated) al' (mask_blocks_accessor cb)) (\<lambda>ma.
            Inr (cb\<lparr>offset_blocks_accessor := oa, total_data_bytes_allocated := allocated,
              data_blocks_accessor := da, mask_blocks_accessor := ma\<rparr>, al')))))
      else
        bind_result (acc_initialize 1 byte_offset al (data_blocks_accessor cb)) (\<lambda>da.
        bind_result (acc_initialize 1 (byte_offset + estimated_num_rows * type_size cb) al
            (mask_blocks_accessor cb)) (\<lambda>ma.
          Inr (cb\<lparr>data_blocks_accessor := da, mask_blocks_accessor := ma\<rparr>, al))))"

section \<open>Space check\<close>

definition varchar_bytes :: "vector \<Rightarrow> validity_mask \<Rightarrow> nat \<Rightarrow> nat" where
  "varchar_bytes vec validity num_rows =
     sum_list (map (\<lambda>row. if vm_row_is_valid validity row then length (vec_strings vec ! row) else 0)
       [0..<num_rows])"

definition sufficient_space_for_column :: "vector \<Rightarrow> validity_mask \<Rightarrow> nat \<Rightarrow> column_builder \<Rightarrow> bool" where
  "sufficient_space_for_column vec validity num_rows cb =
     (let data_bytes = (if is_varchar (cb_type cb) then varchar_bytes vec validity num_rows
        else type_size cb * num_rows) in
      data_bytes + total_data_bytes cb \<le> total_data_bytes_allocated cb)"

section \<open>Validity mask\<close>

definition get_byte :: "accessor \<Rightarrow> alloc \<Rightarrow> byte result" where
  "get_byte a al = bind_result (get_current_as 1 a al) (\<lambda>bs. Inr (bs ! 0))"

text \<open>The branch for a null data pointer: all rows are valid.\<close>

definition mask_all_valid :: "nat \<Rightarrow> nat \<Rightarrow> accessor \<Rightarrow> alloc \<Rightarrow> (accessor \<times> alloc) result" where
  "mask_all_valid cur_bit num_bits a al =
     bind_result
       (if cur_bit \<noteq> 0 then
          let bits_in_current_byte = min (8 - cur_bit) (num_bits mod 2 ^ 32);
              remaining_bits = num_bits - bits_in_current_byte;
              current_byte_mask = push_bit cur_bit (make_mask bits_in_current_byte) in
          bind_result (get_byte a al) (\<lambda>current_byte.
          bind_result (set_current [current_byte OR current_byte_mask] a al) (\<lambda>al.
            Inr (if bits_in_current_byte + cur_bit = 8 then advance_as 1 a else a, al,
              div_8 remaining_bits, mod_8 remaining_bits)))
        else Inr (a, al, div_8 num_bits, mod_8 num_bits))
       (\<lambda>(a, al, full_bytes, tail_bits).
     bind_result (if full_bytes \<noteq> 0 then acc_memset FULL_MASK full_bytes a al else Inr (a, al)) (\<lambda>(a, al).
       if tail_bits \<noteq> 0
       then bind_result (set_current [make_mask tail_bits] a al) (\<lambda>al. Inr (a, al))
       else Inr (a, al)))"

definition mask_aligned :: "byte list \<Rightarrow> nat \<Rightarrow> accessor \<Rightarrow> alloc \<Rightarrow> (accessor \<times> alloc) result" where
  "mask_aligned src_valid num_bits a al =
     (let full_bytes = div_8 num_bits; tail_bits = mod_8 num_bits in
      bind_result (memcpy_from (take full_bytes src_valid) a al) (\<lambda>(a, al).
        if tail_bits > 0
        then bind_result (set_current [src_valid ! full_bytes AND make_mask tail_bits] a al) (\<lambda>al. Inr (a, al))
        else Inr (a, al)))"

text \<open>The part of a source byte that goes to the current mask byte, and the part that goes to the next.\<close>

definition lower_bits :: "nat \<Rightarrow> byte \<Rightarrow> byte" where
  "lower_bits cur_shift src_byte = push_bit cur_shift (src_byte AND make_mask (8 - cur_shift))"

definition upper_bits :: "nat \<Rightarrow> byte \<Rightarrow> byte" where
  "upper_bits cur_shift src_byte = drop_bit (8 - cur_shift) src_byte AND make_mask cur_shift"

fun mask_shift_loop :: "nat \<Rightarrow> byte list \<Rightarrow> byte \<Rightarrow> accessor \<Rightarrow> alloc \<Rightarrow> (byte \<times> accessor \<times> alloc) result" where
  "mask_shift_loop cur_shift [] current_byte a al = Inr (current_byte, a, al)"
| "mask_shift_loop cur_shift (src_byte # src) current_byte a al =
     bind_result (set_current [current_byte OR lower_bits cur_shift src_byte] a al) (\<lambda>al.
       mask_shift_loop cur_shift src (upper_bits cur_shift src_byte) (advance_as 1 a) al)"

definition mask_unaligned :: "nat \<Rightarrow> byte list \<Rightarrow> nat \<Rightarrow> accessor \<Rightarrow> alloc \<Rightarrow> (accessor \<times> alloc) result" where
  "mask_unaligned cur_shift src_valid num_bits a al =
     (let full_bytes = div_8 num_bits; tail_bits = mod_8 num_bits; next_shift = 8 - cur_shift in
      bind_result (get_byte a al) (\<lambda>current_byte.
      bind_result (mask_shift_loop cur_shift (take full_bytes src_valid) current_byte a al)
        (\<lambda>(current_byte, a, al).
        if tail_bits \<noteq> 0 then
          let src_byte = src_valid ! full_bytes AND make_mask tail_bits in
          bind_result (set_current [current_byte OR lower_bits cur_shift src_byte] a al) (\<lambda>al.
            if tail_bits \<ge> next_shift then
              let a = advance_as 1 a in
              bind_result (set_current [upper_bits cur_shift src_byte] a al) (\<lambda>al. Inr (a, al))
            else Inr (a, al))
        else Inr (a, al))))"

definition process_mask_for_column ::
  "validity_mask \<Rightarrow> nat \<Rightarrow> nat \<Rightarrow> column_builder \<Rightarrow> alloc \<Rightarrow> (column_builder \<times> alloc) result" where
  "process_mask_for_column validity num_rows row_offset cb al =
     (let cur_bit = mod_8 row_offset; a = mask_blocks_accessor cb in
      case vm_data validity of
        None \<Rightarrow> bind_result (mask_all_valid cur_bit num_rows a al) (\<lambda>(a, al).
          Inr (cb\<lparr>mask_blocks_accessor := a\<rparr>, al))
      | Some src_valid \<Rightarrow>
          let cb = cb\<lparr>null_count := null_count cb + (num_rows - vm_count_valid validity num_rows)\<rparr> in
          bind_result (if cur_bit = 0 then mask_aligned src_valid num_rows a al
            else mask_unaligned cur_bit src_valid num_rows a al) (\<lambda>(a, al).
          Inr (cb\<lparr>mask_blocks_accessor := a\<rparr>, al)))"

section \<open>Data\<close>

text \<open>One row of a VARCHAR column: the next offset, and the string's bytes if the row is valid.\<close>

fun varchar_rows ::
  "vector \<Rightarrow> validity_mask \<Rightarrow> nat list \<Rightarrow> nat \<Rightarrow> accessor \<Rightarrow> accessor \<Rightarrow> alloc \<Rightarrow>
   (nat \<times> accessor \<times> accessor \<times> alloc) result" where
  "varchar_rows vec validity [] data_bytes oa da al = Inr (data_bytes, oa, da, al)"
| "varchar_rows vec validity (row # rows) data_bytes oa da al =
     bind_result (get_current_as 4 oa al) (\<lambda>bs.
       let prev_offset = bytes_int32 bs; oa = advance_as 4 oa in
       if vm_row_is_valid validity row then
         let str = vec_strings vec ! row; len = length str in
         bind_result (set_current (int32_bytes (prev_offset + of_nat len)) oa al) (\<lambda>al.
         bind_result (memcpy_from str da al) (\<lambda>(da, al).
           varchar_rows vec validity rows (data_bytes + len) oa da al))
       else
         bind_result (set_current (int32_bytes prev_offset) oa al) (\<lambda>al.
           varchar_rows vec validity rows data_bytes oa da al))"

definition process_column ::
  "vector \<Rightarrow> validity_mask \<Rightarrow> nat \<Rightarrow> nat \<Rightarrow> column_builder \<Rightarrow> alloc \<Rightarrow> (column_builder \<times> alloc) result" where
  "process_column vec validity num_rows row_offset cb al =
     bind_result
       (if is_varchar (cb_type cb) then
          bind_result (varchar_rows vec validity [0..<num_rows] 0 (offset_blocks_accessor cb)
              (data_blocks_accessor cb) al) (\<lambda>(data_bytes, oa, da, al).
            Inr (cb\<lparr>offset_blocks_accessor := oa, data_blocks_accessor := da,
              total_data_bytes := total_data_bytes cb + data_bytes\<rparr>, al))
        else
          let data_bytes = type_size cb * num_rows in
          bind_result (memcpy_from (take data_bytes (vec_data vec)) (data_blocks_accessor cb) al) (\<lambda>(da, al).
            Inr (cb\<lparr>data_blocks_accessor := da, total_data_bytes := total_data_bytes cb + data_bytes\<rparr>, al)))
       (\<lambda>(cb, al). process_mask_for_column validity num_rows row_offset cb al)"

section \<open>Column metadata\<close>

datatype column_metadata = Column_metadata
  (md_type_id: cudf_id) (md_num_rows: nat) (md_null_count: nat) (md_scale: int)
  (md_has_null_mask: bool) (md_null_mask_offset: nat) (md_null_mask_size: nat)
  (md_has_data: bool) (md_data_offset: nat) (md_data_size: nat) (md_children: "column_metadata list")

text \<open>\<open>bitmask_bytes\<close> is \<open>cudf::bitmask_allocation_size_bytes\<close>.\<close>

definition make_column_metadata :: "(nat \<Rightarrow> nat) \<Rightarrow> nat \<Rightarrow> column_builder \<Rightarrow> column_metadata result" where
  "make_column_metadata bitmask_bytes num_rows cb =
     (if is_varchar (cb_type cb) then
        Inr (Column_metadata CUDF_STRING num_rows (null_count cb) 0 (null_count cb > 0)
          (initial_byte_offset (mask_blocks_accessor cb))
          (if null_count cb > 0 then bitmask_bytes num_rows else 0) True
          (initial_byte_offset (data_blocks_accessor cb)) (total_data_bytes cb)
          [Column_metadata CUDF_INT32 (num_rows + 1) 0 0 False 0 0 True
             (initial_byte_offset (offset_blocks_accessor cb)) ((num_rows + 1) * 4) []])
      else
        bind_result (get_cudf_type (cb_type cb)) (\<lambda>ct.
          Inr (Column_metadata (cudf_type_id ct) num_rows (null_count cb) (cudf_scale ct) (null_count cb > 0)
            (initial_byte_offset (mask_blocks_accessor cb))
            (if null_count cb > 0 then bitmask_bytes num_rows else 0) True
            (initial_byte_offset (data_blocks_accessor cb)) (type_size cb * num_rows) [])))"

end
