(* ===== verification/Column_Masks.thy ===== *)
theory Column_Masks
  imports Column_Builder
begin

unbundle bit_operations_syntax

text \<open>
  Correctness of the validity masks the column builder writes. The abstraction of a mask region is
  the list of row validities it holds (\<open>mask_holds\<close>): the region's bytes are that list packed, and
  the cursor stands on the byte of the next row.
\<close>

section \<open>The invariant\<close>

definition mask_holds :: "alloc \<Rightarrow> accessor \<Rightarrow> bool list \<Rightarrow> bool" where
  "mask_holds al a bits \<longleftrightarrow> cursor_ok al a \<and> position a = initial_byte_offset a + length bits div 8 \<and>
     initial_byte_offset a + (length bits + 7) div 8 \<le> length (flat al) \<and>
     read_at (initial_byte_offset a) ((length bits + 7) div 8) (flat al) = pack bits"

definition vm_ok :: "nat \<Rightarrow> validity_mask \<Rightarrow> bool" where
  "vm_ok n v \<longleftrightarrow>
     (case vm_data v of
        None \<Rightarrow> \<forall>i < n. vm_row_is_valid v i
      | Some bs \<Rightarrow> (n + 7) div 8 \<le> length bs \<and>
          (\<forall>i < n. vm_row_is_valid v i \<longleftrightarrow> bit (bs ! (i div 8)) (i mod 8))) \<and>
     vm_count_valid v n = length (filter (vm_row_is_valid v) [0..<n])"

definition row_bits :: "validity_mask \<Rightarrow> nat \<Rightarrow> bool list" where
  "row_bits v n = map (vm_row_is_valid v) [0..<n]"

lemma length_row_bits [simp]: "length (row_bits v n) = n"
  by (simp add: row_bits_def)

lemma nth_row_bits [simp]: "i < n \<Longrightarrow> row_bits v n ! i = vm_row_is_valid v i"
  by (simp add: row_bits_def)

section \<open>Extending a mask region\<close>

text \<open>
  What a branch of the code has to write, starting at the current byte: \<open>extends bits new outs\<close>
  says that the first bytes of \<open>outs\<close> hold the bits the current byte had and the new ones.
\<close>

definition extends :: "bool list \<Rightarrow> bool list \<Rightarrow> byte list \<Rightarrow> bool" where
  "extends bits new outs \<longleftrightarrow> (length bits mod 8 + length new + 7) div 8 \<le> length outs \<and>
     (\<forall>k j. k < (length bits mod 8 + length new + 7) div 8 \<longrightarrow> j < 8 \<longrightarrow> bit (outs ! k) j =
       (if 8 * k + j < length bits mod 8 then bits ! (8 * (length bits div 8) + j)
        else 8 * k + j - length bits mod 8 < length new \<and> new ! (8 * k + j - length bits mod 8)))"

lemma extends_pack:
  assumes "extends bits new outs"
  shows "take (length bits div 8) (pack bits) @ take ((length bits mod 8 + length new + 7) div 8) outs =
    pack (bits @ new)"
proof (rule pack_extend)
  let ?n = "(length bits mod 8 + length new + 7) div 8"
  have n: "?n \<le> length outs" using assms by (simp add: extends_def)
  then show "length (take ?n outs) = ?n" by simp
  fix k j :: nat
  assume "k < length (take ?n outs)" and "j < 8"
  with assms show "bit (take ?n outs ! k) j \<longleftrightarrow>
      (if 8 * k + j < length bits mod 8 then bits ! (8 * (length bits div 8) + j)
       else 8 * k + j - length bits mod 8 < length new \<and> new ! (8 * k + j - length bits mod 8))"
    by (simp add: extends_def)
qed

lemma eighth_split: "(x + y + 7) div 8 = x div 8 + (x mod 8 + y + 7) div (8::nat)"
proof -
  have "x + y + 7 = 8 * (x div 8) + (x mod 8 + y + 7)" by simp
  then show ?thesis by (metis div_mult_self4 zero_neq_numeral add.commute)
qed

lemma carry_split: "(s + n) div 8 = n div 8 + (s + n mod 8) div (8::nat)"
proof -
  have "s + n = (s + n mod 8) + 8 * (n div 8)" by simp
  then show ?thesis by (metis div_mult_self2 zero_neq_numeral add.commute)
qed

lemma read_at_extend:
  assumes "q + length outs \<le> length m" and "n \<le> length outs" and "p \<le> q"
  shows "read_at p (q - p + n) (write_at q outs m) = read_at p (q - p) m @ take n outs"
  using assms by (simp add: read_at_def write_at_def drop_take)

lemma mask_holds_extend:
  assumes holds: "mask_holds al a bits" and w: "wrote al (position a) outs al'"
    and ext: "extends bits new outs" and a': "cursor_ok al a'"
    "position a' = initial_byte_offset a + (length bits + length new) div 8"
    "initial_byte_offset a' = initial_byte_offset a"
  shows "mask_holds al' a' (bits @ new)"
proof -
  let ?p = "initial_byte_offset a" and ?n = "(length bits mod 8 + length new + 7) div 8"
  have pos: "position a = ?p + length bits div 8" using holds by (simp add: mask_holds_def)
  have n: "?n \<le> length outs" using ext by (simp add: extends_def)
  have le: "length bits div 8 \<le> (length bits + 7) div 8" by (intro div_le_mono) simp
  have "read_at ?p (length bits div 8) (flat al) = take (length bits div 8) (pack bits)"
    using holds le by (auto simp: mask_holds_def read_at_def min_def dest: arg_cong [of _ _ "take (length bits div 8)"])
  moreover have "read_at ?p (length bits div 8 + ?n) (flat al') = read_at ?p (length bits div 8) (flat al) @ take ?n outs"
    using read_at_extend [of "position a" outs "flat al" ?n ?p] wroteD [OF w] n pos by simp
  ultimately have "read_at ?p ((length (bits @ new) + 7) div 8) (flat al') = pack (bits @ new)"
    using extends_pack [OF ext] eighth_split [of "length bits" "length new"] by simp
  moreover have "?p + (length (bits @ new) + 7) div 8 \<le> length (flat al')"
    using wroteD(5) [OF w] wrote_length [OF w] pos n eighth_split [of "length bits" "length new"] by simp
  ultimately show ?thesis using a' wroteD(3) [OF w] by (simp add: mask_holds_def)
qed

lemma current_mask_byte:
  assumes "mask_holds al a bits" and "length bits mod 8 \<noteq> 0" and "j < 8"
  shows "bit (flat al ! position a) j \<longleftrightarrow> j < length bits mod 8 \<and> bits ! (8 * (length bits div 8) + j)"
    and "position a < length (flat al)"
proof -
  let ?q = "length bits div 8" and ?m = "(length bits + 7) div 8"
  have "length bits = 8 * ?q + length bits mod 8" by simp
  then have m: "?m = ?q + 1" using assms(2) eighth_split [of "length bits" 0] partial_byte [of "length bits mod 8"] by simp
  have pos: "position a = initial_byte_offset a + ?q" and room: "initial_byte_offset a + ?m \<le> length (flat al)"
    and bytes: "read_at (initial_byte_offset a) ?m (flat al) = pack bits"
    using assms(1) by (simp_all add: mask_holds_def)
  have "flat al ! position a = pack bits ! ?q"
    using nth_read_at [OF room, of ?q] m pos bytes by simp
  moreover have "8 * ?q + j < length bits \<longleftrightarrow> j < length bits mod 8" by presburger
  ultimately show "bit (flat al ! position a) j \<longleftrightarrow> j < length bits mod 8 \<and> bits ! (8 * ?q + j)"
    using m assms(3) by (simp add: bit_pack)
  show "position a < length (flat al)" using pos room m by simp
qed

section \<open>What each branch writes\<close>

definition mask_step :: "alloc \<Rightarrow> accessor \<Rightarrow> byte list \<Rightarrow> nat \<Rightarrow> (accessor \<times> alloc) result \<Rightarrow> bool" where
  "mask_step al a outs n r \<longleftrightarrow> (\<exists>a' al'. r = Inr (a', al') \<and> wrote al (position a) outs al' \<and>
     cursor_ok al a' \<and> position a' = position a + n \<and> initial_byte_offset a' = initial_byte_offset a \<and>
     length outs \<le> n + 1)"

lemma mask_stepE:
  assumes "mask_step al a outs n r"
  obtains a' al' where "r = Inr (a', al')" and "wrote al (position a) outs al'" and "cursor_ok al a'"
    and "position a' = position a + n" and "initial_byte_offset a' = initial_byte_offset a"
    and "length outs \<le> n + 1"
  using assms by (auto simp: mask_step_def)

lemma get_byte_ok:
  assumes "wf_alloc al" and "cursor_ok al a" and "position a < length (flat al)"
  shows "get_byte a al = Inr (flat al ! position a)"
  using get_current_ok [OF assms cursor_offset_byte [OF assms(2)]] assms(3)
  by (simp add: get_byte_def read_at_def)

text \<open>The common end of the branches: a last partial byte, if there is one.\<close>

lemma mask_tail:
  assumes "wf_alloc al" and "cursor_ok al a" and "c \<longrightarrow> position a < length (flat al)"
    and "position a \<le> length (flat al)"
  shows "mask_step al a (if c then [v] else []) 0
    (if c then bind_result (set_current [v] a al) (\<lambda>al. Inr (a, al)) else Inr (a, al))"
proof (cases c)
  case True
  with assms obtain al' where "set_current [v] a al = Inr al'" "wrote al (position a) [v] al'"
    using set_byte_wrote [OF assms(1,2)] by auto
  with True assms show ?thesis by (simp add: mask_step_def)
next
  case False
  with assms show ?thesis by (simp add: mask_step_def wrote_Nil)
qed

lemma mask_step_bind:
  assumes "mask_step al a outs n r"
    and "\<And>a' al'. r = Inr (a', al') \<Longrightarrow> wf_alloc al' \<Longrightarrow> cursor_ok al' a' \<Longrightarrow>
      position a' = position a + n \<Longrightarrow> length (flat al') = length (flat al) \<Longrightarrow>
      mask_step al' a' outs' n' (f (a', al'))"
    and "n = length outs"
  shows "mask_step al a (outs @ outs') (n + n') (bind_result r f)"
proof -
  from assms(1) obtain a1 al1 where r: "r = Inr (a1, al1)" "wrote al (position a) outs al1"
    "cursor_ok al a1" "position a1 = position a + n" "initial_byte_offset a1 = initial_byte_offset a"
    "length outs \<le> n + 1"
    by (rule mask_stepE)
  have "mask_step al1 a1 outs' n' (f (a1, al1))"
    using assms(2) [OF r(1)] r wroteD [OF r(2)] wrote_length [OF r(2)] by simp
  then obtain a2 al2 where s: "f (a1, al1) = Inr (a2, al2)" "wrote al1 (position a1) outs' al2"
    "cursor_ok al1 a2" "position a2 = position a1 + n'" "initial_byte_offset a2 = initial_byte_offset a1"
    "length outs' \<le> n' + 1"
    by (rule mask_stepE)
  have "wrote al (position a) (outs @ outs') al2"
    using wrote_trans [OF r(2)] s(2) r(4) assms(3) by simp
  with r s wroteD(3) [OF r(2)] assms(3) show ?thesis by (simp add: mask_step_def)
qed

lemma memcpy_from_step:
  assumes "wf_alloc al" and "cursor_ok al a" and "position a + length src \<le> length (flat al)"
  shows "mask_step al a src (length src) (memcpy_from src a al)"
proof -
  obtain a' al' where "memcpy_from src a al = Inr (a', al')" "wrote al (position a) src al'"
    "cursor_ok al' a'" "position a' = position a + length src" "initial_byte_offset a' = initial_byte_offset a"
    by (rule memcpy_from_wrote [OF assms])
  then show ?thesis using wroteD(3) by (auto simp: mask_step_def)
qed

lemma mask_aligned_step:
  assumes "wf_alloc al" and "cursor_ok al a" and "position a + (n + 7) div 8 \<le> length (flat al)"
    and "(n + 7) div 8 \<le> length src"
  shows "mask_step al a
    (take (n div 8) src @ (if n mod 8 > 0 then [src ! (n div 8) AND make_mask (n mod 8)] else []))
    (n div 8) (mask_aligned src n a al)"
proof -
  have parts: "(n + 7) div 8 = n div 8 + (if n mod 8 > 0 then 1 else 0)"
    using eighth_split [of n 0] partial_byte [of "n mod 8"] by simp
  have len: "length (take (n div 8) src) = n div 8" using parts assms(4) by simp
  have "mask_step al a (take (n div 8) src @ (if n mod 8 > 0 then [src ! (n div 8) AND make_mask (n mod 8)] else []))
    (length (take (n div 8) src) + 0) (mask_aligned src n a al)"
    unfolding mask_aligned_def Let_def case_prod_unfold eighths
  proof (rule mask_step_bind)
    show "mask_step al a (take (n div 8) src) (length (take (n div 8) src)) (memcpy_from (take (n div 8) src) a al)"
      using assms len parts by (intro memcpy_from_step) auto
  next
    fix a' al'
    assume "wf_alloc al'" "cursor_ok al' a'" "position a' = position a + length (take (n div 8) src)"
      "length (flat al') = length (flat al)"
    then show "mask_step al' a' (if n mod 8 > 0 then [src ! (n div 8) AND make_mask (n mod 8)] else []) 0
      (if n mod 8 > 0 then bind_result (set_current [src ! (n div 8) AND make_mask (n mod 8)]
        (fst (a', al')) (snd (a', al'))) (\<lambda>al. Inr (fst (a', al'), al)) else Inr (fst (a', al'), snd (a', al')))"
      unfolding fst_conv snd_conv using assms(3) len parts by (intro mask_tail) auto
  qed simp
  then show ?thesis by (simp only: len add_0_right)
qed

lemma source_bit: "j < 8 \<Longrightarrow> (8 * k + j) div 8 = k \<and> (8 * k + j) mod 8 = (j::nat)"
  by simp

lemma aligned_extends:
  assumes "vm_ok n v" and "vm_data v = Some src" and "length bits mod 8 = 0"
  shows "extends bits (row_bits v n)
    (take (n div 8) src @ (if n mod 8 > 0 then [src ! (n div 8) AND make_mask (n mod 8)] else []))"
proof -
  define q s where "q = n div 8" and "s = n mod 8"
  have n: "n = 8 * q + s" and s8: "s < 8" by (simp_all add: q_def s_def)
  have parts: "(n + 7) div 8 = q + (if s > 0 then 1 else 0)"
    using eighth_split [of n 0] partial_byte [of s] s8 by (simp add: q_def s_def)
  have src: "(n + 7) div 8 \<le> length src" and valid: "\<And>i. i < n \<Longrightarrow> vm_row_is_valid v i \<longleftrightarrow> bit (src ! (i div 8)) (i mod 8)"
    using assms(1,2) by (simp_all add: vm_ok_def)
  have out: "(take q src @ (if s > 0 then [src ! q AND make_mask s] else [])) ! k =
      (if k < q then src ! k else src ! q AND make_mask s)" if "k < (n + 7) div 8" for k
    using that src parts by (auto simp: nth_append split: if_splits)
  have "bit ((take q src @ (if s > 0 then [src ! q AND make_mask s] else [])) ! k) j \<longleftrightarrow>
      8 * k + j < n \<and> vm_row_is_valid v (8 * k + j)" if k: "k < (n + 7) div 8" and j: "j < 8" for k j
  proof (cases "k < q")
    case True
    then have "8 * k + j < n" using j n by linarith
    with True j show ?thesis unfolding out [OF k] by (simp add: valid)
  next
    case False
    with k parts have "k = q" "s > 0" by (auto split: if_splits)
    with j n show ?thesis unfolding out [OF k] by (auto simp: valid bit_and_iff)
  qed
  then show ?thesis
    using assms(3) src parts by (auto simp: extends_def q_def [symmetric] s_def [symmetric])
qed

lemma mask_fill_step:
  assumes "wf_alloc al" and "cursor_ok al a" and "position a + (n + 7) div 8 \<le> length (flat al)"
  shows "mask_step al a (pack (replicate n True)) (n div 8)
    (bind_result (if n div 8 \<noteq> 0 then acc_memset FULL_MASK (n div 8) a al else Inr (a, al)) (\<lambda>(a, al).
       if n mod 8 \<noteq> 0 then bind_result (set_current [make_mask (n mod 8)] a al) (\<lambda>al. Inr (a, al))
       else Inr (a, al)))"
proof -
  have parts: "(n + 7) div 8 = n div 8 + (if n mod 8 > 0 then 1 else 0)"
    using eighth_split [of n 0] partial_byte [of "n mod 8"] by simp
  have memset: "mask_step al a (replicate (n div 8) 255) (n div 8)
    (if n div 8 \<noteq> 0 then acc_memset FULL_MASK (n div 8) a al else Inr (a, al))"
  proof -
    have "mask_step al a (replicate (n div 8) 255) (length (replicate (n div 8) (255 :: byte)))
      (memcpy_from (replicate (n div 8) 255) a al)"
      using assms parts by (intro memcpy_from_step) auto
    moreover have "memcpy_from [] a al = Inr (a, al)" by (subst memcpy_from.simps) simp
    ultimately show ?thesis
      by (cases "n div 8") (simp_all add: acc_memset_memcpy_from FULL_MASK_def)
  qed
  have "mask_step al a (replicate (n div 8) 255 @ (if n mod 8 \<noteq> 0 then [make_mask (n mod 8)] else []))
    (n div 8 + 0)
    (bind_result (if n div 8 \<noteq> 0 then acc_memset FULL_MASK (n div 8) a al else Inr (a, al)) (\<lambda>(a, al).
       if n mod 8 \<noteq> 0 then bind_result (set_current [make_mask (n mod 8)] a al) (\<lambda>al. Inr (a, al))
       else Inr (a, al)))"
    unfolding case_prod_unfold
  proof (rule mask_step_bind [OF memset])
    fix a' al'
    assume "wf_alloc al'" "cursor_ok al' a'" "position a' = position a + n div 8"
      "length (flat al') = length (flat al)"
    then show "mask_step al' a' (if n mod 8 \<noteq> 0 then [make_mask (n mod 8)] else []) 0
      (if n mod 8 \<noteq> 0 then bind_result (set_current [make_mask (n mod 8)]
        (fst (a', al')) (snd (a', al'))) (\<lambda>al. Inr (fst (a', al'), al)) else Inr (fst (a', al'), snd (a', al')))"
      unfolding fst_conv snd_conv using assms(3) parts by (intro mask_tail) auto
  qed simp
  then show ?thesis by (simp only: pack_replicate_True add_0_right)
qed

lemma mask_all_valid_aligned_step:
  assumes "wf_alloc al" and "cursor_ok al a" and "position a + (n + 7) div 8 \<le> length (flat al)"
  shows "mask_step al a (pack (replicate n True)) (n div 8) (mask_all_valid 0 n a al)"
  using mask_fill_step [OF assms] by (simp add: mask_all_valid_def)

text \<open>The first byte of the unaligned case, with as many bits as fit.\<close>

lemma mask_all_valid_unaligned_step:
  assumes "wf_alloc al" and "cursor_ok al a" and s: "0 < s" "s < 8" and "n < 2 ^ 32"
    and room: "position a + (s + n + 7) div 8 \<le> length (flat al)"
  shows "mask_step al a
    ((flat al ! position a OR push_bit s (make_mask (min (8 - s) n))) # pack (replicate (n - min (8 - s) n) True))
    ((s + n) div 8) (mask_all_valid s n a al)"
proof -
  define b r where "b = min (8 - s) n" and "r = n - b"
  define v where "v = (flat al ! position a OR push_bit s (make_mask b))"
  have "1 \<le> (s + n + 7) div 8" using s by (simp add: Suc_le_eq div_greater_zero_iff)
  then have pos: "position a < length (flat al)" using room by simp
  obtain al1 where w: "set_current [v] a al = Inr al1" "wrote al (position a) [v] al1"
    using set_byte_wrote [OF assms(1,2) pos] by blast
  define a1 where "a1 = (if b + s = 8 then advance_as 1 a else a)"
  have mod: "n mod 2 ^ 32 = n" using assms(5) by simp
  have eq: "mask_all_valid s n a al =
    bind_result (if r div 8 \<noteq> 0 then acc_memset FULL_MASK (r div 8) a1 al1 else Inr (a1, al1)) (\<lambda>(a, al).
       if r mod 8 \<noteq> 0 then bind_result (set_current [make_mask (r mod 8)] a al) (\<lambda>al. Inr (a, al))
       else Inr (a, al))"
    using s w(1) get_byte_ok [OF assms(1,2) pos]
    unfolding mask_all_valid_def Let_def mod b_def [symmetric] r_def [symmetric] v_def a1_def by simp
  have "mask_step al a (v # pack (replicate r True)) ((s + n) div 8) (mask_all_valid s n a al)"
  proof (cases "8 - s \<le> n")
    case True
    then have sn: "(s + n) div 8 = 1 + r div 8" "(s + n + 7) div 8 = 1 + (r + 7) div 8" and a1: "a1 = advance_as 1 a"
    proof -
      have b: "b = 8 - s" "s + n = 8 + r" using True s by (simp_all add: b_def r_def)
      then show "(s + n) div 8 = 1 + r div 8" "(s + n + 7) div 8 = 1 + (r + 7) div 8" by simp_all
      show "a1 = advance_as 1 a" using b s by (simp add: a1_def)
    qed
    note adv = advance_byte [OF assms(1,2), folded a1]
    have "mask_step al1 a1 (pack (replicate r True)) (r div 8) (mask_all_valid s n a al)"
      unfolding eq
      using adv wroteD [OF w(2)] wrote_length [OF w(2)] room sn(2) by (intro mask_fill_step) auto
    then obtain a' al' where f: "mask_all_valid s n a al = Inr (a', al')"
      "wrote al1 (position a1) (pack (replicate r True)) al'" "cursor_ok al1 a'"
      "position a' = position a1 + r div 8" "initial_byte_offset a' = initial_byte_offset a1"
      "length (pack (replicate r True)) \<le> r div 8 + 1"
      by (rule mask_stepE)
    have "wrote al (position a) ([v] @ pack (replicate r True)) al'"
      using wrote_trans [OF w(2)] f(2) adv(2) by simp
    with f adv sn(1) wroteD(3) [OF w(2)] show ?thesis by (simp add: mask_step_def)
  next
    case False
    then have "r = 0" "a1 = a" "(s + n) div 8 = 0" by (auto simp: r_def a1_def b_def)
    with w assms(2) show ?thesis unfolding eq by (simp add: mask_step_def)
  qed
  then show ?thesis by (simp only: v_def b_def r_def)
qed

lemma all_valid_row_bits: "vm_ok n v \<Longrightarrow> vm_data v = None \<Longrightarrow> row_bits v n = replicate n True"
  by (auto simp: vm_ok_def intro: nth_equalityI)

lemma all_valid_aligned_extends:
  assumes "length bits mod 8 = 0"
  shows "extends bits (replicate n True) (pack (replicate n True))"
  using assms by (auto simp: extends_def bit_pack)

lemma all_valid_unaligned_extends:
  assumes s: "s = length bits mod 8" "s \<noteq> 0"
    and cur: "\<And>j. j < 8 \<Longrightarrow> bit c j \<longleftrightarrow> j < s \<and> bits ! (8 * (length bits div 8) + j)"
  shows "extends bits (replicate n True)
    ((c OR push_bit s (make_mask (min (8 - s) n))) # pack (replicate (n - min (8 - s) n) True))"
proof -
  define r where "r = n - min (8 - s) n"
  let ?m = "(s + n + 7) div 8"
  have s8: "s < 8" using s by simp
  have m: "?m = 1 + (r + 7) div 8"
  proof (cases "8 - s \<le> n")
    case True
    then have "s + n + 7 = 8 + (r + 7)" using s8 by (simp add: r_def)
    then show ?thesis by simp
  next
    case False
    then have "r = 0" by (simp add: r_def)
    then show ?thesis using partial_byte [of "s + n"] s s8 False by simp
  qed
  have next_byte: "8 * Suc i + j - s < n \<longleftrightarrow> 8 * i + j < r" for i j
    using s8 by (auto simp: r_def min_def)
  have "bit (((c OR push_bit s (make_mask (min (8 - s) n))) # pack (replicate r True)) ! k) j \<longleftrightarrow>
      (if 8 * k + j < s then bits ! (8 * (length bits div 8) + j) else 8 * k + j - s < n)"
    if k: "k < ?m" and j: "j < 8" for k j
  proof (cases k)
    case 0
    with j s8 show ?thesis by (auto simp: bit_or_iff bit_push_bit_iff cur)
  next
    case (Suc i)
    with k m have "i < (length (replicate r True) + 7) div 8" by simp
    then show ?thesis using Suc j s8 next_byte [of i j] by (simp add: bit_pack cong: conj_cong)
  qed
  then show ?thesis using m by (auto simp: extends_def s(1) [symmetric] r_def [symmetric])
qed

section \<open>The shifting branch\<close>

fun shift_outs :: "nat \<Rightarrow> byte \<Rightarrow> byte list \<Rightarrow> byte list" where
  "shift_outs s cur [] = []"
| "shift_outs s cur (b # bs) = (cur OR lower_bits s b) # shift_outs s (upper_bits s b) bs"

definition shift_carry :: "nat \<Rightarrow> byte \<Rightarrow> byte list \<Rightarrow> byte" where
  "shift_carry s cur bs = (if bs = [] then cur else upper_bits s (last bs))"

lemma shift_carry_simps [simp]:
  "shift_carry s cur [] = cur"
  "shift_carry s cur (b # bs) = shift_carry s (upper_bits s b) bs"
  by (simp_all add: shift_carry_def)

lemma length_shift_outs [simp]: "length (shift_outs s cur bs) = length bs"
  by (induction bs arbitrary: cur) simp_all

lemma nth_shift_outs:
  "k < length bs \<Longrightarrow> shift_outs s cur bs ! k =
     (if k = 0 then cur else upper_bits s (bs ! (k - 1))) OR lower_bits s (bs ! k)"
  by (induction bs arbitrary: cur k) (auto simp: nth_Cons split: nat.splits)

lemma shift_outs_append:
  "shift_outs s cur (bs @ [b]) = shift_outs s cur bs @ [shift_carry s cur bs OR lower_bits s b]"
  by (induction bs arbitrary: cur) simp_all

lemma bit_lower_bits: "j < 8 \<Longrightarrow> s < 8 \<Longrightarrow> bit (lower_bits s b) j \<longleftrightarrow> s \<le> j \<and> bit b (j - s)"
  by (auto simp: lower_bits_def bit_push_bit_iff bit_and_iff)

lemma bit_upper_bits: "j < 8 \<Longrightarrow> s < 8 \<Longrightarrow> bit (upper_bits s b) j \<longleftrightarrow> j < s \<and> bit b (8 - s + j)"
  by (auto simp: upper_bits_def bit_drop_bit_eq bit_and_iff)

lemma mask_shift_loop_step:
  assumes "wf_alloc al" and "cursor_ok al a" and "position a + length bs \<le> length (flat al)"
  shows "\<exists>a' al'. mask_shift_loop s bs cur a al = Inr (shift_carry s cur bs, a', al') \<and>
    wrote al (position a) (shift_outs s cur bs) al' \<and> cursor_ok al a' \<and>
    position a' = position a + length bs \<and> initial_byte_offset a' = initial_byte_offset a"
  using assms
proof (induction bs arbitrary: cur a al)
  case Nil
  then show ?case by (simp add: wrote_Nil)
next
  case (Cons b bs)
  let ?v = "cur OR lower_bits s b"
  have pos: "position a < length (flat al)" using Cons.prems(3) by simp
  obtain al1 where w: "set_current [?v] a al = Inr al1" "wrote al (position a) [?v] al1"
    using set_byte_wrote [OF Cons.prems(1,2) pos] by blast
  note adv = advance_byte [OF Cons.prems(1,2)]
  have "wf_alloc al1" "cursor_ok al1 (advance_as 1 a)"
    "position (advance_as 1 a) + length bs \<le> length (flat al1)"
    using wroteD [OF w(2)] wrote_length [OF w(2)] adv Cons.prems(3) by simp_all
  from Cons.IH [OF this, of "upper_bits s b"] obtain a' al' where
    r: "mask_shift_loop s bs (upper_bits s b) (advance_as 1 a) al1 = Inr (shift_carry s (upper_bits s b) bs, a', al')"
      "wrote al1 (position (advance_as 1 a)) (shift_outs s (upper_bits s b) bs) al'" "cursor_ok al1 a'"
      "position a' = position (advance_as 1 a) + length bs"
      "initial_byte_offset a' = initial_byte_offset (advance_as 1 a)"
    by auto
  have "wrote al (position a) ([?v] @ shift_outs s (upper_bits s b) bs) al'"
    using wrote_trans [OF w(2)] r(2) adv(2) by simp
  with r adv w wroteD(3) [OF w(2)] show ?case by auto
qed

definition unaligned_outs :: "nat \<Rightarrow> byte \<Rightarrow> byte list \<Rightarrow> nat \<Rightarrow> byte list" where
  "unaligned_outs s cur src n =
     (let sb = src ! (n div 8) AND make_mask (n mod 8) in
      shift_outs s cur (take (n div 8) src @ [sb]) @ (if n mod 8 \<ge> 8 - s then [upper_bits s sb] else []))"

lemma mask_two_bytes_step:
  assumes "wf_alloc al" and "cursor_ok al a" and "position a + (if c then 1 else 0) < length (flat al)"
  shows "mask_step al a ([v] @ (if c then [u] else [])) (if c then 1 else 0)
    (bind_result (set_current [v] a al) (\<lambda>al.
       if c then let a = advance_as 1 a in bind_result (set_current [u] a al) (\<lambda>al. Inr (a, al))
       else Inr (a, al)))"
proof -
  have "position a < length (flat al)" using assms(3) by simp
  from set_byte_wrote [OF assms(1,2) this, of v] obtain al1 where
    w: "set_current [v] a al = Inr al1" "wrote al (position a) [v] al1" by blast
  show ?thesis
  proof (cases c)
    case False
    with w assms(2) show ?thesis by (simp add: mask_step_def)
  next
    case True
    note adv = advance_byte [OF assms(1,2)]
    have "wf_alloc al1" "cursor_ok al1 (advance_as 1 a)" "position (advance_as 1 a) < length (flat al1)"
      using wroteD [OF w(2)] wrote_length [OF w(2)] adv assms(3) True by simp_all
    from set_byte_wrote [OF this, of u] obtain al2 where
      w2: "set_current [u] (advance_as 1 a) al1 = Inr al2" "wrote al1 (position (advance_as 1 a)) [u] al2"
      by blast
    have "wrote al (position a) ([v] @ [u]) al2"
      using wrote_trans [OF w(2)] w2(2) adv(2) by simp
    with True w w2 adv show ?thesis by (simp add: mask_step_def Let_def)
  qed
qed

lemma mask_unaligned_step:
  assumes "wf_alloc al" and "cursor_ok al a" and s: "0 < s" "s < 8" and tail: "n mod 8 \<noteq> 0"
    and src: "(n + 7) div 8 \<le> length src" and room: "position a + (s + n) div 8 < length (flat al)"
  shows "mask_step al a (unaligned_outs s (flat al ! position a) src n) ((s + n) div 8)
    (mask_unaligned s src n a al)"
proof -
  let ?f = "n div 8" and ?t = "n mod 8" and ?cur = "flat al ! position a"
  let ?sb = "src ! ?f AND make_mask ?t" and ?c = "8 - s \<le> n mod 8"
  let ?v = "shift_carry s ?cur (take ?f src) OR lower_bits s ?sb" and ?u = "upper_bits s ?sb"
  have "(s + ?t) div 8 = (if ?c then 1 else 0)"
    using s by (auto simp: div_eq_0_iff intro!: div_nat_eqI)
  then have carry: "(s + n) div 8 = ?f + (if ?c then 1 else 0)"
    using carry_split [of s n] by simp
  have "(n + 7) div 8 = ?f + 1"
    using eighth_split [of n 0] partial_byte [of ?t] tail by simp
  then have len: "length (take ?f src) = ?f" using src by simp
  have pos: "position a < length (flat al)" using room by simp
  have "position a + length (take ?f src) \<le> length (flat al)" using room carry len by simp
  from mask_shift_loop_step [OF assms(1,2) this, of s ?cur] obtain a1 al1 where
    l: "mask_shift_loop s (take ?f src) ?cur a al = Inr (shift_carry s ?cur (take ?f src), a1, al1)"
      "wrote al (position a) (shift_outs s ?cur (take ?f src)) al1" "cursor_ok al a1"
      "position a1 = position a + ?f" "initial_byte_offset a1 = initial_byte_offset a"
    by (auto simp only: len)
  have eq: "mask_unaligned s src n a al = bind_result (set_current [?v] a1 al1) (\<lambda>al.
      if ?c then let a = advance_as 1 a1 in bind_result (set_current [?u] a al) (\<lambda>al. Inr (a, al))
      else Inr (a1, al))"
    using get_byte_ok [OF assms(1,2) pos] l(1) tail by (simp add: mask_unaligned_def Let_def)
  have "mask_step al1 a1 ([?v] @ (if ?c then [?u] else [])) (if ?c then 1 else 0) (mask_unaligned s src n a al)"
    unfolding eq using wroteD [OF l(2)] wrote_length [OF l(2)] l room carry
    by (intro mask_two_bytes_step) simp_all
  then obtain a2 al2 where r: "mask_unaligned s src n a al = Inr (a2, al2)"
    "wrote al1 (position a1) ([?v] @ (if ?c then [?u] else [])) al2" "cursor_ok al1 a2"
    "position a2 = position a1 + (if ?c then 1 else 0)" "initial_byte_offset a2 = initial_byte_offset a1"
    "length ([?v] @ (if ?c then [?u] else [])) \<le> (if ?c then 1 else 0) + 1"
    by (rule mask_stepE)
  have "unaligned_outs s ?cur src n = shift_outs s ?cur (take ?f src) @ ([?v] @ (if ?c then [?u] else []))"
    by (simp add: unaligned_outs_def Let_def shift_outs_append)
  moreover have "wrote al (position a) (shift_outs s ?cur (take ?f src) @ ([?v] @ (if ?c then [?u] else []))) al2"
    using wrote_trans [OF l(2)] r(2) l(4) len by simp
  ultimately show ?thesis
    unfolding mask_step_def carry using r l wroteD(3) [OF l(2)] len by auto
qed

lemma shifted_source_bit:
  assumes v: "vm_ok n v" "vm_data v = Some src" and n: "n = 8 * f + t" "0 < t" "t < 8"
    and i: "i \<le> f" "p < 8"
  shows "bit ((take f src @ [src ! f AND make_mask t]) ! i) p \<longleftrightarrow> 8 * i + p < n \<and> vm_row_is_valid v (8 * i + p)"
proof -
  have "(n + 7) div 8 = f + 1" using partial_byte [OF n(2,3)] by (simp add: n(1) add.assoc)
  then have src: "f < length src" and valid: "\<And>i. i < n \<Longrightarrow> vm_row_is_valid v i \<longleftrightarrow> bit (src ! (i div 8)) (i mod 8)"
    using v by (simp_all add: vm_ok_def)
  show ?thesis
  proof (cases "i < f")
    case True
    then have "8 * i + p < n" using i n by linarith
    with True src i show ?thesis by (simp add: nth_append valid)
  next
    case False
    then have f: "i = f" using i by simp
    have "bit ((take f src @ [src ! f AND make_mask t]) ! f) p \<longleftrightarrow> p < t \<and> bit (src ! f) p"
      using src i by (auto simp: nth_append bit_and_iff)
    moreover have "8 * f + p < n \<longleftrightarrow> p < t" using n by simp
    ultimately show ?thesis using i by (auto simp: f valid)
  qed
qed

lemma unaligned_extends:
  assumes v: "vm_ok n v" "vm_data v = Some src" and s: "s = length bits mod 8" "s \<noteq> 0"
    and tail: "n mod 8 \<noteq> 0"
    and cur: "\<And>j. j < 8 \<Longrightarrow> bit c j \<longleftrightarrow> j < s \<and> bits ! (8 * (length bits div 8) + j)"
  shows "extends bits (row_bits v n) (unaligned_outs s c src n)"
proof -
  define f t where "f = n div 8" and "t = n mod 8"
  have n: "n = 8 * f + t" and t: "0 < t" "t < 8" using tail by (simp_all add: f_def t_def)
  have s8: "s < 8" using s by simp
  define bs where "bs = take f src @ [src ! f AND make_mask t]"
  note B = shifted_source_bit [OF v n t, folded bs_def]
  have "(n + 7) div 8 = f + 1" using partial_byte [OF t] by (simp add: n add.assoc)
  then have lbs: "length bs = f + 1" and last: "bs ! f = src ! f AND make_mask t"
    using v by (simp_all add: vm_ok_def bs_def nth_append)
  have outs: "unaligned_outs s c src n = shift_outs s c bs @ (if 8 - s \<le> t then [upper_bits s (bs ! f)] else [])"
    unfolding last by (simp add: unaligned_outs_def Let_def bs_def f_def t_def)
  have "(s + t + 7) div 8 = (if s + t > 8 then 2 else 1)"
    using t s s8 by (auto intro!: div_nat_eqI)
  then have m: "(s + n + 7) div 8 = f + (if s + t > 8 then 2 else 1)"
    using carry_split [of "s + 7" n] by (simp add: f_def t_def ac_simps)
  have "bit (unaligned_outs s c src n ! k) j \<longleftrightarrow>
      (if 8 * k + j < s then bits ! (8 * (length bits div 8) + j)
       else 8 * k + j - s < n \<and> vm_row_is_valid v (8 * k + j - s))"
    if k: "k < (s + n + 7) div 8" and j: "j < 8" for k j
  proof -
    consider (first) "k = 0" | (inner) i where "k = Suc i" "k \<le> f" | (carry) "k = Suc f" "s + t > 8"
      using k m by (cases k; cases "k \<le> f") (auto split: if_splits)
    then show ?thesis
    proof cases
      case first
      then show ?thesis
        using B [of 0 "j - s"] j s8 cur [OF j]
        by (auto simp: outs lbs nth_append nth_shift_outs bit_or_iff bit_lower_bits)
    next
      case inner
      have at: "unaligned_outs s c src n ! k = upper_bits s (bs ! i) OR lower_bits s (bs ! k)"
        using inner by (simp add: outs lbs nth_append nth_shift_outs)
      show ?thesis
      proof (cases "j < s")
        case True
        then have "8 * i + (8 - s + j) = 8 * k + j - s" "8 - s + j < 8" using inner s8 by auto
        with B [of i "8 - s + j"] j s8 inner True show ?thesis
          unfolding at by (simp add: bit_or_iff bit_lower_bits bit_upper_bits)
      next
        case False
        then have "8 * k + (j - s) = 8 * k + j - s" by simp
        with B [of k "j - s"] j s8 inner False show ?thesis
          unfolding at by (simp add: bit_or_iff bit_lower_bits bit_upper_bits)
      qed
    next
      case carry
      have at: "unaligned_outs s c src n ! k = upper_bits s (bs ! f)"
        using carry by (auto simp: outs lbs nth_append)
      show ?thesis
      proof (cases "j < s")
        case True
        then have "8 * f + (8 - s + j) = 8 * k + j - s" "8 - s + j < 8" using carry s8 by auto
        with B [of f "8 - s + j"] j s8 carry True show ?thesis unfolding at by (simp add: bit_upper_bits)
      next
        case False
        then have "\<not> 8 * k + j < s" "\<not> 8 * k + j - s < n" using carry t n s8 by linarith+
        with j s8 False show ?thesis unfolding at by (simp add: bit_upper_bits)
      qed
    qed
  qed
  then show ?thesis
    using m t by (auto simp: extends_def s(1) [symmetric] outs lbs)
qed

section \<open>Appending a chunk's validity\<close>

text \<open>
  The case the code gets right: the rows start on a byte boundary, or they are all valid, or their
  number is not a multiple of eight.
\<close>

definition mask_append_ok :: "validity_mask \<Rightarrow> nat \<Rightarrow> nat \<Rightarrow> bool" where
  "mask_append_ok v n row_offset \<longleftrightarrow> row_offset mod 8 = 0 \<or> vm_data v = None \<or> n mod 8 \<noteq> 0"

definition mask_write ::
  "validity_mask \<Rightarrow> nat \<Rightarrow> nat \<Rightarrow> accessor \<Rightarrow> alloc \<Rightarrow> (accessor \<times> alloc) result" where
  "mask_write v n row_offset a al =
     (case vm_data v of
        None \<Rightarrow> mask_all_valid (row_offset mod 8) n a al
      | Some src \<Rightarrow> if row_offset mod 8 = 0 then mask_aligned src n a al
          else mask_unaligned (row_offset mod 8) src n a al)"

lemma mask_write_extends:
  assumes wf: "wf_alloc al" and holds: "mask_holds al a bits" and v: "vm_ok n v" and n: "n < 2 ^ 32"
    and ok: "mask_append_ok v n (length bits)"
    and room: "initial_byte_offset a + (length bits + n) div 8 < length (flat al)"
  obtains outs where "extends bits (row_bits v n) outs"
    and "mask_step al a outs ((length bits mod 8 + n) div 8) (mask_write v n (length bits) a al)"
proof -
  let ?s = "length bits mod 8" and ?cur = "flat al ! position a"
  have cursor: "cursor_ok al a" and pos: "position a = initial_byte_offset a + length bits div 8"
    using holds by (simp_all add: mask_holds_def)
  have room1: "position a + (?s + n) div 8 < length (flat al)"
    using room pos carry_split [of n "length bits"] by (simp add: ac_simps)
  have "(?s + n + 7) div 8 \<le> (?s + n) div 8 + 1" using div_le_mono [of "?s + n + 7" "?s + n + 8" 8] by simp
  then have room2: "position a + (?s + n + 7) div 8 \<le> length (flat al)" using room1 by simp
  show ?thesis
  proof (cases "?s = 0")
    case aligned: True
    then show ?thesis
    proof (cases "vm_data v")
      case None
      then show ?thesis
        using that [of "pack (replicate n True)"] all_valid_aligned_extends [OF aligned, of n]
          mask_all_valid_aligned_step [OF wf cursor, of n] aligned room2
        by (simp add: mask_write_def all_valid_row_bits [OF v None])
    next
      case (Some src)
      then have "(n + 7) div 8 \<le> length src" using v by (simp add: vm_ok_def)
      then show ?thesis
        using that [OF aligned_extends [OF v Some aligned]] mask_aligned_step [OF wf cursor, of n src]
          aligned room2 Some by (simp add: mask_write_def)
    qed
  next
    case unaligned: False
    have cur: "bit ?cur j \<longleftrightarrow> j < ?s \<and> bits ! (8 * (length bits div 8) + j)" if "j < 8" for j
      using current_mask_byte(1) [OF holds unaligned that] .
    show ?thesis
    proof (cases "vm_data v")
      case None
      then show ?thesis
        using that all_valid_unaligned_extends [OF refl unaligned cur, of n]
          mask_all_valid_unaligned_step [OF wf cursor _ _ n, of ?s] unaligned room2
        by (simp add: mask_write_def all_valid_row_bits [OF v None])
    next
      case (Some src)
      then have src: "(n + 7) div 8 \<le> length src" and tail: "n mod 8 \<noteq> 0"
        using v ok unaligned by (auto simp: vm_ok_def mask_append_ok_def)
      show ?thesis
        using that [OF unaligned_extends [OF v Some refl unaligned tail cur]]
          mask_unaligned_step [OF wf cursor _ _ tail src, of ?s] unaligned room1 Some
        by (simp add: mask_write_def)
    qed
  qed
qed

lemma process_mask_via_write:
  "process_mask_for_column v n row_offset cb al =
     bind_result (mask_write v n row_offset (mask_blocks_accessor cb) al) (\<lambda>(a, al).
       Inr (cb\<lparr>null_count := null_count cb + (if vm_data v = None then 0 else n - vm_count_valid v n),
         mask_blocks_accessor := a\<rparr>, al))"
  by (cases "vm_data v") (simp_all add: process_mask_for_column_def mask_write_def Let_def)

text \<open>
  The contract of one append: the mask region holds the old and the new bits, only bytes from the
  cursor up to the byte of the next row are written.
\<close>

lemma process_mask_appends:
  assumes wf: "wf_alloc al" and holds: "mask_holds al (mask_blocks_accessor cb) bits" and v: "vm_ok n v"
    and n: "n < 2 ^ 32" and ok: "mask_append_ok v n (length bits)"
    and room: "initial_byte_offset (mask_blocks_accessor cb) + (length bits + n) div 8 < length (flat al)"
  obtains a' al' outs where "process_mask_for_column v n (length bits) cb al =
      Inr (cb\<lparr>null_count := null_count cb + (if vm_data v = None then 0 else n - vm_count_valid v n),
         mask_blocks_accessor := a'\<rparr>, al')"
    and "mask_holds al' a' (bits @ row_bits v n)"
    and "wrote al (position (mask_blocks_accessor cb)) outs al'"
    and "initial_byte_offset a' = initial_byte_offset (mask_blocks_accessor cb)"
    and "position (mask_blocks_accessor cb) + length outs \<le> position a' + 1"
proof -
  let ?a = "mask_blocks_accessor cb"
  obtain outs where ext: "extends bits (row_bits v n) outs"
    and step: "mask_step al ?a outs ((length bits mod 8 + n) div 8) (mask_write v n (length bits) ?a al)"
    by (rule mask_write_extends [OF wf holds v n ok room])
  from step obtain a' al' where r: "mask_write v n (length bits) ?a al = Inr (a', al')"
    "wrote al (position ?a) outs al'" "cursor_ok al a'"
    "position a' = position ?a + (length bits mod 8 + n) div 8" "initial_byte_offset a' = initial_byte_offset ?a"
    "length outs \<le> (length bits mod 8 + n) div 8 + 1"
    by (rule mask_stepE)
  have "position a' = initial_byte_offset ?a + (length bits + length (row_bits v n)) div 8"
    using r(4) holds carry_split [of n "length bits"] by (simp add: mask_holds_def ac_simps)
  from mask_holds_extend [OF holds r(2) ext r(3) this r(5)] r show ?thesis
    by (intro that [of a' al' outs]) (simp_all add: process_mask_via_write)
qed

lemma null_rows:
  assumes "vm_ok n v"
  shows "(if vm_data v = None then 0 else n - vm_count_valid v n) = length (filter Not (row_bits v n))"
proof -
  have "length (filter (vm_row_is_valid v) [0..<n]) + length (filter (\<lambda>i. \<not> vm_row_is_valid v i) [0..<n]) = n"
    using sum_length_filter_compl [of "vm_row_is_valid v" "[0..<n]"] by simp
  moreover have "length (filter Not (row_bits v n)) = length (filter (\<lambda>i. \<not> vm_row_is_valid v i) [0..<n])"
    by (simp add: row_bits_def filter_map comp_def)
  moreover have "filter (\<lambda>i. \<not> vm_row_is_valid v i) [0..<n] = []" if "vm_data v = None"
    using assms that by (auto simp: vm_ok_def)
  moreover have "vm_count_valid v n = length (filter (vm_row_is_valid v) [0..<n])"
    using assms by (simp add: vm_ok_def)
  ultimately show ?thesis by (cases "vm_data v") auto
qed

section \<open>A small column\<close>

definition demo_validity :: "byte list \<Rightarrow> validity_mask" where
  "demo_validity bs = \<lparr>vm_data = Some bs, vm_row_is_valid = (\<lambda>i. bit (bs ! (i div 8)) (i mod 8)),
     vm_count_valid = (\<lambda>n. length (filter (\<lambda>i. bit (bs ! (i div 8)) (i mod 8)) [0..<n]))\<rparr>"

definition demo_mask_alloc :: alloc where
  "demo_mask_alloc = \<lparr>al_block_size = 4, al_blocks = [[7, 0, 0, 0]]\<rparr>"

definition demo_mask_cursor :: accessor where
  "demo_mask_cursor = \<lparr>block_size = 4, num_blocks = 1, block_index = 0, offset_in_block = 0, initial_byte_offset = 0\<rparr>"

definition demo_mask_builder :: column_builder where
  "demo_mask_builder = \<lparr>cb_type = make_type INTEGER, type_size = 4, total_data_bytes = 0,
     total_data_bytes_allocated = 0, null_count = 0, data_blocks_accessor = uninitialized_accessor,
     mask_blocks_accessor = demo_mask_cursor, offset_blocks_accessor = uninitialized_accessor\<rparr>"

lemma demo_mask_simps:
  "mask_blocks_accessor demo_mask_builder = demo_mask_cursor" "null_count demo_mask_builder = 0"
  "initial_byte_offset demo_mask_cursor = 0" "flat demo_mask_alloc = [7, 0, 0, 0]"
  by (simp_all add: demo_mask_builder_def demo_mask_cursor_def demo_mask_alloc_def flat_def)

lemma demo_rows_length: "length [True, True, True] = 3"
  by simp

lemma demo_mask_alloc_wf: "wf_alloc demo_mask_alloc"
  by (simp add: wf_alloc_def demo_mask_alloc_def)

lemma demo_mask_holds: "mask_holds demo_mask_alloc (mask_blocks_accessor demo_mask_builder) [True, True, True]"
proof -
  have "pack [True, True, True] = [7]" by (simp add: pack_def)
  moreover have "cursor_ok demo_mask_alloc demo_mask_cursor" "position demo_mask_cursor = 0"
    by (simp_all add: cursor_ok_def position_def demo_mask_cursor_def demo_mask_alloc_def)
  ultimately show ?thesis by (simp add: mask_holds_def demo_mask_simps read_at_def)
qed

lemma demo_validity_ok: "(n + 7) div 8 \<le> length bs \<Longrightarrow> vm_ok n (demo_validity bs)"
  by (simp add: vm_ok_def demo_validity_def)

section \<open>The case that loses rows\<close>

lemma mask_unaligned_full_bytes:
  assumes "wf_alloc al" and "cursor_ok al a" and "n mod 8 = 0" and "n div 8 \<le> length src"
    and room: "position a + n div 8 < length (flat al)"
  obtains a' al' where "mask_unaligned s src n a al = Inr (a', al')"
    and "position a' = position a + n div 8" and "flat al' ! position a' = flat al ! position a'"
proof -
  have len: "length (take (n div 8) src) = n div 8" using assms(4) by simp
  have "position a + length (take (n div 8) src) \<le> length (flat al)" using room len by simp
  from mask_shift_loop_step [OF assms(1,2) this, of s "flat al ! position a"] obtain a' al' where
    l: "mask_shift_loop s (take (n div 8) src) (flat al ! position a) a al =
        Inr (shift_carry s (flat al ! position a) (take (n div 8) src), a', al')"
      "wrote al (position a) (shift_outs s (flat al ! position a) (take (n div 8) src)) al'"
      "position a' = position a + n div 8"
    by (auto simp only: len)
  have "position a < length (flat al)" using room by simp
  then have eq: "mask_unaligned s src n a al = Inr (a', al')"
    using get_byte_ok [OF assms(1,2)] l(1) assms(3) by (simp add: mask_unaligned_def Let_def)
  have "flat al' ! position a' = flat al ! position a'"
    using wroteD(2) [OF l(2)] l(3) room len by (simp add: nth_write_at)
  then show ?thesis by (rule that [OF eq l(3)])
qed

section \<open>Properties\<close>

text \<open>
  C8: appending a chunk's validity to a column mask. If the mask region holds the validities
  of the rows so far and the chunk starts on a byte boundary, has no null pointer mask to shift, or
  has a number of rows that is not a multiple of eight, the region afterwards holds the old
  validities followed by the chunk's, the null count grows by the chunk's null rows and the cursor
  stands on the byte of the next row.
\<close>

theorem process_mask_for_column_appends:
  assumes "wf_alloc al" and "mask_holds al (mask_blocks_accessor cb) bits" and "vm_ok n v"
    and "n < 2 ^ 32" and "mask_append_ok v n (length bits)"
    and "initial_byte_offset (mask_blocks_accessor cb) + (length bits + n) div 8 < length (flat al)"
  shows "\<exists>cb' al'. process_mask_for_column v n (length bits) cb al = Inr (cb', al') \<and> wf_alloc al' \<and>
    mask_holds al' (mask_blocks_accessor cb') (bits @ row_bits v n) \<and>
    null_count cb' = null_count cb + length (filter Not (row_bits v n))"
proof -
  obtain a' al' outs where r: "process_mask_for_column v n (length bits) cb al =
      Inr (cb\<lparr>null_count := null_count cb + (if vm_data v = None then 0 else n - vm_count_valid v n),
         mask_blocks_accessor := a'\<rparr>, al')" "mask_holds al' a' (bits @ row_bits v n)"
    "wrote al (position (mask_blocks_accessor cb)) outs al'"
    by (rule process_mask_appends [OF assms])
  with wroteD(1) [OF r(3)] null_rows [OF assms(3)] show ?thesis by simp
qed

theorem process_mask_for_column_appends_witness:
  "\<exists>cb' al'. process_mask_for_column (demo_validity [53]) 5 3 demo_mask_builder demo_mask_alloc = Inr (cb', al') \<and>
    mask_holds al' (mask_blocks_accessor cb') ([True, True, True] @ [True, False, True, False, True]) \<and>
    null_count cb' = 2"
proof -
  have rows: "row_bits (demo_validity [53]) 5 = [True, False, True, False, True]"
    by (simp add: row_bits_def demo_validity_def upt_conv_Cons)
  have "mask_append_ok (demo_validity [53]) 5 3"
    by (simp add: mask_append_ok_def)
  moreover have "vm_ok 5 (demo_validity [53])" by (rule demo_validity_ok) simp
  ultimately show ?thesis
    using process_mask_for_column_appends [OF demo_mask_alloc_wf demo_mask_holds, of 5 "demo_validity [53]",
        unfolded rows demo_rows_length]
    by (auto simp: demo_mask_simps numeral_2_eq_2 [symmetric])
qed

text \<open>
  C10: a chunk whose row count is a multiple of eight and that starts inside a byte loses its
  last rows. The byte that should receive the validities of the last \<open>row_offset mod 8\<close> rows keeps
  the value it had, so these rows read back as whatever the buffer contained before.
\<close>

theorem process_mask_for_column_loses_rows:
  assumes "wf_alloc al" and "mask_holds al (mask_blocks_accessor cb) bits" and "vm_ok n v"
    and "vm_data v = Some src" and "length bits mod 8 \<noteq> 0" and "n mod 8 = 0"
    and "initial_byte_offset (mask_blocks_accessor cb) + (length bits + n) div 8 < length (flat al)"
  shows "\<exists>cb' al'. process_mask_for_column v n (length bits) cb al = Inr (cb', al') \<and>
    position (mask_blocks_accessor cb') =
      initial_byte_offset (mask_blocks_accessor cb) + (length bits + n) div 8 \<and>
    flat al' ! position (mask_blocks_accessor cb') = flat al ! position (mask_blocks_accessor cb')"
proof -
  let ?a = "mask_blocks_accessor cb"
  have a: "cursor_ok al ?a" "position ?a = initial_byte_offset ?a + length bits div 8"
    using assms(2) by (simp_all add: mask_holds_def)
  have split: "(length bits + n) div 8 = length bits div 8 + n div 8"
    using assms(6) by (auto elim!: dvdE simp: mod_eq_0_iff_dvd)
  have src: "n div 8 \<le> length src"
    using assms(3,4) div_le_mono [of n "n + 7" 8] by (simp add: vm_ok_def)
  obtain a' al' where r: "mask_unaligned (length bits mod 8) src n ?a al = Inr (a', al')"
    "position a' = position ?a + n div 8" "flat al' ! position a' = flat al ! position a'"
    using mask_unaligned_full_bytes [OF assms(1) a(1) assms(6) src] a(2) split assms(7) by auto
  then show ?thesis
    using a(2) split assms(4,5) by (simp add: process_mask_via_write mask_write_def)
qed

theorem process_mask_for_column_loses_rows_witness:
  "\<exists>cb' al'. process_mask_for_column (demo_validity [255]) 8 3 demo_mask_builder demo_mask_alloc = Inr (cb', al') \<and>
    position (mask_blocks_accessor cb') = 1 \<and> flat al' ! 1 = 0"
proof -
  have "vm_ok 8 (demo_validity [255])" by (rule demo_validity_ok) simp
  moreover have "vm_data (demo_validity [255]) = Some [255]" by (simp add: demo_validity_def)
  ultimately show ?thesis
    using process_mask_for_column_loses_rows [OF demo_mask_alloc_wf demo_mask_holds, of 8 "demo_validity [255]" "[255]"]
    unfolding demo_rows_length by (auto simp: demo_mask_simps)
qed

end
