(* ===== verification/Column_Data.thy ===== *)
theory Column_Data
  imports Column_Masks
begin

unbundle bit_operations_syntax

text \<open>
  Correctness of whole columns. A fixed-width column is the bytes of its rows and their validities; a
  VARCHAR column is a list of optional strings, held as 32-bit end offsets, the concatenated bytes of
  the valid strings, and the mask. Appending a vector extends the column and touches only bytes
  of the column's own region, so the columns of one allocation do not disturb each other.
\<close>

section \<open>Regions\<close>

definition untouched :: "nat \<Rightarrow> nat \<Rightarrow> alloc \<Rightarrow> alloc \<Rightarrow> bool" where
  "untouched lo hi al al' \<longleftrightarrow> wf_alloc al' \<and> (\<forall>b. cursor_ok al' b = cursor_ok al b) \<and>
     al_block_size al' = al_block_size al \<and> length (flat al') = length (flat al) \<and>
     (\<forall>i < length (flat al). i < lo \<or> hi \<le> i \<longrightarrow> flat al' ! i = flat al ! i)"

definition data_holds :: "alloc \<Rightarrow> accessor \<Rightarrow> byte list \<Rightarrow> bool" where
  "data_holds al a bytes \<longleftrightarrow> cursor_ok al a \<and> position a = initial_byte_offset a + length bytes \<and>
     initial_byte_offset a + length bytes \<le> length (flat al) \<and>
     read_at (initial_byte_offset a) (length bytes) (flat al) = bytes"

lemma untouched_refl: "wf_alloc al \<Longrightarrow> untouched lo hi al al"
  by (simp add: untouched_def)

lemma untouched_trans:
  "untouched lo hi al al1 \<Longrightarrow> untouched lo' hi' al1 al2 \<Longrightarrow> lo \<le> lo' \<Longrightarrow> hi' \<le> hi \<Longrightarrow> untouched lo hi al al2"
  by (auto simp: untouched_def)

lemma untouched_mono:
  "untouched lo hi al al' \<Longrightarrow> lo' \<le> lo \<Longrightarrow> hi \<le> hi' \<Longrightarrow> untouched lo' hi' al al'"
  by (auto simp: untouched_def)

lemma wrote_untouched:
  assumes "wrote al p bs al'" and "lo \<le> p" and "p + length bs \<le> hi"
  shows "untouched lo hi al al'"
  using assms wroteD [OF assms(1)] wrote_length [OF assms(1)]
  by (auto simp: untouched_def nth_write_at)

lemma untouched_read:
  assumes "untouched lo hi al al'" and "p + n \<le> lo \<or> hi \<le> p" and "p + n \<le> length (flat al)"
  shows "read_at p n (flat al') = read_at p n (flat al)"
  using assms by (intro nth_equalityI) (auto simp: untouched_def nth_read_at)

lemma untouchedD:
  assumes "untouched lo hi al al'"
  shows "wf_alloc al'" "cursor_ok al' b = cursor_ok al b" "al_block_size al' = al_block_size al"
    "length (flat al') = length (flat al)"
  using assms by (simp_all add: untouched_def)

lemma data_holds_untouched:
  assumes "data_holds al a bytes" and "untouched lo hi al al'"
    and "initial_byte_offset a + length bytes \<le> lo \<or> hi \<le> initial_byte_offset a"
  shows "data_holds al' a bytes"
  using assms untouchedD [OF assms(2)] untouched_read [OF assms(2,3)] by (simp add: data_holds_def)

lemma mask_holds_untouched:
  assumes "mask_holds al a bits" and "untouched lo hi al al'"
    and "initial_byte_offset a + (length bits + 7) div 8 \<le> lo \<or> hi \<le> initial_byte_offset a"
  shows "mask_holds al' a bits"
  using assms untouchedD [OF assms(2)] untouched_read [OF assms(2,3)] by (simp add: mask_holds_def)

lemma data_append:
  assumes wf: "wf_alloc al" and holds: "data_holds al a bytes"
    and room: "position a + length src \<le> length (flat al)"
  obtains a' al' where "memcpy_from src a al = Inr (a', al')" and "wrote al (position a) src al'"
    and "data_holds al' a' (bytes @ src)" and "initial_byte_offset a' = initial_byte_offset a"
proof -
  have a: "cursor_ok al a" "position a = initial_byte_offset a + length bytes"
    using holds by (simp_all add: data_holds_def)
  obtain a' al' where r: "memcpy_from src a al = Inr (a', al')" "wrote al (position a) src al'"
    "cursor_ok al' a'" "position a' = position a + length src" "initial_byte_offset a' = initial_byte_offset a"
    by (rule memcpy_from_wrote [OF wf a(1) room])
  have "read_at (initial_byte_offset a) (length bytes + length src) (flat al') = bytes @ src"
    using read_at_extend [of "position a" src "flat al" "length src" "initial_byte_offset a"]
      a(2) room holds wroteD(2) [OF r(2)] by (simp add: data_holds_def)
  with r a room wrote_length [OF r(2)] show ?thesis
    by (intro that [of a' al']) (simp_all add: data_holds_def)
qed

section \<open>Fixed-width columns\<close>

definition fixed_column :: "alloc \<Rightarrow> column_builder \<Rightarrow> byte list \<Rightarrow> bool list \<Rightarrow> bool" where
  "fixed_column al cb bytes bits \<longleftrightarrow> \<not> is_varchar (cb_type cb) \<and>
     data_holds al (data_blocks_accessor cb) bytes \<and> mask_holds al (mask_blocks_accessor cb) bits \<and>
     length bytes = type_size cb * length bits \<and> total_data_bytes cb = length bytes \<and>
     null_count cb = length (filter Not bits)"

text \<open>What an append never changes: the column's type and where its regions start.\<close>

definition same_column :: "column_builder \<Rightarrow> column_builder \<Rightarrow> bool" where
  "same_column cb cb' \<longleftrightarrow> cb_type cb' = cb_type cb \<and> type_size cb' = type_size cb \<and>
     total_data_bytes_allocated cb' = total_data_bytes_allocated cb \<and>
     initial_byte_offset (data_blocks_accessor cb') = initial_byte_offset (data_blocks_accessor cb) \<and>
     initial_byte_offset (mask_blocks_accessor cb') = initial_byte_offset (mask_blocks_accessor cb) \<and>
     initial_byte_offset (offset_blocks_accessor cb') = initial_byte_offset (offset_blocks_accessor cb)"

text \<open>
  The rows of a chunk fit a column: the mask's supported case, the data region ends before the mask
  region, and the mask region, with the byte of the next row, ends before \<open>hi\<close>.
\<close>

definition chunk_mask_ok :: "validity_mask \<Rightarrow> nat \<Rightarrow> nat \<Rightarrow> bool" where
  "chunk_mask_ok v n rows \<longleftrightarrow> vm_ok n v \<and> n < 2 ^ 32 \<and> mask_append_ok v n rows"

definition mask_end :: "column_builder \<Rightarrow> nat \<Rightarrow> nat" where
  "mask_end cb rows = initial_byte_offset (mask_blocks_accessor cb) + rows div 8 + 1"

lemma mask_append_column:
  assumes wf: "wf_alloc al" and holds: "mask_holds al (mask_blocks_accessor cb) bits"
    and v: "chunk_mask_ok v n (length bits)" and room: "mask_end cb (length bits + n) \<le> length (flat al)"
  obtains a' al' where "process_mask_for_column v n (length bits) cb al =
      Inr (cb\<lparr>null_count := null_count cb + length (filter Not (row_bits v n)), mask_blocks_accessor := a'\<rparr>, al')"
    and "mask_holds al' a' (bits @ row_bits v n)"
    and "untouched (initial_byte_offset (mask_blocks_accessor cb)) (mask_end cb (length bits + n)) al al'"
    and "initial_byte_offset a' = initial_byte_offset (mask_blocks_accessor cb)"
proof -
  let ?a = "mask_blocks_accessor cb"
  have "initial_byte_offset ?a + (length bits + n) div 8 < length (flat al)" using room by (simp add: mask_end_def)
  then obtain a' al' outs where r: "process_mask_for_column v n (length bits) cb al =
      Inr (cb\<lparr>null_count := null_count cb + (if vm_data v = None then 0 else n - vm_count_valid v n),
         mask_blocks_accessor := a'\<rparr>, al')" "mask_holds al' a' (bits @ row_bits v n)"
    "wrote al (position ?a) outs al'" "initial_byte_offset a' = initial_byte_offset ?a"
    "position ?a + length outs \<le> position a' + 1"
    using process_mask_appends [OF wf holds, of n v] v by (auto simp: chunk_mask_ok_def)
  have "initial_byte_offset ?a \<le> position ?a" "position a' + 1 = mask_end cb (length bits + n)"
    using holds r(2,4) by (simp_all add: mask_holds_def mask_end_def)
  with r v show ?thesis
    by (intro that [of a' al']) (auto simp: null_rows chunk_mask_ok_def intro: wrote_untouched)
qed

lemma process_fixed_column:
  assumes wf: "wf_alloc al" and col: "fixed_column al cb bytes bits"
    and v: "chunk_mask_ok v n (length bits)" and src: "type_size cb * n \<le> length (vec_data vec)"
    and gap: "initial_byte_offset (data_blocks_accessor cb) + type_size cb * (length bits + n)
      \<le> initial_byte_offset (mask_blocks_accessor cb)"
    and room: "mask_end cb (length bits + n) \<le> length (flat al)"
  obtains cb' al' where "process_column vec v n (length bits) cb al = Inr (cb', al')"
    and "fixed_column al' cb' (bytes @ take (type_size cb * n) (vec_data vec)) (bits @ row_bits v n)"
    and "untouched (initial_byte_offset (data_blocks_accessor cb)) (mask_end cb (length bits + n)) al al'"
    and "same_column cb cb'"
proof -
  let ?src = "take (type_size cb * n) (vec_data vec)" and ?da = "data_blocks_accessor cb"
  have c: "\<not> is_varchar (cb_type cb)" "data_holds al ?da bytes" "mask_holds al (mask_blocks_accessor cb) bits"
    "length bytes = type_size cb * length bits" "total_data_bytes cb = length bytes"
    "null_count cb = length (filter Not bits)"
    using col by (simp_all add: fixed_column_def)
  have len: "length ?src = type_size cb * n" using src by simp
  have pos: "position ?da = initial_byte_offset ?da + length bytes" using c(2) by (simp add: data_holds_def)
  have end_le: "position ?da + length ?src \<le> initial_byte_offset (mask_blocks_accessor cb)"
    using pos len c(4) gap by (simp add: distrib_left)
  then have "position ?da + length ?src \<le> length (flat al)" using room by (simp add: mask_end_def)
  from data_append [OF wf c(2) this] obtain da al1 where
    d: "memcpy_from ?src ?da al = Inr (da, al1)" "wrote al (position ?da) ?src al1"
      "data_holds al1 da (bytes @ ?src)" "initial_byte_offset da = initial_byte_offset ?da"
    by blast
  have ut1: "untouched (initial_byte_offset ?da) (initial_byte_offset (mask_blocks_accessor cb)) al al1"
    using wrote_untouched [OF d(2)] pos end_le by simp
  let ?cb1 = "cb\<lparr>data_blocks_accessor := da, total_data_bytes := total_data_bytes cb + type_size cb * n\<rparr>"
  have m: "mask_holds al1 (mask_blocks_accessor ?cb1) bits"
    using mask_holds_untouched [OF c(3) ut1] by simp
  have "mask_end ?cb1 (length bits + n) \<le> length (flat al1)"
    using room untouchedD(4) [OF ut1] by (simp add: mask_end_def)
  from mask_append_column [OF untouchedD(1) [OF ut1] m v this] obtain ma al2 where
    p: "process_mask_for_column v n (length bits) ?cb1 al1 =
      Inr (?cb1\<lparr>null_count := null_count ?cb1 + length (filter Not (row_bits v n)), mask_blocks_accessor := ma\<rparr>, al2)"
      "mask_holds al2 ma (bits @ row_bits v n)"
      "untouched (initial_byte_offset (mask_blocks_accessor cb)) (mask_end cb (length bits + n)) al1 al2"
      "initial_byte_offset ma = initial_byte_offset (mask_blocks_accessor cb)"
    by (auto simp: mask_end_def)
  have "data_holds al2 da (bytes @ ?src)"
    using data_holds_untouched [OF d(3) p(3)] d(4) pos end_le by simp
  moreover have "untouched (initial_byte_offset ?da) (mask_end cb (length bits + n)) al al2"
    using untouched_trans [OF untouched_mono [OF ut1] p(3)] pos end_le by (simp add: mask_end_def)
  ultimately show ?thesis
    using c d p len by (intro that [of "?cb1\<lparr>null_count := null_count ?cb1 + length (filter Not (row_bits v n)), mask_blocks_accessor := ma\<rparr>" al2])
      (simp_all add: process_column_def Let_def fixed_column_def same_column_def distrib_left)
qed

section \<open>Offsets\<close>

definition string_heap :: "byte list option list \<Rightarrow> byte list" where
  "string_heap col = concat (map (\<lambda>x. case x of None \<Rightarrow> [] | Some str \<Rightarrow> str) col)"

definition end_offsets :: "byte list option list \<Rightarrow> 32 word list" where
  "end_offsets col = map (\<lambda>k. of_nat (length (string_heap (take k col)))) [0..<length col + 1]"

definition offset_bytes :: "byte list option list \<Rightarrow> byte list" where
  "offset_bytes col = concat (map int32_bytes (end_offsets col))"

definition offsets_hold :: "alloc \<Rightarrow> accessor \<Rightarrow> byte list option list \<Rightarrow> bool" where
  "offsets_hold al a col \<longleftrightarrow> cursor_ok al a \<and> position a = initial_byte_offset a + 4 * length col \<and>
     initial_byte_offset a + 4 * (length col + 1) \<le> length (flat al) \<and>
     initial_byte_offset a mod 4 = 0 \<and> al_block_size al mod 4 = 0 \<and>
     read_at (initial_byte_offset a) (4 * (length col + 1)) (flat al) = offset_bytes col"

lemma length_int32_bytes [simp]: "length (int32_bytes w) = 4"
  by (simp add: int32_bytes_def)

lemma byte_split: "(ucast (ucast w :: byte) :: 32 word) OR push_bit 8 (drop_bit 8 w) = w"
proof (rule bit_word_eqI)
  fix n :: nat
  assume "n < LENGTH(32)"
  then show "bit ((ucast (ucast w :: byte) :: 32 word) OR push_bit 8 (drop_bit 8 w)) n = bit w n"
    by (cases "n < 8") (simp_all add: bit_simps)
qed

lemma top_byte: "(ucast (ucast (drop_bit 24 w) :: byte) :: 32 word) = drop_bit 24 w"
proof (rule bit_word_eqI)
  fix n :: nat
  assume "n < LENGTH(32)"
  then show "bit (ucast (ucast (drop_bit 24 w) :: byte) :: 32 word) n = bit (drop_bit 24 w) n"
    using bit_imp_le_length [of w "24 + n"] by (cases "n < 8") (auto simp: bit_simps)
qed

lemma bytes_int32_bytes [simp]: "bytes_int32 (int32_bytes w) = w"
proof -
  have "bytes_int32 (int32_bytes w) = ucast (ucast w :: byte) OR push_bit 8 (ucast (ucast (drop_bit 8 w) :: byte) OR
    push_bit 8 (ucast (ucast (drop_bit 16 w) :: byte) OR push_bit 8 (ucast (ucast (drop_bit 24 w) :: byte))))"
    by (simp add: bytes_int32_def int32_bytes_def upt_conv_Cons)
  also have "\<dots> = w"
    using byte_split [of w] byte_split [of "drop_bit 8 w"] byte_split [of "drop_bit 16 w"]
    by (simp add: top_byte)
  finally show ?thesis .
qed

lemma string_heap_append: "string_heap (col @ new) = string_heap col @ string_heap new"
  by (simp add: string_heap_def)

lemma length_end_offsets [simp]: "length (end_offsets col) = length col + 1"
  by (simp add: end_offsets_def)

lemma end_offsets_snoc:
  "end_offsets (col @ [x]) = end_offsets col @ [of_nat (length (string_heap (col @ [x])))]"
proof -
  have "map (\<lambda>k. of_nat (length (string_heap (take k (col @ [x])))) :: 32 word) [0..<length col + 1] = end_offsets col"
    unfolding end_offsets_def by (rule map_cong) auto
  then show ?thesis by (simp add: end_offsets_def)
qed

lemma last_end_offset: "last (end_offsets col) = of_nat (length (string_heap col))"
  by (simp add: end_offsets_def)

lemma length_offset_bytes [simp]: "length (offset_bytes col) = 4 * (length col + 1)"
  by (simp add: offset_bytes_def length_concat comp_def sum_list_triv)

lemma offset_bytes_snoc:
  "offset_bytes (col @ [x]) = offset_bytes col @ int32_bytes (of_nat (length (string_heap (col @ [x]))))"
  by (simp add: offset_bytes_def end_offsets_snoc)

lemma last_offset_bytes:
  "drop (4 * length col) (offset_bytes col) = int32_bytes (of_nat (length (string_heap col)))"
  by (cases col rule: rev_cases) (simp_all add: offset_bytes_snoc offset_bytes_def [of "[]"] end_offsets_def string_heap_def)

lemma offsets_hold_current:
  assumes "wf_alloc al" and "offsets_hold al a col"
  shows "get_current_as 4 a al = Inr (int32_bytes (of_nat (length (string_heap col))))"
    and "cursor_ok al (advance_as 4 a)" and "position (advance_as 4 a) = position a + 4"
    and "initial_byte_offset (advance_as 4 a) = initial_byte_offset a"
proof -
  have a: "cursor_ok al a" "position a = initial_byte_offset a + 4 * length col"
    "initial_byte_offset a + 4 * (length col + 1) \<le> length (flat al)"
    "read_at (initial_byte_offset a) (4 * (length col + 1)) (flat al) = offset_bytes col"
    "al_block_size al mod 4 = 0" "initial_byte_offset a mod 4 = 0"
    using assms(2) by (simp_all add: offsets_hold_def)
  have off: "offset_in_block a + 4 \<le> al_block_size al"
    using aligned_fits [OF a(5,1)] a(2,6) by simp
  have "read_at (position a) 4 (flat al) = drop (4 * length col) (offset_bytes col)"
    unfolding a(4) [symmetric] using a(2,3) by (simp add: read_at_def drop_take add.commute)
  then show "get_current_as 4 a al = Inr (int32_bytes (of_nat (length (string_heap col))))"
    using get_current_ok [OF assms(1) a(1) _ off] a(2,3) by (simp add: last_offset_bytes)
  show "cursor_ok al (advance_as 4 a)" "position (advance_as 4 a) = position a + 4"
    "initial_byte_offset (advance_as 4 a) = initial_byte_offset a"
    using advance_ok [OF a(1) off] assms(1) by (simp_all add: wf_alloc_def)
qed

lemma offsets_append:
  assumes wf: "wf_alloc al" and holds: "offsets_hold al a col"
    and room: "initial_byte_offset a + 4 * (length col + 2) \<le> length (flat al)"
  obtains al' where
    "set_current (int32_bytes (of_nat (length (string_heap (col @ [x]))))) (advance_as 4 a) al = Inr al'"
    and "wrote al (position a + 4) (int32_bytes (of_nat (length (string_heap (col @ [x]))))) al'"
    and "offsets_hold al' (advance_as 4 a) (col @ [x])"
proof -
  let ?b = "advance_as 4 a" and ?v = "int32_bytes (of_nat (length (string_heap (col @ [x]))))"
  have a: "position a = initial_byte_offset a + 4 * length col" "al_block_size al mod 4 = 0"
    "initial_byte_offset a mod 4 = 0"
    "read_at (initial_byte_offset a) (4 * (length col + 1)) (flat al) = offset_bytes col"
    using holds by (simp_all add: offsets_hold_def)
  note b = offsets_hold_current(2-4) [OF wf holds]
  have off: "offset_in_block ?b + 4 \<le> al_block_size al"
    using aligned_fits [OF a(2) b(1)] b(2) a(1,3) by simp
  obtain al' where w: "set_current ?v ?b al = Inr al'" "wrote al (position ?b) ?v al'"
    using set_current_wrote [OF wf b(1), of ?v] off b(2) a(1) room by auto
  have "read_at (initial_byte_offset a) (4 * (length col + 1) + 4) (flat al') = offset_bytes (col @ [x])"
    using read_at_extend [of "position ?b" ?v "flat al" 4 "initial_byte_offset a"] wroteD(2) [OF w(2)]
      b(2) a(1,4) room by (simp add: offset_bytes_snoc add.commute)
  then have "offsets_hold al' ?b (col @ [x])"
    using b a room wroteD [OF w(2)] wrote_length [OF w(2)] by (simp add: offsets_hold_def)
  with w b(2) show ?thesis by (intro that) simp_all
qed

lemma offsets_hold_untouched:
  assumes "offsets_hold al a col" and "untouched lo hi al al'"
    and "initial_byte_offset a + 4 * (length col + 1) \<le> lo \<or> hi \<le> initial_byte_offset a"
  shows "offsets_hold al' a col"
  using assms untouchedD [OF assms(2)] untouched_read [OF assms(2,3)] by (simp add: offsets_hold_def)

section \<open>VARCHAR columns\<close>

definition row_value :: "vector \<Rightarrow> validity_mask \<Rightarrow> nat \<Rightarrow> byte list option" where
  "row_value vec v r = (if vm_row_is_valid v r then Some (vec_strings vec ! r) else None)"

definition varchar_column :: "alloc \<Rightarrow> column_builder \<Rightarrow> byte list option list \<Rightarrow> bool" where
  "varchar_column al cb col \<longleftrightarrow> is_varchar (cb_type cb) \<and> offsets_hold al (offset_blocks_accessor cb) col \<and>
     data_holds al (data_blocks_accessor cb) (string_heap col) \<and>
     mask_holds al (mask_blocks_accessor cb) (map (\<lambda>x. x \<noteq> None) col) \<and>
     total_data_bytes cb = length (string_heap col) \<and>
     null_count cb = length (filter (\<lambda>x. x = None) col)"

lemma string_heap_simps [simp]:
  "string_heap [] = []" "string_heap [None] = []" "string_heap [Some str] = str"
  by (simp_all add: string_heap_def)

lemma string_heap_Cons: "string_heap (x # col) = string_heap [x] @ string_heap col"
  by (simp add: string_heap_def)

lemma memcpy_from_Nil: "memcpy_from [] a al = Inr (a, al)"
  by (subst memcpy_from.simps) simp

text \<open>One iteration of the row loop.\<close>

lemma varchar_row_step:
  assumes wf: "wf_alloc al" and offs: "offsets_hold al oa col" and data: "data_holds al da (string_heap col)"
    and gap: "initial_byte_offset oa + 4 * (length col + 2) \<le> initial_byte_offset da"
    and room: "initial_byte_offset da + length (string_heap (col @ [row_value vec v r])) \<le> length (flat al)"
  obtains da' al' where
    "\<And>rows d. varchar_rows vec v (r # rows) d oa da al =
       varchar_rows vec v rows (d + length (string_heap [row_value vec v r])) (advance_as 4 oa) da' al'"
    and "offsets_hold al' (advance_as 4 oa) (col @ [row_value vec v r])"
    and "data_holds al' da' (string_heap (col @ [row_value vec v r]))"
    and "untouched (initial_byte_offset oa)
      (initial_byte_offset da + length (string_heap (col @ [row_value vec v r]))) al al'"
    and "initial_byte_offset da' = initial_byte_offset da"
proof -
  define x where "x = row_value vec v r"
  have pos: "position oa = initial_byte_offset oa + 4 * length col"
    "position da = initial_byte_offset da + length (string_heap col)"
    using offs data by (simp_all add: offsets_hold_def data_holds_def)
  have heap: "string_heap (col @ [x]) = string_heap col @ string_heap [x]" by (rule string_heap_append)
  have "initial_byte_offset oa + 4 * (length col + 2) \<le> length (flat al)" using gap room by linarith
  from offsets_append [OF wf offs this, of x] obtain al1 where
    o: "set_current (int32_bytes (of_nat (length (string_heap (col @ [x]))))) (advance_as 4 oa) al = Inr al1"
      "wrote al (position oa + 4) (int32_bytes (of_nat (length (string_heap (col @ [x]))))) al1"
      "offsets_hold al1 (advance_as 4 oa) (col @ [x])" by blast
  note cur = offsets_hold_current [OF wf offs]
  have ut1: "untouched (initial_byte_offset oa) (initial_byte_offset da) al al1"
    using pos(1) gap by (intro wrote_untouched [OF o(2)]) simp_all
  have d1: "data_holds al1 da (string_heap col)" by (rule data_holds_untouched [OF data ut1]) simp
  have "position da + length (string_heap [x]) \<le> length (flat al1)"
    using pos(2) room untouchedD(4) [OF ut1] by (simp add: x_def [symmetric] heap)
  from data_append [OF untouchedD(1) [OF ut1] d1 this] obtain da' al' where
    m: "memcpy_from (string_heap [x]) da al1 = Inr (da', al')" "wrote al1 (position da) (string_heap [x]) al'"
      "data_holds al' da' (string_heap col @ string_heap [x])" "initial_byte_offset da' = initial_byte_offset da"
    by blast
  have ut2: "untouched (initial_byte_offset da) (initial_byte_offset da + length (string_heap (col @ [x]))) al1 al'"
    using pos(2) by (intro wrote_untouched [OF m(2)]) (simp_all add: heap)
  have o2: "offsets_hold al' (advance_as 4 oa) (col @ [x])"
    by (rule offsets_hold_untouched [OF o(3) ut2]) (use gap cur(4) in simp)
  have ut: "untouched (initial_byte_offset oa) (initial_byte_offset da + length (string_heap (col @ [x]))) al al'"
    by (rule untouched_trans [OF untouched_mono [OF ut1 order_refl] ut2]) (use gap in simp_all)
  have step: "varchar_rows vec v (r # rows) d oa da al =
      varchar_rows vec v rows (d + length (string_heap [x])) (advance_as 4 oa) da' al'" for rows d
  proof (cases "vm_row_is_valid v r")
    case True
    then have "x = Some (vec_strings vec ! r)" by (simp add: x_def row_value_def)
    with True o(1) m(1) cur(1) show ?thesis by (simp add: Let_def string_heap_append)
  next
    case False
    then have x: "x = None" by (simp add: x_def row_value_def)
    then have "da' = da" "al' = al1" using m(1) by (simp_all add: memcpy_from_Nil)
    with False x o(1) cur(1) show ?thesis by (simp add: Let_def string_heap_append)
  qed
  show ?thesis
    by (rule that [of da' al'], unfold x_def [symmetric]) (use step o2 m(3,4) ut in \<open>simp_all add: heap\<close>)
qed

lemma varchar_rows_ok:
  assumes "wf_alloc al" and "offsets_hold al oa col" and "data_holds al da (string_heap col)"
    and "initial_byte_offset oa + 4 * (length col + length rows + 1) \<le> initial_byte_offset da"
    and "initial_byte_offset da + length (string_heap (col @ map (row_value vec v) rows)) \<le> length (flat al)"
  shows "\<exists>oa' da' al'. varchar_rows vec v rows d oa da al =
      Inr (d + length (string_heap (map (row_value vec v) rows)), oa', da', al') \<and>
    offsets_hold al' oa' (col @ map (row_value vec v) rows) \<and>
    data_holds al' da' (string_heap (col @ map (row_value vec v) rows)) \<and>
    untouched (initial_byte_offset oa)
      (initial_byte_offset da + length (string_heap (col @ map (row_value vec v) rows))) al al' \<and>
    initial_byte_offset da' = initial_byte_offset da \<and> initial_byte_offset oa' = initial_byte_offset oa"
  using assms
proof (induction rows arbitrary: col d oa da al)
  case Nil
  then show ?case by (simp add: untouched_refl)
next
  case (Cons r rows)
  let ?x = "row_value vec v r" and ?m = "map (row_value vec v)"
  have len: "length (string_heap (col @ [?x])) \<le> length (string_heap (col @ ?m (r # rows)))"
    by (simp add: string_heap_append string_heap_Cons [of _ "?m rows"])
  have "initial_byte_offset oa + 4 * (length col + 2) \<le> initial_byte_offset da"
    "initial_byte_offset da + length (string_heap (col @ [?x])) \<le> length (flat al)"
    using Cons.prems(4,5) len by simp_all
  then obtain da1 al1 where
    st: "\<And>rows d. varchar_rows vec v (r # rows) d oa da al =
       varchar_rows vec v rows (d + length (string_heap [?x])) (advance_as 4 oa) da1 al1"
      "offsets_hold al1 (advance_as 4 oa) (col @ [?x])" "data_holds al1 da1 (string_heap (col @ [?x]))"
      "untouched (initial_byte_offset oa) (initial_byte_offset da + length (string_heap (col @ [?x]))) al al1"
      "initial_byte_offset da1 = initial_byte_offset da"
    by (rule varchar_row_step [OF Cons.prems(1,2,3)]) blast
  note io = offsets_hold_current(4) [OF Cons.prems(1,2)]
  have "initial_byte_offset (advance_as 4 oa) + 4 * (length (col @ [?x]) + length rows + 1) \<le> initial_byte_offset da1"
    "initial_byte_offset da1 + length (string_heap ((col @ [?x]) @ ?m rows)) \<le> length (flat al1)"
    using Cons.prems(4,5) st(5) io untouchedD(4) [OF st(4)] by simp_all
  from Cons.IH [OF untouchedD(1) [OF st(4)] st(2,3) this, of "d + length (string_heap [?x])"] obtain oa' da' al' where
    r: "varchar_rows vec v rows (d + length (string_heap [?x])) (advance_as 4 oa) da1 al1 =
      Inr (d + length (string_heap [?x]) + length (string_heap (?m rows)), oa', da', al')"
      "offsets_hold al' oa' ((col @ [?x]) @ ?m rows)" "data_holds al' da' (string_heap ((col @ [?x]) @ ?m rows))"
      "untouched (initial_byte_offset oa)
        (initial_byte_offset da + length (string_heap ((col @ [?x]) @ ?m rows))) al1 al'"
      "initial_byte_offset da' = initial_byte_offset da" "initial_byte_offset oa' = initial_byte_offset oa"
    using st(5) io by auto
  have "untouched (initial_byte_offset oa)
      (initial_byte_offset da + length (string_heap (col @ ?m (r # rows)))) al al'"
    using untouched_trans [OF untouched_mono [OF st(4)] r(4)] len by simp
  with r show ?case
    unfolding st(1) by (intro exI [of _ oa'] exI [of _ da'] exI [of _ al'])
      (simp add: string_heap_Cons [of _ "?m rows"])
qed

definition row_values :: "vector \<Rightarrow> validity_mask \<Rightarrow> nat \<Rightarrow> byte list option list" where
  "row_values vec v n = map (row_value vec v) [0..<n]"

lemma row_values_bits:
  "length (row_values vec v n) = n"
  "map (\<lambda>x. x \<noteq> None) (row_values vec v n) = row_bits v n"
  "length (filter (\<lambda>x. x = None) (row_values vec v n)) = length (filter Not (row_bits v n))"
  by (simp_all add: row_values_def row_bits_def row_value_def comp_def filter_map)

lemma process_varchar_column:
  assumes wf: "wf_alloc al" and col: "varchar_column al cb col"
    and v: "chunk_mask_ok v n (length col)"
    and gap: "initial_byte_offset (offset_blocks_accessor cb) + 4 * (length col + n + 1)
      \<le> initial_byte_offset (data_blocks_accessor cb)"
    and gap': "initial_byte_offset (data_blocks_accessor cb) + length (string_heap (col @ row_values vec v n))
      \<le> initial_byte_offset (mask_blocks_accessor cb)"
    and room: "mask_end cb (length col + n) \<le> length (flat al)"
  obtains cb' al' where "process_column vec v n (length col) cb al = Inr (cb', al')"
    and "varchar_column al' cb' (col @ row_values vec v n)"
    and "untouched (initial_byte_offset (offset_blocks_accessor cb)) (mask_end cb (length col + n)) al al'"
    and "same_column cb cb'"
proof -
  let ?da = "data_blocks_accessor cb" and ?oa = "offset_blocks_accessor cb" and ?new = "row_values vec v n"
  let ?bits = "map (\<lambda>x. x \<noteq> None) col"
  have c: "is_varchar (cb_type cb)" "offsets_hold al ?oa col" "data_holds al ?da (string_heap col)"
    "mask_holds al (mask_blocks_accessor cb) ?bits" "total_data_bytes cb = length (string_heap col)"
    "null_count cb = length (filter (\<lambda>x. x = None) col)"
    using col by (simp_all add: varchar_column_def)
  have "initial_byte_offset ?da + length (string_heap (col @ ?new)) \<le> length (flat al)"
    using gap' room by (simp add: mask_end_def)
  then obtain oa da al1 where
    d: "varchar_rows vec v [0..<n] 0 ?oa ?da al = Inr (length (string_heap ?new), oa, da, al1)"
      "offsets_hold al1 oa (col @ ?new)" "data_holds al1 da (string_heap (col @ ?new))"
      "untouched (initial_byte_offset ?oa) (initial_byte_offset ?da + length (string_heap (col @ ?new))) al al1"
      "initial_byte_offset da = initial_byte_offset ?da" "initial_byte_offset oa = initial_byte_offset ?oa"
    using varchar_rows_ok [OF wf c(2,3), of "[0..<n]" vec v 0] gap by (auto simp: row_values_def)
  let ?cb1 = "cb\<lparr>offset_blocks_accessor := oa, data_blocks_accessor := da,
    total_data_bytes := total_data_bytes cb + length (string_heap ?new)\<rparr>"
  have m: "mask_holds al1 (mask_blocks_accessor ?cb1) ?bits"
    using mask_holds_untouched [OF c(4) d(4)] gap' by simp
  have "mask_end ?cb1 (length ?bits + n) \<le> length (flat al1)"
    using room untouchedD(4) [OF d(4)] by (simp add: mask_end_def)
  moreover have "chunk_mask_ok v n (length ?bits)" using v by simp
  ultimately obtain ma al2 where
    p: "process_mask_for_column v n (length col) ?cb1 al1 =
      Inr (?cb1\<lparr>null_count := null_count ?cb1 + length (filter Not (row_bits v n)), mask_blocks_accessor := ma\<rparr>, al2)"
      "mask_holds al2 ma (?bits @ row_bits v n)"
      "untouched (initial_byte_offset (mask_blocks_accessor cb)) (mask_end cb (length col + n)) al1 al2"
      "initial_byte_offset ma = initial_byte_offset (mask_blocks_accessor cb)"
    using mask_append_column [OF untouchedD(1) [OF d(4)] m, of v n] by (auto simp: mask_end_def)
  have "data_holds al2 da (string_heap (col @ ?new))"
    using data_holds_untouched [OF d(3) p(3)] d(5) gap' by simp
  moreover have "offsets_hold al2 oa (col @ ?new)"
    using offsets_hold_untouched [OF d(2) p(3)] d(6) gap gap' by (simp add: row_values_bits)
  moreover have "untouched (initial_byte_offset ?oa) (mask_end cb (length col + n)) al al2"
    using untouched_trans [OF untouched_mono [OF d(4)] p(3)] gap gap' by (simp add: mask_end_def)
  ultimately show ?thesis
    using c d(1,5,6) p
    by (intro that [of "?cb1\<lparr>null_count := null_count ?cb1 + length (filter Not (row_bits v n)), mask_blocks_accessor := ma\<rparr>" al2])
      (simp_all add: process_column_def varchar_column_def same_column_def row_values_bits string_heap_append del: not_None_eq)
qed

section \<open>Freshly initialized columns\<close>

definition fresh_builder :: "column_builder \<Rightarrow> bool" where
  "fresh_builder cb \<longleftrightarrow> total_data_bytes cb = 0 \<and> null_count cb = 0"

lemma data_holds_fresh:
  assumes "wf_alloc al" and "p \<le> length (flat al)"
  obtains a' where "acc_initialize 1 p al a = Inr a'" and "data_holds al a' []" and "mask_holds al a' []"
    and "initial_byte_offset a' = p"
  using initialize_ok [OF assms(1), of 1 p a] assms(2)
  by (auto simp: data_holds_def mask_holds_def pack_def read_at_def)

lemma initialize_fixed_column:
  assumes wf: "wf_alloc al" and cb: "fresh_builder cb" "\<not> is_varchar (cb_type cb)" and "al_blocks al \<noteq> []"
    and room: "p + rows * type_size cb \<le> length (flat al)"
  obtains cb' where "initialize_accessors rows p cb al = Inr (cb', al)" and "fixed_column al cb' [] []"
    and "initial_byte_offset (data_blocks_accessor cb') = p"
    and "initial_byte_offset (mask_blocks_accessor cb') = p + rows * type_size cb"
    and "cb_type cb' = cb_type cb" and "type_size cb' = type_size cb"
proof -
  obtain da where d: "acc_initialize 1 p al (data_blocks_accessor cb) = Inr da" "data_holds al da []"
    "initial_byte_offset da = p"
    using data_holds_fresh [OF wf, of p "data_blocks_accessor cb"] room by auto
  obtain ma where m: "acc_initialize 1 (p + rows * type_size cb) al (mask_blocks_accessor cb) = Inr ma"
    "mask_holds al ma []" "initial_byte_offset ma = p + rows * type_size cb"
    using data_holds_fresh [OF wf, of "p + rows * type_size cb" "mask_blocks_accessor cb"] room by auto
  show ?thesis
    by (rule that [of "cb\<lparr>data_blocks_accessor := da, mask_blocks_accessor := ma\<rparr>"])
      (use assms d m in \<open>simp_all add: initialize_accessors_def fixed_column_def fresh_builder_def\<close>)
qed

lemma initialize_varchar_column:
  assumes wf: "wf_alloc al" and cb: "fresh_builder cb" "is_varchar (cb_type cb)" and ne: "al_blocks al \<noteq> []"
    and al4: "p mod 4 = 0" "al_block_size al mod 4 = 0"
    and room: "p + (rows + 1) * 4 + rows * type_size cb \<le> length (flat al)"
  obtains cb' al' where "initialize_accessors rows p cb al = Inr (cb', al')" and "varchar_column al' cb' []"
    and "initial_byte_offset (offset_blocks_accessor cb') = p"
    and "initial_byte_offset (data_blocks_accessor cb') = p + (rows + 1) * 4"
    and "initial_byte_offset (mask_blocks_accessor cb') = p + (rows + 1) * 4 + rows * type_size cb"
    and "cb_type cb' = cb_type cb" and "type_size cb' = type_size cb"
    and "total_data_bytes_allocated cb' = rows * type_size cb"
    and "untouched p (p + 4) al al'"
proof -
  obtain oa where o: "acc_initialize 4 p al (offset_blocks_accessor cb) = Inr oa" "cursor_ok al oa"
    "position oa = p" "initial_byte_offset oa = p"
    using initialize_ok [OF wf al4(2)] by blast
  have off: "offset_in_block oa + 4 \<le> al_block_size al"
    using aligned_fits [OF al4(2) o(2)] o(3) al4(1) by simp
  obtain al' where w: "set_current (int32_bytes 0) oa al = Inr al'" "wrote al p (int32_bytes 0) al'"
    using set_current_wrote [OF wf o(2), of "int32_bytes 0"] off o(3) room by auto
  have ut: "untouched p (p + 4) al al'" using wrote_untouched [OF w(2)] by simp
  note al' = untouchedD [OF ut]
  have "read_at p 4 (flat al') = offset_bytes []"
    using wroteD(2) [OF w(2)] room
    by (simp add: read_at_def write_at_def offset_bytes_def end_offsets_def upt_conv_Cons)
  then have oh: "offsets_hold al' oa []"
    using o room al4 al' by (simp add: offsets_hold_def)
  let ?dp = "p + (rows + 1) * 4"
  obtain da where d: "acc_initialize 1 ?dp al' (data_blocks_accessor cb) = Inr da" "data_holds al' da []"
    "initial_byte_offset da = ?dp"
    using data_holds_fresh [OF al'(1), of ?dp "data_blocks_accessor cb"] room al'(4) by auto
  obtain ma where m: "acc_initialize 1 (?dp + rows * type_size cb) al' (mask_blocks_accessor cb) = Inr ma"
    "mask_holds al' ma []" "initial_byte_offset ma = ?dp + rows * type_size cb"
    using data_holds_fresh [OF al'(1), of "?dp + rows * type_size cb" "mask_blocks_accessor cb"] room al'(4) by auto
  show ?thesis
    by (rule that [of "cb\<lparr>offset_blocks_accessor := oa, total_data_bytes_allocated := rows * type_size cb,
          data_blocks_accessor := da, mask_blocks_accessor := ma\<rparr>" al'])
      (use cb ne o w oh d m ut in \<open>simp_all add: initialize_accessors_def varchar_column_def fresh_builder_def\<close>)
qed

section \<open>Properties\<close>


definition demo_block :: alloc where
  "demo_block = \<lparr>al_block_size = 24, al_blocks = [replicate 24 0]\<rparr>"

definition demo_builder :: "logical_type \<Rightarrow> nat \<Rightarrow> column_builder" where
  "demo_builder t sz = \<lparr>cb_type = t, type_size = sz, total_data_bytes = 0, total_data_bytes_allocated = 0,
     null_count = 0, data_blocks_accessor = uninitialized_accessor,
     mask_blocks_accessor = uninitialized_accessor, offset_blocks_accessor = uninitialized_accessor\<rparr>"

lemma demo_block_simps:
  "wf_alloc demo_block" "length (flat demo_block) = 24" "al_blocks demo_block \<noteq> []"
  "al_block_size demo_block = 24"
  by (simp_all add: wf_alloc_def demo_block_def flat_def)

lemma demo_builder_simps:
  "fresh_builder (demo_builder t sz)" "cb_type (demo_builder t sz) = t" "type_size (demo_builder t sz) = sz"
  by (simp_all add: demo_builder_def fresh_builder_def)

lemma demo_chunk_mask: "chunk_mask_ok (demo_validity [1]) 2 0"
  using demo_validity_ok [of 2 "[1]"] by (simp add: chunk_mask_ok_def mask_append_ok_def)

lemma demo_row_bits: "row_bits (demo_validity [1]) 2 = [True, False]"
  by (simp add: row_bits_def demo_validity_def upt_conv_Cons bit_1_iff)




end
