(* ===== verification/Scan_Batch.thy ===== *)
theory Scan_Batch
  imports Column_Data
begin

unbundle bit_operations_syntax

text \<open>
  The DuckDB scan task of \<^verbatim>\<open>src/op/scan/duckdb_scan_task.cpp\<close>: the estimate of the rows of a batch,
  the layout of the columns in one allocation, the loop that copies chunks into the column builders,
  the data batch made of them and the task that continues the scan. The table function of
  DuckDB is the parameter \<open>table_function\<close>: from its local state it gives a chunk and the next state, an
  empty chunk at the end of the scan range. Vectors are in flat form. Sizes are unbounded but
  for the one subtraction that can go below zero, which wraps at 64 bits.
\<close>

section \<open>States\<close>

record data_chunk =
  chunk_size :: nat
  chunk_data :: "(vector \<times> validity_mask) list"

record scan_local_state =
  approximate_batch_size :: nat
  default_varchar_size :: nat
  num_columns :: nat
  estimated_rows_per_batch :: nat
  column_builders :: "column_builder list"
  varchar_indices :: "nat list"
  scan_allocation :: alloc
  row_offset :: nat
  local_state_drained :: bool

record scan_global_state =
  source_drained :: bool
  active_local_states :: int

definition STANDARD_VECTOR_SIZE :: nat where "STANDARD_VECTOR_SIZE = 2048"

section \<open>Global state\<close>

definition set_source_drained :: "scan_global_state \<Rightarrow> scan_global_state" where
  "set_source_drained g = g\<lparr>source_drained := True\<rparr>"

definition increment_local_states :: "scan_global_state \<Rightarrow> scan_global_state" where
  "increment_local_states g = g\<lparr>active_local_states := active_local_states g + 1\<rparr>"

definition decrement_local_states :: "scan_global_state \<Rightarrow> scan_global_state" where
  "decrement_local_states g =
     (let remaining = active_local_states g - 1; g = g\<lparr>active_local_states := remaining\<rparr> in
      if remaining = 0 then set_source_drained g else g)"

section \<open>Layout of a batch\<close>

definition row_bytes_of :: "nat \<Rightarrow> logical_type \<Rightarrow> nat result" where
  "row_bytes_of varchar_size t =
     (if is_varchar t then Inr (4 + varchar_size) else fixed_width_byte_size t)"

definition varchar_positions :: "logical_type list \<Rightarrow> nat list" where
  "varchar_positions ts = filter (\<lambda>i. is_varchar (ts ! i)) [0..<length ts]"

definition estimate_rows_per_batch :: "logical_type list \<Rightarrow> scan_local_state \<Rightarrow> scan_local_state result" where
  "estimate_rows_per_batch scanned_types l =
     throw_if (num_columns l > length scanned_types)
       (Undefined_behaviour ''assert(_num_columns <= op.scanned_types.size())'')
     (let types = take (num_columns l) scanned_types in
      bind_result (map_result (\<lambda>t. make_column_builder t (default_varchar_size l)) types) (\<lambda>builders.
      bind_result (map_result (row_bytes_of (default_varchar_size l)) types) (\<lambda>bytes.
      let indices = varchar_positions types;
          estimated_row_bytes = sum_list bytes + ceil_div_8 (num_columns l);
          extra_varchar_offset_bytes = length indices * 4 in
      throw_if (estimated_row_bytes = 0) (Undefined_behaviour ''division by zero'')
      (let rows = size_sub (approximate_batch_size l) extra_varchar_offset_bytes div estimated_row_bytes in
       Inr (l\<lparr>column_builders := builders, varchar_indices := indices,
         estimated_rows_per_batch := max rows STANDARD_VECTOR_SIZE\<rparr>)))))"

text \<open>\<open>(byte_offset + 7) & ~7\<close>: the low three bits cleared.\<close>

definition align_up_8 :: "nat \<Rightarrow> nat" where
  "align_up_8 n = push_bit 3 (drop_bit 3 (n + 7))"

definition column_bytes :: "nat \<Rightarrow> nat \<Rightarrow> column_builder \<Rightarrow> nat" where
  "column_bytes rows varchar_size cb =
     (if is_varchar (cb_type cb) then (rows + 1) * 4 + rows * varchar_size + ceil_div_8 rows
      else rows * type_size cb + ceil_div_8 rows)"

fun initialize_columns ::
  "nat \<Rightarrow> nat \<Rightarrow> nat \<Rightarrow> column_builder list \<Rightarrow> alloc \<Rightarrow> (column_builder list \<times> alloc) result" where
  "initialize_columns rows varchar_size byte_offset [] al = Inr ([], al)"
| "initialize_columns rows varchar_size byte_offset (cb # cbs) al =
     (let start = align_up_8 byte_offset in
      bind_result (initialize_accessors rows start cb al) (\<lambda>(cb', al).
      bind_result (initialize_columns rows varchar_size (start + column_bytes rows varchar_size cb) cbs al)
        (\<lambda>(cbs', al). Inr (cb' # cbs', al))))"

definition initialize_builders :: "scan_local_state \<Rightarrow> scan_local_state result" where
  "initialize_builders l =
     bind_result (initialize_columns (estimated_rows_per_batch l) (default_varchar_size l) 0
       (column_builders l) (scan_allocation l)) (\<lambda>(cbs, al).
     Inr (l\<lparr>column_builders := cbs, scan_allocation := al\<rparr>))"

text \<open>The constructor; \<open>al\<close> is the allocation made for it.\<close>

definition make_local_state ::
  "logical_type list \<Rightarrow> nat \<Rightarrow> nat \<Rightarrow> bool \<Rightarrow> alloc \<Rightarrow> scan_global_state \<Rightarrow>
   (scan_local_state \<times> scan_global_state) result" where
  "make_local_state scanned_types batch_size varchar_size has_tf_state al g =
     (let g = (if has_tf_state then g else increment_local_states g);
          l = \<lparr>approximate_batch_size = batch_size, default_varchar_size = varchar_size,
            num_columns = length scanned_types, estimated_rows_per_batch = 0, column_builders = [],
            varchar_indices = [], scan_allocation = al, row_offset = 0, local_state_drained = False\<rparr> in
      bind_result (estimate_rows_per_batch scanned_types l) (\<lambda>l.
      bind_result (initialize_builders l) (\<lambda>l. Inr (l, g))))"

definition get_tail_byte_offset :: "scan_local_state \<Rightarrow> nat result" where
  "get_tail_byte_offset l =
     throw_if (column_builders l = []) (Undefined_behaviour ''vector::back on an empty vector'')
     (let last_byte_offset = get_current_global_byte_offset (mask_blocks_accessor (last (column_builders l)));
          last_byte_offset = (if mod_8 (row_offset l) \<noteq> 0 then last_byte_offset + 1 else last_byte_offset) in
      Inr (min last_byte_offset (length (al_blocks (scan_allocation l)) * al_block_size (scan_allocation l))))"

text \<open>A data batch: the columns' metadata, the allocation and the size of its used part.\<close>

datatype host_table_allocation = Host_table_allocation
  (ht_allocation: alloc) (ht_columns: "column_metadata list") (ht_data_size: nat)

definition make_data_batch :: "(nat \<Rightarrow> nat) \<Rightarrow> scan_local_state \<Rightarrow> host_table_allocation result" where
  "make_data_batch bitmask_bytes l =
     bind_result (map_result (make_column_metadata bitmask_bytes (row_offset l)) (column_builders l)) (\<lambda>columns.
     bind_result (get_tail_byte_offset l) (\<lambda>sz.
       Inr (Host_table_allocation (scan_allocation l) columns sz)))"

section \<open>The scan loop\<close>

definition get_next_chunk ::
  "('s \<Rightarrow> data_chunk \<times> 's) \<Rightarrow> 's \<Rightarrow> scan_local_state \<Rightarrow> scan_global_state \<Rightarrow>
   data_chunk \<times> 's \<times> scan_local_state \<times> scan_global_state" where
  "get_next_chunk table_function s l g =
     (let (chunk, s') = table_function s in
      if chunk_size chunk = 0 then
        (chunk, s', l\<lparr>local_state_drained := True\<rparr>,
         if local_state_drained l then g else decrement_local_states g)
      else (chunk, s', l, g))"

definition chunk_fits :: "data_chunk \<Rightarrow> scan_local_state \<Rightarrow> bool" where
  "chunk_fits chunk l = list_all (\<lambda>i.
     sufficient_space_for_column (fst (chunk_data chunk ! i)) (snd (chunk_data chunk ! i)) (chunk_size chunk)
       (column_builders l ! i)) (varchar_indices l)"

fun process_columns ::
  "nat \<Rightarrow> nat \<Rightarrow> (vector \<times> validity_mask) list \<Rightarrow> column_builder list \<Rightarrow> alloc \<Rightarrow>
   (column_builder list \<times> alloc) result" where
  "process_columns n rows ((vec, validity) # data) (cb # cbs) al =
     bind_result (process_column vec validity n rows cb al) (\<lambda>(cb', al).
     bind_result (process_columns n rows data cbs al) (\<lambda>(cbs', al). Inr (cb' # cbs', al)))"
| "process_columns n rows [] (cb # cbs) al = Inl (Undefined_behaviour ''chunk.data out of range'')"
| "process_columns n rows data [] al = Inr ([], al)"

definition process_chunk :: "data_chunk \<Rightarrow> scan_local_state \<Rightarrow> scan_local_state result" where
  "process_chunk chunk l =
     bind_result (process_columns (chunk_size chunk) (row_offset l) (chunk_data chunk) (column_builders l)
       (scan_allocation l)) (\<lambda>(cbs, al).
     Inr (l\<lparr>column_builders := cbs, scan_allocation := al, row_offset := row_offset l + chunk_size chunk\<rparr>))"

lemma process_chunk_rows:
  assumes "process_chunk chunk l = Inr l'"
  shows "row_offset l' = row_offset l + chunk_size chunk \<and>
    estimated_rows_per_batch l' = estimated_rows_per_batch l"
  using assms by (auto simp: process_chunk_def bind_result_eq_Inr)

function scan_loop ::
  "('s \<Rightarrow> data_chunk \<times> 's) \<Rightarrow> 's \<Rightarrow> scan_local_state \<Rightarrow> scan_global_state \<Rightarrow>
   ('s \<times> scan_local_state \<times> scan_global_state) result" where
  "scan_loop table_function s l g =
     (case get_next_chunk table_function s l g of (chunk, s', l', g') \<Rightarrow>
      if chunk_size chunk = 0 then Inr (s', l', g')
      else if \<not> chunk_fits chunk l' then
        Inl (Runtime_error ''current chunk does not fit in the allocated buffers.'')
      else bind_result (process_chunk chunk l') (\<lambda>l''.
        if STANDARD_VECTOR_SIZE + row_offset l'' \<ge> estimated_rows_per_batch l'' then Inr (s', l'', g')
        else scan_loop table_function s' l'' g'))"
  by pat_completeness auto
termination
  by (relation "measure (\<lambda>(_, _, l, _). estimated_rows_per_batch l - row_offset l)")
     (auto simp: get_next_chunk_def split: prod.splits if_splits dest!: process_chunk_rows)

declare scan_loop.simps [simp del]

text \<open>
  The whole task: the batch, if any row was read, and the local state of the task that continues the
  scan with the table function's state, if the scan range is not exhausted.
\<close>

definition compute_task ::
  "logical_type list \<Rightarrow> (nat \<Rightarrow> alloc) \<Rightarrow> (nat \<Rightarrow> nat) \<Rightarrow> ('s \<Rightarrow> data_chunk \<times> 's) \<Rightarrow> 's \<Rightarrow>
   scan_local_state \<Rightarrow> scan_global_state \<Rightarrow>
   (host_table_allocation list \<times> (scan_local_state \<times> 's) option \<times> scan_global_state) result" where
  "compute_task scanned_types allocate bitmask_bytes table_function s l g =
     bind_result (scan_loop table_function s l g) (\<lambda>(s', l', g').
     bind_result
       (if \<not> local_state_drained l' then
          bind_result (make_local_state scanned_types (approximate_batch_size l') (default_varchar_size l') True
              (allocate (approximate_batch_size l')) g') (\<lambda>(new, g'').
            Inr (Some (new, s'), g''))
        else Inr (None, g')) (\<lambda>(next_task, g'').
     if row_offset l' > 0 then
       bind_result (make_data_batch bitmask_bytes l') (\<lambda>batch. Inr ([batch], next_task, g''))
     else Inr ([], next_task, g'')))"

section \<open>Contents of a batch\<close>

text \<open>
  What a column means: the value bytes and validities of a fixed-width column, the optional strings
  of a VARCHAR column. Appending the rows of a vector to it is the specification of the copy.
\<close>

datatype content =
    Fixed_content (value_bytes: "byte list") (validities: "bool list")
  | Varchar_content (strings: "byte list option list")

fun content_rows :: "content \<Rightarrow> nat" where
  "content_rows (Fixed_content bytes bits) = length bits"
| "content_rows (Varchar_content col) = length col"

fun append_content :: "nat \<Rightarrow> nat \<Rightarrow> vector \<times> validity_mask \<Rightarrow> content \<Rightarrow> content" where
  "append_content width n (vec, v) (Fixed_content bytes bits) =
     Fixed_content (bytes @ take (width * n) (vec_data vec)) (bits @ row_bits v n)"
| "append_content width n (vec, v) (Varchar_content col) = Varchar_content (col @ row_values vec v n)"

fun column_holds :: "alloc \<Rightarrow> column_builder \<Rightarrow> content \<Rightarrow> bool" where
  "column_holds al cb (Fixed_content bytes bits) \<longleftrightarrow> fixed_column al cb bytes bits"
| "column_holds al cb (Varchar_content col) \<longleftrightarrow> varchar_column al cb col"

definition empty_content :: "logical_type \<Rightarrow> content" where
  "empty_content t = (if is_varchar t then Varchar_content [] else Fixed_content [] [])"

lemma content_rows_append [simp]: "content_rows (append_content w n x c) = content_rows c + n"
  by (cases x; cases c) (simp_all add: row_values_bits)

text \<open>The part of the allocation a column of capacity \<open>R\<close> owns.\<close>

definition region_start :: "column_builder \<Rightarrow> nat" where
  "region_start cb = initial_byte_offset
     (if is_varchar (cb_type cb) then offset_blocks_accessor cb else data_blocks_accessor cb)"

definition region_end :: "nat \<Rightarrow> column_builder \<Rightarrow> nat" where
  "region_end R cb = initial_byte_offset (mask_blocks_accessor cb) + (R + 7) div 8"

definition region_ok :: "nat \<Rightarrow> column_builder \<Rightarrow> bool" where
  "region_ok R cb \<longleftrightarrow>
     (if is_varchar (cb_type cb) then
        initial_byte_offset (data_blocks_accessor cb) = region_start cb + 4 * (R + 1) \<and>
        initial_byte_offset (mask_blocks_accessor cb) =
          initial_byte_offset (data_blocks_accessor cb) + total_data_bytes_allocated cb
      else initial_byte_offset (mask_blocks_accessor cb) = region_start cb + type_size cb * R)"

fun regions_ok :: "nat \<Rightarrow> nat \<Rightarrow> nat \<Rightarrow> column_builder list \<Rightarrow> bool" where
  "regions_ok R lo hi [] \<longleftrightarrow> lo \<le> hi"
| "regions_ok R lo hi (cb # cbs) \<longleftrightarrow> lo \<le> region_start cb \<and> region_ok R cb \<and> regions_ok R (region_end R cb) hi cbs"

lemma same_column_region:
  assumes "same_column cb cb'"
  shows "region_start cb' = region_start cb" "region_end R cb' = region_end R cb" "region_ok R cb' = region_ok R cb"
    "cb_type cb' = cb_type cb" "type_size cb' = type_size cb"
  using assms by (simp_all add: same_column_def region_start_def region_end_def region_ok_def)

lemma regions_ok_le: "regions_ok R lo hi cbs \<Longrightarrow> lo \<le> hi"
  by (induction cbs arbitrary: lo) (force simp: region_end_def region_ok_def split: if_splits)+

definition space_ok :: "column_builder \<Rightarrow> bool" where
  "space_ok cb \<longleftrightarrow> (is_varchar (cb_type cb) \<longrightarrow> total_data_bytes cb \<le> total_data_bytes_allocated cb)"

lemma column_holds_untouched:
  assumes holds: "column_holds al cb c" and ut: "untouched lo hi al al'" and reg: "region_ok R cb"
    and rows: "content_rows c \<le> R" and space: "space_ok cb"
    and apart: "region_end R cb \<le> lo \<or> hi \<le> region_start cb"
  shows "column_holds al' cb c"
proof -
  have c: "(content_rows c + 7) div 8 \<le> (R + 7) div 8" using rows by (intro div_le_mono) simp
  show ?thesis
  proof (cases c)
    case (Fixed_content bytes bits)
    then have f: "fixed_column al cb bytes bits" using holds by simp
    have "length bytes \<le> type_size cb * R"
      using f rows Fixed_content by (simp add: fixed_column_def)
    moreover have "\<not> is_varchar (cb_type cb)" using f by (simp add: fixed_column_def)
    ultimately have "initial_byte_offset (data_blocks_accessor cb) + length bytes \<le> lo \<or> hi \<le> initial_byte_offset (data_blocks_accessor cb)"
      "initial_byte_offset (mask_blocks_accessor cb) + (length bits + 7) div 8 \<le> lo \<or> hi \<le> initial_byte_offset (mask_blocks_accessor cb)"
      using reg apart c Fixed_content by (auto simp: region_ok_def region_start_def region_end_def)
    with f show ?thesis
      using data_holds_untouched [OF _ ut] mask_holds_untouched [OF _ ut] by (simp add: Fixed_content fixed_column_def)
  next
    case (Varchar_content col)
    with assms c show ?thesis
      by (auto simp: varchar_column_def region_ok_def region_start_def region_end_def space_ok_def
          intro!: data_holds_untouched [OF _ ut] mask_holds_untouched [OF _ ut] offsets_hold_untouched [OF _ ut])
  qed
qed

section \<open>Copying one chunk\<close>

lemma varchar_bytes_heap: "varchar_bytes vec v n = length (string_heap (row_values vec v n))"
  by (simp add: varchar_bytes_def string_heap_def row_values_def row_value_def length_concat comp_def if_distrib
      cong: if_cong)

definition vector_ok :: "nat \<Rightarrow> nat \<Rightarrow> column_builder \<Rightarrow> vector \<times> validity_mask \<Rightarrow> bool" where
  "vector_ok n rows cb x \<longleftrightarrow> chunk_mask_ok (snd x) n rows \<and>
     (\<not> is_varchar (cb_type cb) \<longrightarrow> type_size cb * n \<le> length (vec_data (fst x)))"

definition vector_fits :: "nat \<Rightarrow> column_builder \<Rightarrow> vector \<times> validity_mask \<Rightarrow> bool" where
  "vector_fits n cb x \<longleftrightarrow> (is_varchar (cb_type cb) \<longrightarrow> sufficient_space_for_column (fst x) (snd x) n cb)"

lemma column_holds_cases:
  assumes "column_holds al cb c"
  obtains (fixed) bytes bits where "c = Fixed_content bytes bits" "fixed_column al cb bytes bits" "\<not> is_varchar (cb_type cb)"
    | (varchar) col where "c = Varchar_content col" "varchar_column al cb col" "is_varchar (cb_type cb)"
  using assms by (cases c) (auto simp: fixed_column_def varchar_column_def)

lemma mask_end_region: "rows < R \<Longrightarrow> mask_end cb rows \<le> region_end R cb"
  using div_le_mono [of "rows + 8" "R + 7" 8] by (simp add: mask_end_def region_end_def)

lemma process_column_content:
  assumes wf: "wf_alloc al" and holds: "column_holds al cb c" and reg: "region_ok R cb"
    and room: "region_end R cb \<le> length (flat al)" and rows: "content_rows c + n < R"
    and vec: "vector_ok n (content_rows c) cb (vec, v)" and fits: "vector_fits n cb (vec, v)"
  obtains cb' al' where "process_column vec v n (content_rows c) cb al = Inr (cb', al')"
    and "column_holds al' cb' (append_content (type_size cb) n (vec, v) c)"
    and "untouched (region_start cb) (region_end R cb) al al'" and "same_column cb cb'" and "space_ok cb'"
proof -
  note me = mask_end_region [OF rows, of cb]
  have me': "mask_end cb (content_rows c + n) \<le> length (flat al)" using me room by simp
  from holds show ?thesis
  proof (cases rule: column_holds_cases)
    case (fixed bytes bits)
    have "type_size cb * (length bits + n) \<le> type_size cb * R" using rows fixed(1) by (intro mult_le_mono2) simp
    then have "initial_byte_offset (data_blocks_accessor cb) + type_size cb * (length bits + n)
        \<le> initial_byte_offset (mask_blocks_accessor cb)"
      using reg fixed(3) by (simp add: region_ok_def region_start_def)
    then obtain cb' al' where "process_column vec v n (length bits) cb al = Inr (cb', al')"
      "fixed_column al' cb' (bytes @ take (type_size cb * n) (vec_data vec)) (bits @ row_bits v n)"
      "untouched (initial_byte_offset (data_blocks_accessor cb)) (mask_end cb (length bits + n)) al al'" "same_column cb cb'"
      using process_fixed_column [OF wf fixed(2), of v n vec] vec me' fixed(1,3)
      by (metis content_rows.simps(1) fst_conv snd_conv vector_ok_def)
    then show ?thesis
      using fixed me by (intro that [of cb' al'])
        (auto simp: region_start_def space_ok_def same_column_def intro: untouched_mono)
  next
    case (varchar col)
    have t: "total_data_bytes cb = length (string_heap col)" using varchar(2) by (simp add: varchar_column_def)
    have sp: "length (string_heap (col @ row_values vec v n)) \<le> total_data_bytes_allocated cb"
      using fits t varchar(3)
      by (simp add: vector_fits_def sufficient_space_for_column_def varchar_bytes_heap string_heap_append)
    have "initial_byte_offset (offset_blocks_accessor cb) + 4 * (length col + n + 1) \<le> initial_byte_offset (data_blocks_accessor cb)"
      "initial_byte_offset (data_blocks_accessor cb) + length (string_heap (col @ row_values vec v n))
        \<le> initial_byte_offset (mask_blocks_accessor cb)"
      using reg rows sp varchar(1,3) by (simp_all add: region_ok_def region_start_def)
    then obtain cb' al' where r: "process_column vec v n (length col) cb al = Inr (cb', al')"
      "varchar_column al' cb' (col @ row_values vec v n)"
      "untouched (initial_byte_offset (offset_blocks_accessor cb)) (mask_end cb (length col + n)) al al'" "same_column cb cb'"
      using process_varchar_column [OF wf varchar(2), of v n vec] vec me' varchar(1)
      by (metis content_rows.simps(2) snd_conv vector_ok_def)
    moreover have "space_ok cb'"
      using r(2,4) sp by (simp add: space_ok_def varchar_column_def same_column_def)
    ultimately show ?thesis
      using varchar me by (intro that [of cb' al']) (auto simp: region_start_def intro: untouched_mono)
  qed
qed

text \<open>All columns of a batch, each with its content and its own region.\<close>

fun columns_hold :: "nat \<Rightarrow> nat \<Rightarrow> alloc \<Rightarrow> column_builder list \<Rightarrow> content list \<Rightarrow> bool" where
  "columns_hold R rows al [] [] \<longleftrightarrow> True"
| "columns_hold R rows al (cb # cbs) (c # cs) \<longleftrightarrow>
     column_holds al cb c \<and> space_ok cb \<and> content_rows c = rows \<and> columns_hold R rows al cbs cs"
| "columns_hold R rows al _ _ \<longleftrightarrow> False"

lemma columns_hold_untouched:
  assumes "columns_hold R rows al cbs cs" and "regions_ok R lo' hi' cbs" and "rows \<le> R"
    and "untouched lo hi al al'" and "hi \<le> lo'"
  shows "columns_hold R rows al' cbs cs"
  using assms
proof (induction R rows al cbs cs arbitrary: lo' rule: columns_hold.induct)
  case (2 R rows al cb cbs c cs)
  moreover have "lo' \<le> region_end R cb"
    using "2.prems"(2) by (auto simp: region_end_def region_ok_def split: if_splits)
  ultimately show ?case
    using column_holds_untouched [of al cb c lo hi al' R] by fastforce
qed simp_all

fun append_columns ::
  "nat \<Rightarrow> column_builder list \<Rightarrow> (vector \<times> validity_mask) list \<Rightarrow> content list \<Rightarrow> content list" where
  "append_columns n (cb # cbs) (x # xs) (c # cs) = append_content (type_size cb) n x c # append_columns n cbs xs cs"
| "append_columns n _ _ _ = []"

lemma process_columns_ok:
  assumes "wf_alloc al" and "columns_hold R rows al cbs cs" and "regions_ok R lo hi cbs"
    and "hi \<le> length (flat al)" and "rows + n < R" and "length cbs \<le> length xs"
    and "list_all2 (\<lambda>cb x. vector_ok n rows cb x \<and> vector_fits n cb x) cbs (take (length cbs) xs)"
  shows "\<exists>cbs' al'. process_columns n rows xs cbs al = Inr (cbs', al') \<and>
    columns_hold R (rows + n) al' cbs' (append_columns n cbs xs cs) \<and> untouched lo hi al al' \<and>
    list_all2 same_column cbs cbs'"
  using assms
proof (induction cbs arbitrary: cs xs lo al)
  case Nil
  then show ?case by (cases cs) (simp_all add: untouched_refl)
next
  case (Cons cb cbs)
  obtain c cs' where cs: "cs = c # cs'" using Cons.prems(2) by (cases cs) auto
  obtain vec v xs' where xs: "xs = (vec, v) # xs'" using Cons.prems(6) by (cases xs) auto
  have h: "column_holds al cb c" "space_ok cb" "content_rows c = rows" "columns_hold R rows al cbs cs'"
    using Cons.prems(2) cs by simp_all
  have reg: "lo \<le> region_start cb" "region_ok R cb" "regions_ok R (region_end R cb) hi cbs"
    using Cons.prems(3) by simp_all
  have le: "region_end R cb \<le> hi" by (rule regions_ok_le [OF reg(3)])
  have lo: "lo \<le> region_end R cb"
    using reg(1,2) by (auto simp: region_end_def region_ok_def split: if_splits)
  have vec: "vector_ok n (content_rows c) cb (vec, v)" "vector_fits n cb (vec, v)"
    using Cons.prems(7) xs h(3) by simp_all
  have "region_end R cb \<le> length (flat al)" "content_rows c + n < R"
    using Cons.prems(4,5) h(3) le by simp_all
  then obtain cb' al1 where
    p: "process_column vec v n (content_rows c) cb al = Inr (cb', al1)"
      "column_holds al1 cb' (append_content (type_size cb) n (vec, v) c)"
      "untouched (region_start cb) (region_end R cb) al al1" "same_column cb cb'" "space_ok cb'"
    by (rule process_column_content [OF Cons.prems(1) h(1) reg(2) _ _ vec])
  have "rows \<le> R" using Cons.prems(5) by simp
  then have tail: "columns_hold R rows al1 cbs cs'"
    by (rule columns_hold_untouched [OF h(4) reg(3) _ p(3)]) simp
  have "hi \<le> length (flat al1)" using Cons.prems(4) untouchedD(4) [OF p(3)] by simp
  moreover have "length cbs \<le> length xs'" "list_all2 (\<lambda>cb x. vector_ok n rows cb x \<and> vector_fits n cb x) cbs (take (length cbs) xs')"
    using Cons.prems(6,7) xs by simp_all
  ultimately obtain cbs' al2 where
    r: "process_columns n rows xs' cbs al1 = Inr (cbs', al2)"
      "columns_hold R (rows + n) al2 cbs' (append_columns n cbs xs' cs')"
      "untouched (region_end R cb) hi al1 al2" "list_all2 same_column cbs cbs'"
    using Cons.IH [OF untouchedD(1) [OF p(3)] tail reg(3)] Cons.prems(5) by blast
  have "column_holds al2 cb' (append_content (type_size cb) n (vec, v) c)"
    by (rule column_holds_untouched [OF p(2) r(3), of R])
       (use p(4,5) reg(2) h(3) Cons.prems(5) in \<open>simp_all add: same_column_region\<close>)
  moreover have "untouched lo hi al al2"
    using untouched_trans [OF untouched_mono [OF p(3) reg(1) le] r(3) lo] by simp
  ultimately show ?case
    using p r h(3) cs xs by simp
qed

section \<open>Laying out the columns\<close>

fun layout_end :: "nat \<Rightarrow> nat \<Rightarrow> nat \<Rightarrow> column_builder list \<Rightarrow> nat" where
  "layout_end rows varchar_size byte_offset [] = byte_offset"
| "layout_end rows varchar_size byte_offset (cb # cbs) =
     layout_end rows varchar_size (align_up_8 byte_offset + column_bytes rows varchar_size cb) cbs"

lemma align_up_8_eq: "align_up_8 n = 8 * ((n + 7) div 8)"
  by (simp add: align_up_8_def drop_bit_eq_div push_bit_eq_mult)

lemma align_up_8: "n \<le> align_up_8 n" "align_up_8 n \<le> n + 7" "align_up_8 n mod 4 = 0"
proof -
  have "n + 7 = 8 * ((n + 7) div 8) + (n + 7) mod 8" by simp
  moreover have "(n + 7) mod 8 < 8" by simp
  ultimately show "n \<le> align_up_8 n" "align_up_8 n \<le> n + 7" unfolding align_up_8_eq by linarith+
  have "align_up_8 n = 4 * (2 * ((n + 7) div 8))" by (simp add: align_up_8_eq)
  then show "align_up_8 n mod 4 = 0" by simp
qed

lemma layout_end_le: "byte_offset \<le> layout_end rows varchar_size byte_offset cbs"
proof (induction cbs arbitrary: byte_offset)
  case (Cons cb cbs)
  have "byte_offset \<le> align_up_8 byte_offset + column_bytes rows varchar_size cb"
    using align_up_8(1) [of byte_offset] by simp
  also note Cons.IH
  finally show ?case by simp
qed simp

definition fresh_column :: "nat \<Rightarrow> column_builder \<Rightarrow> bool" where
  "fresh_column varchar_size cb \<longleftrightarrow> fresh_builder cb \<and> (is_varchar (cb_type cb) \<longrightarrow> type_size cb = varchar_size)"

definition same_type :: "column_builder \<Rightarrow> column_builder \<Rightarrow> bool" where
  "same_type cb cb' \<longleftrightarrow> cb_type cb' = cb_type cb \<and> type_size cb' = type_size cb"

lemma initialize_column_ok:
  assumes wf: "wf_alloc al" "al_blocks al \<noteq> []" "al_block_size al mod 4 = 0" and fresh: "fresh_column V cb"
    and p: "p mod 4 = 0" "p + column_bytes R V cb \<le> length (flat al)"
  obtains cb' al' where "initialize_accessors R p cb al = Inr (cb', al')"
    and "column_holds al' cb' (empty_content (cb_type cb))" and "space_ok cb'" and "region_ok R cb'"
    and "region_start cb' = p" and "region_end R cb' = p + column_bytes R V cb" and "same_type cb cb'"
    and "untouched p (p + column_bytes R V cb) al al'"
proof (cases "is_varchar (cb_type cb)")
  case False
  have "fresh_builder cb" "p + R * type_size cb \<le> length (flat al)"
    using fresh p(2) False by (simp_all add: fresh_column_def column_bytes_def)
  then obtain cb' where "initialize_accessors R p cb al = Inr (cb', al)" "fixed_column al cb' [] []"
    "initial_byte_offset (data_blocks_accessor cb') = p"
    "initial_byte_offset (mask_blocks_accessor cb') = p + R * type_size cb"
    "cb_type cb' = cb_type cb" "type_size cb' = type_size cb"
    using initialize_fixed_column [OF wf(1) _ False wf(2)] by blast
  with False wf show ?thesis
    by (intro that [of cb' al]) (simp_all add: empty_content_def space_ok_def region_ok_def region_start_def
      region_end_def column_bytes_def same_type_def untouched_refl)
next
  case True
  have "fresh_builder cb" "p + (R + 1) * 4 + R * type_size cb \<le> length (flat al)" "type_size cb = V"
    using fresh p(2) True by (simp_all add: fresh_column_def column_bytes_def)
  then obtain cb' al' where r: "initialize_accessors R p cb al = Inr (cb', al')" "varchar_column al' cb' []"
    "initial_byte_offset (offset_blocks_accessor cb') = p"
    "initial_byte_offset (data_blocks_accessor cb') = p + (R + 1) * 4"
    "initial_byte_offset (mask_blocks_accessor cb') = p + (R + 1) * 4 + R * V"
    "cb_type cb' = cb_type cb" "type_size cb' = type_size cb" "total_data_bytes_allocated cb' = R * V"
    "untouched p (p + 4) al al'"
    using initialize_varchar_column [OF wf(1) _ True wf(2) p(1) wf(3)] by blast
  moreover have "untouched p (p + column_bytes R V cb) al al'"
    using untouched_mono [OF r(9), of p] True by (simp add: column_bytes_def)
  ultimately show ?thesis
    using True by (intro that [of cb' al']) (simp_all add: empty_content_def space_ok_def region_ok_def region_start_def
      region_end_def column_bytes_def same_type_def varchar_column_def)
qed

lemma untouched_blocks: "untouched lo hi al al' \<Longrightarrow> wf_alloc al \<Longrightarrow> al_blocks al \<noteq> [] \<Longrightarrow> al_blocks al' \<noteq> []"
  using untouchedD(1,3,4) [of lo hi al al'] by (auto simp: wf_alloc_def flat_def length_concat)

lemma initialize_columns_ok:
  assumes "wf_alloc al" and "al_blocks al \<noteq> []" and "al_block_size al mod 4 = 0"
    and "list_all (fresh_column V) cbs" and "layout_end R V off cbs \<le> length (flat al)"
  shows "\<exists>cbs' al'. initialize_columns R V off cbs al = Inr (cbs', al') \<and>
    columns_hold R 0 al' cbs' (map (\<lambda>cb. empty_content (cb_type cb)) cbs) \<and>
    regions_ok R off (layout_end R V off cbs) cbs' \<and> untouched off (layout_end R V off cbs) al al' \<and>
    list_all2 same_type cbs cbs'"
  using assms
proof (induction cbs arbitrary: off al)
  case Nil
  then show ?case by (simp add: untouched_refl)
next
  case (Cons cb cbs)
  define p where "p = align_up_8 off"
  define q where "q = p + column_bytes R V cb"
  let ?hi = "layout_end R V q cbs"
  have hi: "layout_end R V off (cb # cbs) = ?hi" by (simp add: p_def q_def)
  have le: "off \<le> p" "p \<le> q" "q \<le> ?hi" "p mod 4 = 0"
    using align_up_8 [of off] layout_end_le by (simp_all add: p_def q_def)
  have "fresh_column V cb" using Cons.prems(4) by simp
  moreover have "p + column_bytes R V cb \<le> length (flat al)"
    using Cons.prems(5) le(3) unfolding hi q_def [symmetric] by simp
  ultimately obtain cb' al1 where
    c: "initialize_accessors R p cb al = Inr (cb', al1)" "column_holds al1 cb' (empty_content (cb_type cb))"
      "space_ok cb'" "region_ok R cb'" "region_start cb' = p" "region_end R cb' = q" "same_type cb cb'"
      "untouched p q al al1"
    unfolding q_def by (rule initialize_column_ok [OF Cons.prems(1-3) _ le(4)])
  note al1 = untouchedD [OF c(8)] untouched_blocks [OF c(8) Cons.prems(1,2)]
  have "al_block_size al1 mod 4 = 0" "list_all (fresh_column V) cbs" "?hi \<le> length (flat al1)"
    using Cons.prems(3-5) al1 unfolding hi by simp_all
  from Cons.IH [OF al1(1,5) this] obtain cbs' al2 where
    r: "initialize_columns R V q cbs al1 = Inr (cbs', al2)"
      "columns_hold R 0 al2 cbs' (map (\<lambda>cb. empty_content (cb_type cb)) cbs)"
      "regions_ok R q ?hi cbs'" "untouched q ?hi al1 al2" "list_all2 same_type cbs cbs'"
    by blast
  have "content_rows (empty_content t) = 0" for t by (simp add: empty_content_def)
  moreover from this have "column_holds al2 cb' (empty_content (cb_type cb))"
    by (intro column_holds_untouched [OF c(2) r(4), of R]) (simp_all add: c)
  moreover have "untouched off ?hi al al2"
    using untouched_trans [OF untouched_mono [OF c(8), of off ?hi] r(4)] le by simp
  ultimately show ?case
    unfolding hi using c r le(1) p_def q_def by simp
qed

section \<open>What the table function delivers\<close>

definition source_state :: "('s \<Rightarrow> data_chunk \<times> 's) \<Rightarrow> 's \<Rightarrow> nat \<Rightarrow> 's" where
  "source_state tf s k = ((\<lambda>s. snd (tf s)) ^^ k) s"

definition nth_chunk :: "('s \<Rightarrow> data_chunk \<times> 's) \<Rightarrow> 's \<Rightarrow> nat \<Rightarrow> data_chunk" where
  "nth_chunk tf s k = fst (tf (source_state tf s k))"

definition rows_before :: "('s \<Rightarrow> data_chunk \<times> 's) \<Rightarrow> 's \<Rightarrow> nat \<Rightarrow> nat" where
  "rows_before tf s k = sum_list (map (\<lambda>j. chunk_size (nth_chunk tf s j)) [0..<k])"

text \<open>The batch content after the first \<open>k\<close> chunks.\<close>

fun append_chunks ::
  "column_builder list \<Rightarrow> ('s \<Rightarrow> data_chunk \<times> 's) \<Rightarrow> 's \<Rightarrow> nat \<Rightarrow> content list \<Rightarrow> content list" where
  "append_chunks cbs tf s 0 cs = cs"
| "append_chunks cbs tf s (Suc k) cs = append_chunks cbs tf (snd (tf s)) k
     (append_columns (chunk_size (fst (tf s))) cbs (chunk_data (fst (tf s))) cs)"

definition chunk_ok :: "column_builder list \<Rightarrow> nat \<Rightarrow> data_chunk \<Rightarrow> bool" where
  "chunk_ok cbs rows chunk \<longleftrightarrow> chunk_size chunk \<noteq> 0 \<longrightarrow>
     chunk_size chunk \<le> STANDARD_VECTOR_SIZE \<and> length cbs \<le> length (chunk_data chunk) \<and>
     list_all2 (vector_ok (chunk_size chunk) rows) cbs (take (length cbs) (chunk_data chunk))"

lemma source_shift:
  "source_state tf s (Suc k) = source_state tf (snd (tf s)) k"
  "nth_chunk tf s (Suc k) = nth_chunk tf (snd (tf s)) k"
  "nth_chunk tf s 0 = fst (tf s)" "source_state tf s 0 = s" "rows_before tf s 0 = 0"
  by (simp_all add: nth_chunk_def source_state_def rows_before_def funpow_Suc_right del: funpow.simps(2))

lemma rows_before_shift:
  "rows_before tf s (Suc k) = chunk_size (fst (tf s)) + rows_before tf (snd (tf s)) k"
proof -
  have "map (\<lambda>j. chunk_size (nth_chunk tf s j)) [0..<Suc k] =
      chunk_size (nth_chunk tf s 0) # map (\<lambda>j. chunk_size (nth_chunk tf s (Suc j))) [0..<k]"
    unfolding upt_conv_Cons [OF zero_less_Suc] map_Suc_upt [symmetric] by simp
  then show ?thesis by (simp add: rows_before_def source_shift)
qed

section \<open>The loop\<close>

definition scan_ok :: "scan_local_state \<Rightarrow> content list \<Rightarrow> bool" where
  "scan_ok l cs \<longleftrightarrow> wf_alloc (scan_allocation l) \<and>
     columns_hold (estimated_rows_per_batch l) (row_offset l) (scan_allocation l) (column_builders l) cs \<and>
     regions_ok (estimated_rows_per_batch l) 0 (length (flat (scan_allocation l))) (column_builders l) \<and>
     varchar_indices l = varchar_positions (map cb_type (column_builders l))"

lemma same_columns:
  assumes "list_all2 same_column cbs cbs'"
  shows "map cb_type cbs' = map cb_type cbs" "length cbs' = length cbs"
    "regions_ok R lo hi cbs' = regions_ok R lo hi cbs" "chunk_ok cbs' rows chunk = chunk_ok cbs rows chunk"
    "append_columns n cbs' xs cs = append_columns n cbs xs cs"
    "append_chunks cbs' tf s k ds = append_chunks cbs tf s k ds"
proof -
  from assms show 1: "map cb_type cbs' = map cb_type cbs" and 2: "length cbs' = length cbs"
    and "regions_ok R lo hi cbs' = regions_ok R lo hi cbs" for lo
    by (induction arbitrary: lo) (simp_all add: same_column_region)
  have app: "append_columns n cbs' xs cs = append_columns n cbs xs cs" for n xs cs
    using assms
  proof (induction arbitrary: xs cs)
    case (Cons cb cbs cb' cbs')
    then show ?case by (cases xs; cases cs) (simp_all add: same_column_region)
  qed simp
  then show "append_columns n cbs' xs cs = append_columns n cbs xs cs" .
  show "append_chunks cbs' tf s k ds = append_chunks cbs tf s k ds"
    by (induction k arbitrary: s ds) (simp_all add: app)
  have "list_all2 (vector_ok m rows) cbs' xs = list_all2 (vector_ok m rows) cbs xs" for m xs
    using assms
  proof (induction arbitrary: xs)
    case (Cons cb cbs cb' cbs')
    then show ?case by (cases xs) (simp_all add: same_column_region vector_ok_def)
  qed simp
  then show "chunk_ok cbs' rows chunk = chunk_ok cbs rows chunk" by (simp add: chunk_ok_def 2)
qed

lemma chunk_fits_vectors:
  assumes "chunk_fits chunk l" and "varchar_indices l = varchar_positions (map cb_type (column_builders l))"
    and "length (column_builders l) \<le> length (chunk_data chunk)"
  shows "list_all2 (vector_fits (chunk_size chunk)) (column_builders l)
    (take (length (column_builders l)) (chunk_data chunk))"
  using assms by (auto simp: list_all2_conv_all_nth vector_fits_def chunk_fits_def varchar_positions_def list_all_iff)

lemma process_chunk_ok:
  assumes ok: "scan_ok l cs" and chunk: "chunk_ok (column_builders l) (row_offset l) chunk" "chunk_size chunk \<noteq> 0"
    and fits: "chunk_fits chunk l" and rows: "row_offset l + STANDARD_VECTOR_SIZE < estimated_rows_per_batch l"
  obtains l' where "process_chunk chunk l = Inr l'" and
    "scan_ok l' (append_columns (chunk_size chunk) (column_builders l) (chunk_data chunk) cs)" and
    "list_all2 same_column (column_builders l) (column_builders l')" and
    "row_offset l' = row_offset l + chunk_size chunk" and
    "estimated_rows_per_batch l' = estimated_rows_per_batch l" and
    "local_state_drained l' = local_state_drained l"
proof -
  let ?R = "estimated_rows_per_batch l" and ?cbs = "column_builders l" and ?al = "scan_allocation l"
  have vi: "varchar_indices l = varchar_positions (map cb_type ?cbs)" using ok by (simp add: scan_ok_def)
  have len: "length ?cbs \<le> length (chunk_data chunk)" "row_offset l + chunk_size chunk < ?R"
    using chunk rows by (simp_all add: chunk_ok_def)
  have "list_all2 (\<lambda>cb x. vector_ok (chunk_size chunk) (row_offset l) cb x \<and> vector_fits (chunk_size chunk) cb x)
      ?cbs (take (length ?cbs) (chunk_data chunk))"
    using chunk chunk_fits_vectors [OF fits vi len(1)] by (auto simp: chunk_ok_def list_all2_conv_all_nth)
  then obtain cbs' al' where r: "process_columns (chunk_size chunk) (row_offset l) (chunk_data chunk) ?cbs ?al = Inr (cbs', al')"
    "columns_hold ?R (row_offset l + chunk_size chunk) al' cbs' (append_columns (chunk_size chunk) ?cbs (chunk_data chunk) cs)"
    "untouched 0 (length (flat ?al)) ?al al'" "list_all2 same_column ?cbs cbs'"
    using process_columns_ok [of ?al ?R "row_offset l" ?cbs cs 0 "length (flat ?al)" "chunk_size chunk" "chunk_data chunk"]
      ok len by (auto simp: scan_ok_def)
  let ?l = "l\<lparr>column_builders := cbs', scan_allocation := al', row_offset := row_offset l + chunk_size chunk\<rparr>"
  have "scan_ok ?l (append_columns (chunk_size chunk) ?cbs (chunk_data chunk) cs)"
    using r ok untouchedD [OF r(3)] by (simp add: scan_ok_def same_columns [OF r(4)])
  with r show ?thesis by (intro that [of ?l]) (simp_all add: process_chunk_def)
qed

text \<open>
  What the loop leaves after \<open>k\<close> chunks: their rows are in the columns, and the loop stopped because the
  next chunk was empty, which drains the state and gives up its share of the source, or because
  another full vector might not fit.
\<close>

definition scanned ::
  "('s \<Rightarrow> data_chunk \<times> 's) \<Rightarrow> 's \<Rightarrow> scan_local_state \<Rightarrow> scan_global_state \<Rightarrow> content list \<Rightarrow> nat \<Rightarrow>
   's \<Rightarrow> scan_local_state \<Rightarrow> scan_global_state \<Rightarrow> bool" where
  "scanned tf s l g cs k s' l' g' \<longleftrightarrow>
     scan_ok l' (append_chunks (column_builders l) tf s k cs) \<and>
     list_all2 same_column (column_builders l) (column_builders l') \<and>
     row_offset l' = row_offset l + rows_before tf s k \<and> row_offset l' < estimated_rows_per_batch l' \<and>
     (if local_state_drained l'
      then chunk_size (nth_chunk tf s k) = 0 \<and> s' = source_state tf s (Suc k) \<and> g' = decrement_local_states g
      else estimated_rows_per_batch l' \<le> STANDARD_VECTOR_SIZE + row_offset l' \<and> s' = source_state tf s k \<and> g' = g)"

definition scan_outcome ::
  "('s \<Rightarrow> data_chunk \<times> 's) \<Rightarrow> 's \<Rightarrow> scan_local_state \<Rightarrow> scan_global_state \<Rightarrow> content list \<Rightarrow>
   ('s \<times> scan_local_state \<times> scan_global_state) result \<Rightarrow> bool" where
  "scan_outcome tf s l g cs r \<longleftrightarrow> (case r of
       Inl e \<Rightarrow> e = Runtime_error ''current chunk does not fit in the allocated buffers.''
     | Inr (s', l', g') \<Rightarrow> (\<exists>k. scanned tf s l g cs k s' l' g'))"

lemma same_column_trans: "same_column a b \<Longrightarrow> same_column b c \<Longrightarrow> same_column a c"
  by (simp add: same_column_def)

lemma scanned_step:
  assumes "scanned tf (snd (tf s)) l1 g (append_columns (chunk_size (fst (tf s))) (column_builders l) (chunk_data (fst (tf s))) cs) k s' l' g'"
    and "list_all2 same_column (column_builders l) (column_builders l1)"
    and "row_offset l1 = row_offset l + chunk_size (fst (tf s))"
  shows "scanned tf s l g cs (Suc k) s' l' g'"
  using assms list_all2_trans [OF same_column_trans assms(2)]
  by (auto simp: scanned_def source_shift rows_before_shift same_columns [OF assms(2)])

lemma scan_loop_ok:
  assumes "scan_ok l cs" and "row_offset l + STANDARD_VECTOR_SIZE < estimated_rows_per_batch l"
    and "\<not> local_state_drained l"
    and "\<forall>k. chunk_ok (column_builders l) (row_offset l + rows_before tf s k) (nth_chunk tf s k)"
  shows "scan_outcome tf s l g cs (scan_loop tf s l g)"
  using assms
proof (induction tf s l g arbitrary: cs rule: scan_loop.induct)
  case (1 tf s l g)
  obtain chunk s1 where tf: "tf s = (chunk, s1)" by fastforce
  have ok: "chunk_ok (column_builders l) (row_offset l) chunk"
    using spec [OF "1.prems"(4), of 0] by (simp add: source_shift tf)
  show ?case
  proof (cases "chunk_size chunk = 0")
    case True
    then have "scan_loop tf s l g = Inr (s1, l\<lparr>local_state_drained := True\<rparr>, decrement_local_states g)"
      using "1.prems"(3) tf by (simp add: scan_loop.simps [of tf s] get_next_chunk_def)
    moreover have "scanned tf s l g cs 0 s1 (l\<lparr>local_state_drained := True\<rparr>) (decrement_local_states g)"
      using "1.prems"(1,2) True tf by (simp add: scanned_def scan_ok_def source_shift same_column_def list.rel_refl)
    ultimately show ?thesis by (auto simp: scan_outcome_def)
  next
    case False
    then have g: "get_next_chunk tf s l g = (chunk, s1, l, g)" by (simp add: get_next_chunk_def tf)
    show ?thesis
    proof (cases "chunk_fits chunk l")
      case fits: True
      from process_chunk_ok [OF "1.prems"(1) ok False fits "1.prems"(2)] obtain l1 where
        p: "process_chunk chunk l = Inr l1"
          "scan_ok l1 (append_columns (chunk_size chunk) (column_builders l) (chunk_data chunk) cs)"
          "list_all2 same_column (column_builders l) (column_builders l1)"
          "row_offset l1 = row_offset l + chunk_size chunk"
          "estimated_rows_per_batch l1 = estimated_rows_per_batch l" "\<not> local_state_drained l1"
        using "1.prems"(3) by metis
      note step = scanned_step [of tf s l1 g l cs, unfolded tf fst_conv snd_conv, OF _ p(3,4)]
      let ?cs = "append_columns (chunk_size chunk) (column_builders l) (chunk_data chunk) cs"
      show ?thesis
      proof (cases "estimated_rows_per_batch l1 \<le> STANDARD_VECTOR_SIZE + row_offset l1")
        case True
        then have "scan_loop tf s l g = Inr (s1, l1, g)"
          using False fits g p(1) by (simp add: scan_loop.simps [of tf s])
        moreover have "chunk_size chunk \<le> STANDARD_VECTOR_SIZE" using ok False by (simp add: chunk_ok_def)
        then have "scanned tf s1 l1 g ?cs 0 s1 l1 g"
          using p True "1.prems"(2) by (simp add: scanned_def source_shift same_column_def list.rel_refl)
        then have "scanned tf s l g cs (Suc 0) s1 l1 g" by (rule step)
        ultimately show ?thesis by (auto simp: scan_outcome_def)
      next
        case more: False
        have "\<forall>k. chunk_ok (column_builders l1) (row_offset l1 + rows_before tf s1 k) (nth_chunk tf s1 k)"
          using "1.prems"(4) p(4) tf by (metis add.assoc fst_conv rows_before_shift same_columns(4) [OF p(3)] snd_conv source_shift(2))
        then have "scan_outcome tf s1 l1 g ?cs (scan_loop tf s1 l1 g)"
          using "1.IH" [OF g [symmetric] refl refl False _ p(1) more p(2)] fits more p(6) by simp
        moreover have "scan_loop tf s l g = scan_loop tf s1 l1 g"
          using False fits g p(1) more by (simp add: scan_loop.simps [of tf s])
        ultimately show ?thesis
          by (auto simp: scan_outcome_def split: sum.splits intro!: exI step)
      qed
    next
      case nofit: False
      with False g show ?thesis by (simp add: scan_loop.simps [of tf s] scan_outcome_def)
    qed
  qed
qed

section \<open>The estimate and the layout\<close>

definition initial_local_state :: "logical_type list \<Rightarrow> nat \<Rightarrow> nat \<Rightarrow> alloc \<Rightarrow> scan_local_state" where
  "initial_local_state scanned_types batch_size varchar_size al =
     \<lparr>approximate_batch_size = batch_size, default_varchar_size = varchar_size,
      num_columns = length scanned_types, estimated_rows_per_batch = 0, column_builders = [],
      varchar_indices = [], scan_allocation = al, row_offset = 0, local_state_drained = False\<rparr>"

text \<open>The rows of a batch and the bytes of its layout.\<close>

definition batch_layout :: "logical_type list \<Rightarrow> nat \<Rightarrow> nat \<Rightarrow> (nat \<times> nat) result" where
  "batch_layout scanned_types batch_size varchar_size =
     bind_result (estimate_rows_per_batch scanned_types
       (initial_local_state scanned_types batch_size varchar_size \<lparr>al_block_size = 0, al_blocks = []\<rparr>)) (\<lambda>l.
     Inr (estimated_rows_per_batch l,
       layout_end (estimated_rows_per_batch l) varchar_size 0 (column_builders l)))"

definition estimated_rows :: "nat list \<Rightarrow> logical_type list \<Rightarrow> nat \<Rightarrow> nat" where
  "estimated_rows bytes types batch_size = max (size_sub batch_size (length (varchar_positions types) * 4) div
     (sum_list bytes + ceil_div_8 (length types))) STANDARD_VECTOR_SIZE"

lemma estimate_iff:
  "estimate_rows_per_batch types (initial_local_state types B V al) = Inr l \<longleftrightarrow>
   (\<exists>builders bytes. map_result (\<lambda>t. make_column_builder t V) types = Inr builders \<and>
      map_result (row_bytes_of V) types = Inr bytes \<and> sum_list bytes + ceil_div_8 (length types) \<noteq> 0 \<and>
      l = (initial_local_state types B V al)\<lparr>column_builders := builders, varchar_indices := varchar_positions types,
        estimated_rows_per_batch := estimated_rows bytes types B\<rparr>)"
  by (auto simp: estimate_rows_per_batch_def initial_local_state_def bind_result_eq_Inr throw_if_eq_Inr Let_def
      estimated_rows_def)

lemma batch_layout_iff:
  "batch_layout types B V = Inr (R, used) \<longleftrightarrow>
   (\<exists>builders bytes. map_result (\<lambda>t. make_column_builder t V) types = Inr builders \<and>
      map_result (row_bytes_of V) types = Inr bytes \<and> sum_list bytes + ceil_div_8 (length types) \<noteq> 0 \<and>
      R = estimated_rows bytes types B \<and> used = layout_end R V 0 builders)"
  unfolding batch_layout_def bind_result_eq_Inr estimate_iff by auto

definition builder_for :: "nat \<Rightarrow> logical_type \<Rightarrow> column_builder \<Rightarrow> bool" where
  "builder_for varchar_size t cb \<longleftrightarrow> cb_type cb = t \<and>
     (if is_varchar t then type_size cb = varchar_size else fixed_width_byte_size t = Inr (type_size cb))"

lemma make_column_builder_fresh:
  assumes "make_column_builder t V = Inr cb"
  shows "fresh_column V cb" "cb_type cb = t" "builder_for V t cb"
  using assms by (auto simp: make_column_builder_def bind_result_eq_Inr fresh_column_def fresh_builder_def
      builder_for_def split: if_splits)

lemma make_builders_fresh:
  assumes "map_result (\<lambda>t. make_column_builder t V) types = Inr cbs"
  shows "list_all (fresh_column V) cbs" "map cb_type cbs = types" "list_all2 (builder_for V) types cbs"
proof -
  from assms have "list_all2 (\<lambda>t cb. make_column_builder t V = Inr cb) types cbs" by (simp add: map_result_Inr_iff)
  then show "list_all (fresh_column V) cbs" "map cb_type cbs = types" "list_all2 (builder_for V) types cbs"
    by induction (simp_all add: make_column_builder_fresh)
qed

lemma regions_ok_mono: "regions_ok R lo hi cbs \<Longrightarrow> hi \<le> hi' \<Longrightarrow> regions_ok R lo hi' cbs"
  by (induction cbs arbitrary: lo) auto

lemma make_local_state_ok:
  assumes lay: "batch_layout types B V = Inr (R, used)" and room: "used \<le> length (flat al)"
    and al: "wf_alloc al" "al_blocks al \<noteq> []" "al_block_size al mod 4 = 0"
  obtains l where "make_local_state types B V has_tf al g =
      Inr (l, if has_tf then g else increment_local_states g)" and "scan_ok l (map empty_content types)"
    and "estimated_rows_per_batch l = R" and "row_offset l = 0" and "\<not> local_state_drained l"
    and "list_all2 (builder_for V) types (column_builders l)"
proof -
  obtain builders bytes where b: "map_result (\<lambda>t. make_column_builder t V) types = Inr builders"
    "map_result (row_bytes_of V) types = Inr bytes" "sum_list bytes + ceil_div_8 (length types) \<noteq> 0"
    "R = estimated_rows bytes types B" "used = layout_end R V 0 builders"
    using lay unfolding batch_layout_iff by blast
  let ?l = "(initial_local_state types B V al)\<lparr>column_builders := builders, varchar_indices := varchar_positions types,
        estimated_rows_per_batch := R\<rparr>"
  have est: "estimate_rows_per_batch types (initial_local_state types B V al) = Inr ?l"
    using b unfolding estimate_iff by blast
  note fresh = make_builders_fresh [OF b(1)]
  obtain cbs al' where i: "initialize_columns R V 0 builders al = Inr (cbs, al')"
    "columns_hold R 0 al' cbs (map (\<lambda>cb. empty_content (cb_type cb)) builders)"
    "regions_ok R 0 used cbs" "untouched 0 used al al'" "list_all2 same_type builders cbs"
    using initialize_columns_ok [OF al fresh(1), of R 0] room b(5) by auto
  have types: "map cb_type cbs = types"
    using i(5) unfolding fresh(2) [symmetric] by induction (simp_all add: same_type_def)
  have "builder_for V t cb \<Longrightarrow> same_type cb cb' \<Longrightarrow> builder_for V t cb'" for t cb cb'
    by (simp add: builder_for_def same_type_def)
  then have for_types: "list_all2 (builder_for V) types cbs" by (rule list_all2_trans [OF _ fresh(3) i(5)])
  have cs: "map (\<lambda>cb. empty_content (cb_type cb)) builders = map empty_content types"
    unfolding fresh(2) [symmetric] by simp
  have "scan_ok (?l\<lparr>column_builders := cbs, scan_allocation := al'\<rparr>) (map empty_content types)"
    using i untouchedD [OF i(4)] types room cs regions_ok_mono [OF i(3)] by (simp add: scan_ok_def initial_local_state_def)
  then show ?thesis
    using est i(1) for_types
    by (intro that [of "?l\<lparr>column_builders := cbs, scan_allocation := al'\<rparr>"])
       (simp_all add: make_local_state_def initialize_builders_def initial_local_state_def Let_def)
qed

section \<open>Bounds of the layout\<close>

lemma mask_bytes_bound: "n * ((R + 7) div 8) \<le> R * ((n + 7) div 8) + n" for n R :: nat
proof -
  have "8 * ((R + 7) div 8) \<le> R + 7" "n \<le> 8 * ((n + 7) div 8)"
    using mult_div_mod_eq [of 8 "n + 7"] mod_less_divisor [of 8 "n + 7"] by linarith+
  then have "n * (8 * ((R + 7) div 8)) \<le> n * (R + 7)" "R * n \<le> R * (8 * ((n + 7) div 8))"
    by (simp_all only: mult_le_mono2)
  then have "8 * (n * ((R + 7) div 8)) \<le> R * n + 7 * n" "R * n \<le> 8 * (R * ((n + 7) div 8))"
    by (simp_all add: algebra_simps)
  then show ?thesis by linarith
qed

text \<open>What a column adds to the layout, against its share of the estimated row.\<close>

lemma layout_end_bound:
  assumes "list_all2 (\<lambda>t cb. make_column_builder t V = Inr cb) types cbs"
    and "list_all2 (\<lambda>t b. row_bytes_of V t = Inr b) types bytes"
  shows "layout_end R V off cbs \<le> off + R * sum_list bytes + 4 * length (filter is_varchar types) +
    length types * ((R + 7) div 8) + 7 * length types"
  using assms
proof (induction arbitrary: off bytes)
  case (Cons t types cb cbs)
  obtain b bytes' where b: "bytes = b # bytes'" "row_bytes_of V t = Inr b"
    "list_all2 (\<lambda>t b. row_bytes_of V t = Inr b) types bytes'"
    using Cons.prems by (auto simp: list_all2_Cons1)
  have "column_bytes R V cb = R * b + (if is_varchar t then 4 else 0) + (R + 7) div 8"
    using Cons.hyps(1) b(2)
    by (auto simp: column_bytes_def row_bytes_of_def make_column_builder_def bind_result_eq_Inr algebra_simps split: if_splits)
  then have "align_up_8 off + column_bytes R V cb \<le> off + 7 + R * b + (if is_varchar t then 4 else 0) + (R + 7) div 8"
    using align_up_8(2) [of off] by simp
  with Cons.IH [OF b(3), of "align_up_8 off + column_bytes R V cb"] show ?case
    by (auto simp: b(1) algebra_simps)
qed simp

lemma length_varchar_positions: "length (varchar_positions ts) = length (filter is_varchar ts)"
proof -
  have "filter is_varchar ts = map ((!) ts) (varchar_positions ts)"
    unfolding varchar_positions_def using filter_map [of is_varchar "(!) ts" "[0..<length ts]"]
    by (simp add: map_nth comp_def)
  then show ?thesis by simp
qed

section \<open>Properties\<close>


definition demo_source :: "nat \<Rightarrow> data_chunk \<times> nat" where
  "demo_source s = (if s = 0
     then (\<lparr>chunk_size = 2, chunk_data = [(\<lparr>vec_data = [1, 0, 2, 0], vec_strings = []\<rparr>, demo_validity [1])]\<rparr>, 1)
     else (\<lparr>chunk_size = 0, chunk_data = []\<rparr>, s))"

definition demo_scan_alloc :: alloc where
  "demo_scan_alloc = \<lparr>al_block_size = 8192, al_blocks = [replicate 8192 0]\<rparr>"

lemma demo_scan_alloc_ok:
  "5802 \<le> length (flat demo_scan_alloc)" "wf_alloc demo_scan_alloc" "al_blocks demo_scan_alloc \<noteq> []"
  "al_block_size demo_scan_alloc mod 4 = 0"
  by (simp_all add: demo_scan_alloc_def flat_def wf_alloc_def)

lemma demo_layout: "batch_layout [make_type SMALLINT] 8192 256 = Inr (2730, 5802)"
  by (simp add: batch_layout_def estimate_rows_per_batch_def initial_local_state_def make_column_builder_def
      is_varchar_def make_type_def fixed_width_byte_size_def row_bytes_of_def varchar_positions_def size_sub_def
      STANDARD_VECTOR_SIZE_def align_up_8_eq column_bytes_def)

lemma demo_source_ok:
  assumes "list_all2 (builder_for 256) [make_type SMALLINT] cbs"
  shows "chunk_ok cbs (rows_before demo_source 0 k) (nth_chunk demo_source 0 k)"
proof (cases k)
  case 0
  from assms obtain cb where "cbs = [cb]" "type_size cb = 2"
    by (auto simp: list_all2_Cons1 builder_for_def is_varchar_def make_type_def fixed_width_byte_size_def)
  with 0 demo_chunk_mask show ?thesis
    by (simp add: source_shift demo_source_def chunk_ok_def vector_ok_def STANDARD_VECTOR_SIZE_def)
next
  case (Suc j)
  have "source_state demo_source (Suc 0) j = Suc 0"
    by (induction j) (simp_all add: source_state_def demo_source_def)
  then have "nth_chunk demo_source 0 k = \<lparr>chunk_size = 0, chunk_data = []\<rparr>"
    by (simp add: Suc source_shift nth_chunk_def demo_source_def)
  then show ?thesis by (simp add: chunk_ok_def)
qed




definition wide_schema :: "logical_type list" where
  "wide_schema = map make_type [TINYINT, INTEGER, BIGINT, BIGINT, BIGINT, BIGINT, BIGINT] @ [make_decimal 38 2] @
     map make_type [TINYINT, INTEGER, BIGINT, BIGINT, BIGINT, BIGINT, BIGINT] @ [make_decimal 38 2]"


definition data_end :: "scan_local_state \<Rightarrow> nat" where
  "data_end l = initial_byte_offset (mask_blocks_accessor (last (column_builders l))) + ceil_div_8 (row_offset l)"

lemma columns_hold_last:
  assumes "columns_hold R rows al cbs cs" and "cbs \<noteq> []"
  shows "position (mask_blocks_accessor (last cbs)) = initial_byte_offset (mask_blocks_accessor (last cbs)) + rows div 8"
    and "cursor_ok al (mask_blocks_accessor (last cbs))"
proof -
  have "position (mask_blocks_accessor (last cbs)) = initial_byte_offset (mask_blocks_accessor (last cbs)) + rows div 8 \<and>
    cursor_ok al (mask_blocks_accessor (last cbs))"
    using assms
  proof (induction R rows al cbs cs rule: columns_hold.induct)
    case (2 R rows al cb cbs c cs)
    then show ?case
      by (cases "cbs = []"; cases c) (auto simp: fixed_column_def varchar_column_def mask_holds_def)
  qed simp_all
  then show "position (mask_blocks_accessor (last cbs)) = initial_byte_offset (mask_blocks_accessor (last cbs)) + rows div 8"
    "cursor_ok al (mask_blocks_accessor (last cbs))" by simp_all
qed

lemma ceil_div_8_split: "ceil_div_8 n = n div 8 + (if n mod 8 \<noteq> 0 then 1 else 0)"
proof -
  have "n = 8 * (n div 8) + n mod 8" "n mod 8 < 8" by simp_all
  moreover have "(8 * q + r + 7) div 8 = q + (if r \<noteq> 0 then 1 else 0)" if "r < 8" for q r :: nat
  proof (cases r)
    case (Suc k)
    have "(k + 8 * Suc q) div 8 = Suc q" using that Suc by simp
    with Suc show ?thesis by (simp add: algebra_simps)
  qed simp
  ultimately show ?thesis by (metis eighths(1))
qed

text \<open>
  C33: the reported size of a batch is not where its data ends. It counts the start of the last
  column's mask twice, up to the size of the allocation.
\<close>

theorem tail_byte_offset_counts_twice:
  assumes "scan_ok l cs" and "column_builders l \<noteq> []"
  shows "get_tail_byte_offset l = Inr (min (data_end l +
    initial_byte_offset (mask_blocks_accessor (last (column_builders l)))) (length (flat (scan_allocation l))))"
proof -
  have ok: "columns_hold (estimated_rows_per_batch l) (row_offset l) (scan_allocation l) (column_builders l) cs"
    "wf_alloc (scan_allocation l)" using assms(1) by (simp_all add: scan_ok_def)
  note last = columns_hold_last [OF ok(1) assms(2)]
  show ?thesis
    unfolding get_tail_byte_offset_def data_end_def
    using assms(2) last by (simp add: global_byte_offset_counts_initial_twice ceil_div_8_split length_flat [OF ok(2)] Let_def
        del: eighths(1))
qed

theorem tail_byte_offset_counts_twice_witness:
  "\<exists>l g. make_local_state [make_type SMALLINT] 8192 256 True demo_scan_alloc
        \<lparr>source_drained = False, active_local_states = 1\<rparr> = Inr (l, g) \<and>
    get_tail_byte_offset l = Inr (min (data_end l +
      initial_byte_offset (mask_blocks_accessor (last (column_builders l)))) (length (flat (scan_allocation l))))"
proof -
  obtain l where l: "make_local_state [make_type SMALLINT] 8192 256 True demo_scan_alloc
        \<lparr>source_drained = False, active_local_states = 1\<rparr> =
      Inr (l, if True then \<lparr>source_drained = False, active_local_states = 1\<rparr>
        else increment_local_states \<lparr>source_drained = False, active_local_states = 1\<rparr>)"
    "scan_ok l (map empty_content [make_type SMALLINT])" "list_all2 (builder_for 256) [make_type SMALLINT] (column_builders l)"
    by (rule make_local_state_ok [OF demo_layout demo_scan_alloc_ok])
  have "column_builders l \<noteq> []" using l(3) by auto
  from tail_byte_offset_counts_twice [OF l(2) this] l(1) show ?thesis by auto
qed

end
