(* ===== verification/Chunk_Reader.thy ===== *)
theory Chunk_Reader
  imports Scan_Batch
begin

unbundle bit_operations_syntax

text \<open>
  The reader of \<^verbatim>\<open>src/op/result/host_table_chunk_reader.cpp\<close>: it turns the columns of a host table
  back into chunks of at most one vector. The output vector is the bytes of its data buffer, its
  validity mask (\<open>None\<close> while the vector has none) and its strings. DuckDB's physical types, their sizes and its
  cast between vectors are parameters. The last section shows that a reader over the metadata of
  a column builder returns what was appended to the builder.
\<close>

section \<open>Column readers\<close>

record column_reader =
  cr_size :: nat
  cr_null_count :: nat
  cudf_col_type :: cudf_type
  data_accessor :: accessor
  mask_accessor :: accessor
  offset_accessor_32 :: accessor
  offset_accessor_64 :: accessor
  use_int64_offsets :: bool

record read_vector =
  rv_data :: "byte list"
  rv_validity :: "byte list option"
  rv_strings :: "byte list list"

definition make_column_reader :: "column_metadata \<Rightarrow> alloc \<Rightarrow> column_reader result" where
  "make_column_reader col al =
     throw_if (al_block_size al = 0) (Runtime_error ''Invalid allocation.'')
     (let r = \<lparr>cr_size = md_num_rows col, cr_null_count = (if md_has_null_mask col then md_null_count col else 0),
         cudf_col_type = \<lparr>cudf_type_id = md_type_id col, cudf_scale = md_scale col\<rparr>,
         data_accessor = uninitialized_accessor, mask_accessor = uninitialized_accessor,
         offset_accessor_32 = uninitialized_accessor, offset_accessor_64 = uninitialized_accessor,
         use_int64_offsets = False\<rparr> in
      bind_result (acc_initialize 1 (md_data_offset col) al (data_accessor r)) (\<lambda>da.
      bind_result (if cr_null_count r > 0 then acc_initialize 1 (md_null_mask_offset col) al (mask_accessor r)
        else Inr (mask_accessor r)) (\<lambda>ma.
      let r = r\<lparr>data_accessor := da, mask_accessor := ma\<rparr> in
      if md_type_id col = CUDF_STRING then
        (case md_children col of
           [child] \<Rightarrow>
             if md_type_id child = CUDF_INT64
             then bind_result (acc_initialize 8 (md_data_offset child) al (offset_accessor_64 r)) (\<lambda>oa.
               Inr (r\<lparr>use_int64_offsets := True, offset_accessor_64 := oa\<rparr>))
             else bind_result (acc_initialize 4 (md_data_offset child) al (offset_accessor_32 r)) (\<lambda>oa.
               Inr (r\<lparr>offset_accessor_32 := oa\<rparr>))
         | _ \<Rightarrow> Inl (Runtime_error ''STRING type must have one child node for offsets.''))
      else Inr r)))"

definition copy_mask_to_validity ::
  "nat \<Rightarrow> nat \<Rightarrow> alloc \<Rightarrow> column_reader \<Rightarrow> (column_reader \<times> byte list) result" where
  "copy_mask_to_validity row_off n al r =
     throw_if (\<not> row_off + n \<le> cr_size r) (Undefined_behaviour ''assert(row_offset + count <= size)'')
     (throw_if (mod_8 row_off \<noteq> 0) (Undefined_behaviour ''assert(utils::mod_8(row_offset) == 0)'')
     (bind_result (memcpy_to (ceil_div_8 n) (mask_accessor r) al) (\<lambda>(ma, bytes).
        Inr (r\<lparr>mask_accessor := ma\<rparr>, bytes))))"

text \<open>\<open>width\<close> is the size of the physical type of the vector.\<close>

definition copy_fixed_width ::
  "nat \<Rightarrow> nat \<Rightarrow> nat \<Rightarrow> alloc \<Rightarrow> column_reader \<Rightarrow> (column_reader \<times> read_vector) result" where
  "copy_fixed_width width row_off n al r =
     throw_if (\<not> row_off + n \<le> cr_size r) (Undefined_behaviour ''assert(row_offset + count <= size)'')
     (bind_result (memcpy_to (n * width) (data_accessor r) al) (\<lambda>(da, bytes).
      let r = r\<lparr>data_accessor := da\<rparr> in
      if cr_null_count r \<noteq> 0 then
        bind_result (copy_mask_to_validity row_off n al r) (\<lambda>(r, vmask).
          Inr (r, \<lparr>rv_data = bytes, rv_validity = Some vmask, rv_strings = []\<rparr>))
      else Inr (r, \<lparr>rv_data = bytes, rv_validity = None, rv_strings = []\<rparr>)))"

section \<open>Strings\<close>

definition bytes_int64 :: "byte list \<Rightarrow> 64 word" where
  "bytes_int64 bs = foldr (\<lambda>b w. ucast b OR push_bit 8 w) bs 0"

text \<open>An offset of either width as \<open>size_t\<close>; a negative 32-bit offset is sign-extended.\<close>

definition offset_value :: "nat \<Rightarrow> byte list \<Rightarrow> nat" where
  "offset_value sz bs = (if sz = 4 then unat (scast (bytes_int32 bs) :: 64 word) else unat (bytes_int64 bs))"

definition string_at :: "byte list \<Rightarrow> nat \<Rightarrow> nat \<Rightarrow> nat \<Rightarrow> byte list result" where
  "string_at buffer start_offset start stop =
     throw_if (start < start_offset \<or> stop < start \<or> length buffer < stop - start_offset)
       (Undefined_behaviour ''string outside of the buffer'')
       (Inr (take (stop - start) (drop (start - start_offset) buffer)))"

text \<open>The loop over the offsets of one block; a null row keeps no string.\<close>

fun block_strings ::
  "(nat \<Rightarrow> bool) \<Rightarrow> byte list \<Rightarrow> nat \<Rightarrow> nat \<Rightarrow> nat \<Rightarrow> nat list \<Rightarrow> (byte list list \<times> nat) result" where
  "block_strings is_null buffer start_offset row start [] = Inr ([], start)"
| "block_strings is_null buffer start_offset row start (stop # offsets) =
     bind_result (if is_null row then Inr [] else string_at buffer start_offset start stop) (\<lambda>str.
     bind_result (block_strings is_null buffer start_offset (row + 1) stop offsets) (\<lambda>(strs, last).
       Inr (str # strs, last)))"

text \<open>
  The loop over the blocks. Without an offset left in the block and short of its end the
  C++ loop would spin forever, which is undefined.
\<close>

function string_blocks ::
  "nat \<Rightarrow> (nat \<Rightarrow> bool) \<Rightarrow> byte list \<Rightarrow> nat \<Rightarrow> alloc \<Rightarrow> nat \<Rightarrow> nat \<Rightarrow> nat \<Rightarrow> accessor \<Rightarrow>
   (accessor \<times> byte list list) result" where
  "string_blocks sz is_null buffer start_offset al remaining row start oa =
     (if remaining = 0 then Inr (oa, [])
      else if \<not> block_index oa < length (al_blocks al) \<or> al_block_size al < offset_in_block oa then
        Inl (Undefined_behaviour ''offset outside of the allocation'')
      else
        let n = min remaining ((al_block_size al - offset_in_block oa) div sz);
            offsets = map (\<lambda>i. offset_value sz (block_read (block_index oa) (offset_in_block oa + i * sz) sz al)) [0..<n];
            off = offset_in_block oa + n * sz;
            off = (if n = remaining then off - sz else off);
            oa' = (if off = al_block_size al then oa\<lparr>block_index := block_index oa + 1, offset_in_block := 0\<rparr>
              else oa\<lparr>offset_in_block := off\<rparr>) in
        if n = 0 \<and> offset_in_block oa \<noteq> al_block_size al then Inl (Undefined_behaviour ''loop without progress'')
        else bind_result (block_strings is_null buffer start_offset row start offsets) (\<lambda>(strs, start').
          bind_result (string_blocks sz is_null buffer start_offset al (remaining - n) (row + n) start' oa')
            (\<lambda>(oa'', rest). Inr (oa'', strs @ rest))))"
  by pat_completeness auto
termination
  by (relation "measures [\<lambda>(_, _, _, _, _, n, _, _, _). n,
        \<lambda>(_, _, _, _, al, _, _, _, oa). length (al_blocks al) - block_index oa]")
     (auto simp: Let_def split: if_splits)

declare string_blocks.simps [simp del]

definition make_duckdb_strings ::
  "nat \<Rightarrow> (nat \<Rightarrow> bool) \<Rightarrow> byte list \<Rightarrow> nat \<Rightarrow> alloc \<Rightarrow> nat \<Rightarrow> accessor \<Rightarrow> (accessor \<times> byte list list) result" where
  "make_duckdb_strings sz is_null buffer start_offset al n oa =
     string_blocks sz is_null buffer start_offset al n 0 start_offset (advance_as sz oa)"

definition mask_is_null :: "byte list \<Rightarrow> nat \<Rightarrow> bool" where
  "mask_is_null vmask i \<longleftrightarrow> \<not> bit (vmask ! (i div 8)) (i mod 8)"

text \<open>The body shared by the two branches on the width of the offsets.\<close>

definition copy_strings_with ::
  "nat \<Rightarrow> accessor \<Rightarrow> nat \<Rightarrow> nat \<Rightarrow> alloc \<Rightarrow> column_reader \<Rightarrow> (accessor \<times> column_reader \<times> read_vector) result" where
  "copy_strings_with sz oa row_off n al r =
     bind_result (get_current_as sz oa al) (\<lambda>start_bytes.
     bind_result (acc_get sz (row_off + n) oa al) (\<lambda>end_bytes.
     let start_offset = offset_value sz start_bytes;
         total_data_bytes = size_sub (offset_value sz end_bytes) start_offset in
     bind_result (memcpy_to total_data_bytes (data_accessor r) al) (\<lambda>(da, buffer).
     let r = r\<lparr>data_accessor := da\<rparr> in
     if cr_null_count r \<noteq> 0 then
       bind_result (copy_mask_to_validity row_off n al r) (\<lambda>(r, vmask).
       bind_result (make_duckdb_strings sz (mask_is_null vmask) buffer start_offset al n oa) (\<lambda>(oa, strs).
         Inr (oa, r, \<lparr>rv_data = [], rv_validity = Some vmask, rv_strings = strs\<rparr>)))
     else
       bind_result (make_duckdb_strings sz (\<lambda>_. False) buffer start_offset al n oa) (\<lambda>(oa, strs).
         Inr (oa, r, \<lparr>rv_data = [], rv_validity = None, rv_strings = strs\<rparr>)))))"

definition copy_string :: "nat \<Rightarrow> nat \<Rightarrow> alloc \<Rightarrow> column_reader \<Rightarrow> (column_reader \<times> read_vector) result" where
  "copy_string row_off n al r =
     throw_if (\<not> row_off + n \<le> cr_size r) (Undefined_behaviour ''assert(row_offset + count <= size)'')
     (if use_int64_offsets r then
        bind_result (copy_strings_with 8 (offset_accessor_64 r) row_off n al r) (\<lambda>(oa, r, v).
          Inr (r\<lparr>offset_accessor_64 := oa\<rparr>, v))
      else
        bind_result (copy_strings_with 4 (offset_accessor_32 r) row_off n al r) (\<lambda>(oa, r, v).
          Inr (r\<lparr>offset_accessor_32 := oa\<rparr>, v)))"

section \<open>The table reader\<close>

text \<open>What the reader uses of DuckDB's type system and casts.\<close>

record 'p duck_vectors =
  internal_type :: "duck_type \<Rightarrow> 'p"
  type_id_size :: "'p \<Rightarrow> nat"
  vector_cast :: "duck_type \<Rightarrow> duck_type \<Rightarrow> nat \<Rightarrow> read_vector \<Rightarrow> read_vector"

record table_reader =
  reader_allocation :: alloc
  reader_types :: "duck_type list"
  total_rows :: nat
  reader_row_offset :: nat
  column_readers :: "column_reader list"

fun make_readers :: "nat \<Rightarrow> alloc \<Rightarrow> column_metadata list \<Rightarrow> column_reader list result" where
  "make_readers rows al [] = Inr []"
| "make_readers rows al (col # cols) =
     throw_if (md_num_rows col \<noteq> rows) (Runtime_error ''Metadata column size mismatch across columns.'')
     (bind_result (make_column_reader col al) (\<lambda>r.
      bind_result (make_readers rows al cols) (\<lambda>rs. Inr (r # rs))))"

definition make_table_reader :: "host_table_allocation \<Rightarrow> duck_type list \<Rightarrow> table_reader result" where
  "make_table_reader host_table types =
     (let al = ht_allocation host_table; cols = ht_columns host_table;
          reader = \<lparr>reader_allocation = al, reader_types = types, total_rows = 0, reader_row_offset = 0, column_readers = []\<rparr> in
      throw_if (length cols \<noteq> length types) (Runtime_error ''Metadata column count does not match expected column count.'')
      (if length (al_blocks al) * al_block_size al = 0 then
         throw_if (cols = []) (Undefined_behaviour ''columns[0] of no columns'')
         (throw_if (md_num_rows (hd cols) \<noteq> 0) (Invalid_input_exception ''host_table has rows but a zero-sized allocation'')
           (Inr reader))
       else case cols of
           [] \<Rightarrow> Inr reader
         | col # _ \<Rightarrow> bind_result (make_readers (md_num_rows col) al cols) (\<lambda>rs.
             Inr (reader\<lparr>total_rows := md_num_rows col, column_readers := rs\<rparr>))))"

definition read_column ::
  "'p duck_vectors \<Rightarrow> duck_type \<Rightarrow> nat \<Rightarrow> nat \<Rightarrow> alloc \<Rightarrow> column_reader \<Rightarrow> (column_reader \<times> read_vector) result" where
  "read_column api t row_off n al r =
     (if cudf_type_id (cudf_col_type r) = CUDF_STRING then
        let varchar = duck_type_of D_VARCHAR in
        if internal_type api t = internal_type api varchar then copy_string row_off n al r
        else map_sum id (map_prod id (vector_cast api varchar t n)) (copy_string row_off n al r)
      else
        let src = cudf_type_to_duckdb (cudf_col_type r) in
        if dt_id src = D_SQLNULL \<or> internal_type api src = internal_type api t
        then copy_fixed_width (type_id_size api (internal_type api t)) row_off n al r
        else map_sum id (map_prod id (vector_cast api src t n))
          (copy_fixed_width (type_id_size api (internal_type api src)) row_off n al r))"

fun read_columns ::
  "'p duck_vectors \<Rightarrow> nat \<Rightarrow> nat \<Rightarrow> alloc \<Rightarrow> duck_type list \<Rightarrow> column_reader list \<Rightarrow>
   (column_reader list \<times> read_vector list) result" where
  "read_columns api row_off n al (t # ts) (r # rs) =
     bind_result (read_column api t row_off n al r) (\<lambda>(r, v).
     bind_result (read_columns api row_off n al ts rs) (\<lambda>(rs, vs). Inr (r # rs, v # vs)))"
| "read_columns api row_off n al [] (r # rs) = Inl (Undefined_behaviour ''chunk.data out of range'')"
| "read_columns api row_off n al ts [] = Inr ([], [])"

text \<open>The chunk is its number of rows and its vectors; \<open>None\<close> when no row is left.\<close>

definition reader_next_chunk ::
  "'p duck_vectors \<Rightarrow> table_reader \<Rightarrow> (table_reader \<times> (nat \<times> read_vector list) option) result" where
  "reader_next_chunk api r =
     (if reader_row_offset r \<ge> total_rows r then Inr (r, None)
      else
        let n = min (total_rows r - reader_row_offset r) STANDARD_VECTOR_SIZE in
        bind_result (read_columns api (reader_row_offset r) n (reader_allocation r) (reader_types r) (column_readers r))
          (\<lambda>(rs, vs). Inr (r\<lparr>column_readers := rs, reader_row_offset := reader_row_offset r + n\<rparr>, Some (n, vs))))"

definition calculate_num_chunks :: "table_reader \<Rightarrow> nat" where
  "calculate_num_chunks r = ceil_div (total_rows r) STANDARD_VECTOR_SIZE"

section \<open>Bytes held in an allocation\<close>

definition has_bytes :: "alloc \<Rightarrow> nat \<Rightarrow> byte list \<Rightarrow> bool" where
  "has_bytes al p bs \<longleftrightarrow> p + length bs \<le> length (flat al) \<and> read_at p (length bs) (flat al) = bs"

lemma has_bytes_slice:
  assumes "has_bytes al p bs" and "i + n \<le> length bs"
  shows "read_at (p + i) n (flat al) = take n (drop i bs)"
proof -
  have "take n (drop i (read_at p (length bs) (flat al))) = read_at (p + i) n (flat al)"
    using assms(2) by (simp add: read_at_def drop_take min_def add.commute)
  with assms(1) show ?thesis by (simp add: has_bytes_def)
qed

lemma has_bytes_read:
  assumes "wf_alloc al" and "has_bytes al p bs" and "cursor_ok al a" and "position a = p + i" and "i + n \<le> length bs"
  obtains a' where "memcpy_to n a al = Inr (a', take n (drop i bs))" and "cursor_ok al a'"
    and "position a' = p + (i + n)" and "initial_byte_offset a' = initial_byte_offset a"
  using memcpy_to_flat [OF assms(1,3), of n] has_bytes_slice [OF assms(2,5)] assms(2,4,5)
  by (auto simp: has_bytes_def add.assoc)

lemma column_has_bytes:
  "data_holds al a bytes \<Longrightarrow> has_bytes al (initial_byte_offset a) bytes"
  "mask_holds al a bits \<Longrightarrow> has_bytes al (initial_byte_offset a) (pack bits)"
  "offsets_hold al a col \<Longrightarrow> has_bytes al (initial_byte_offset a) (offset_bytes col)"
  by (simp_all add: data_holds_def mask_holds_def offsets_hold_def has_bytes_def)

section \<open>Reading validities\<close>

definition mask_reader :: "alloc \<Rightarrow> bool list \<Rightarrow> nat \<Rightarrow> column_reader \<Rightarrow> bool" where
  "mask_reader al bits row r \<longleftrightarrow> cr_size r = length bits \<and> cr_null_count r = length (filter Not bits) \<and>
     (cr_null_count r \<noteq> 0 \<longrightarrow> cursor_ok al (mask_accessor r) \<and>
        has_bytes al (initial_byte_offset (mask_accessor r)) (pack bits) \<and>
        (row < length bits \<longrightarrow> position (mask_accessor r) = initial_byte_offset (mask_accessor r) + row div 8))"

text \<open>A read of \<open>n\<close> rows at \<open>row\<close>: byte-aligned, within the column, and the last one unless it is of whole bytes.\<close>

definition read_range :: "nat \<Rightarrow> nat \<Rightarrow> nat \<Rightarrow> bool" where
  "read_range row n rows \<longleftrightarrow> row mod 8 = 0 \<and> 0 < n \<and> row + n \<le> rows \<and> (n mod 8 = 0 \<or> row + n = rows)"

lemma read_rangeD:
  assumes "read_range row n rows"
  shows "row = 8 * (row div 8)" "row + n \<le> rows" "row div 8 + (n + 7) div 8 \<le> (rows + 7) div 8"
    "row < rows" "row + n < rows \<Longrightarrow> (row + n) div 8 = row div 8 + (n + 7) div 8"
proof -
  show r: "row = 8 * (row div 8)" using assms by (auto simp: read_range_def mod_eq_0_iff_dvd elim!: dvdE)
  show le: "row + n \<le> rows" "row < rows" using assms by (simp_all add: read_range_def)
  have "(row + n + 7) div 8 = row div 8 + (n + 7) div 8"
    by (subst r) (simp add: add.assoc)
  with le div_le_mono [of "row + n + 7" "rows + 7" 8] show "row div 8 + (n + 7) div 8 \<le> (rows + 7) div 8" by simp
  assume "row + n < rows"
  then have "n mod 8 = 0" using assms by (simp add: read_range_def)
  then obtain k where "n = 8 * k" by (auto simp: mod_eq_0_iff_dvd elim!: dvdE)
  with r show "(row + n) div 8 = row div 8 + (n + 7) div 8" by simp
qed

lemma pack_slice_bit:
  assumes "read_range row n (length bits)" and "i < n"
  shows "bit (take ((n + 7) div 8) (drop (row div 8) (pack bits)) ! (i div 8)) (i mod 8) = bits ! (row + i)"
proof -
  note r = read_rangeD [OF assms(1)]
  have i: "i div 8 < (n + 7) div 8" using assms(2) div_le_mono [of "i + 8" "n + 7" 8] by simp
  then have k: "row div 8 + i div 8 < (length bits + 7) div 8" using r(3) by simp
  have "8 * (row div 8 + i div 8) + i mod 8 = row + i" using r(1) by simp
  moreover have "row + i < length bits" using r(2) assms(2) by simp
  ultimately show ?thesis using bit_pack [OF k, of "i mod 8"] i r(3) by (simp add: add.commute)
qed

lemma copy_mask_ok:
  assumes "wf_alloc al" and "mask_reader al bits row r" and "read_range row n (length bits)" and "cr_null_count r \<noteq> 0"
  obtains ma vmask where "copy_mask_to_validity row n al r = Inr (r\<lparr>mask_accessor := ma\<rparr>, vmask)"
    and "\<And>i. i < n \<Longrightarrow> mask_is_null vmask i = (\<not> bits ! (row + i))"
    and "mask_reader al bits (row + n) (r\<lparr>mask_accessor := ma\<rparr>)"
proof -
  note rr = read_rangeD [OF assms(3)]
  let ?m = "mask_accessor r" and ?v = "take ((n + 7) div 8) (drop (row div 8) (pack bits))"
  have m: "cr_size r = length bits" "cursor_ok al ?m" "has_bytes al (initial_byte_offset ?m) (pack bits)"
    "position ?m = initial_byte_offset ?m + row div 8"
    using assms(2,4) rr(4) by (simp_all add: mask_reader_def)
  obtain ma where a: "memcpy_to ((n + 7) div 8) ?m al = Inr (ma, ?v)" "cursor_ok al ma"
    "position ma = initial_byte_offset ?m + (row div 8 + (n + 7) div 8)" "initial_byte_offset ma = initial_byte_offset ?m"
    using has_bytes_read [OF assms(1) m(3,2,4), of "(n + 7) div 8"] rr(3) by auto
  have "row mod 8 = 0" using assms(3) by (simp add: read_range_def)
  then have "copy_mask_to_validity row n al r = Inr (r\<lparr>mask_accessor := ma\<rparr>, ?v)"
    using m(1) rr(2) a(1) by (simp add: copy_mask_to_validity_def)
  moreover have "mask_reader al bits (row + n) (r\<lparr>mask_accessor := ma\<rparr>)"
    using assms(2) m a rr(5) by (auto simp: mask_reader_def)
  ultimately show ?thesis
    using pack_slice_bit [OF assms(3)] by (intro that [of ma ?v]) (simp_all add: mask_is_null_def)
qed

section \<open>Reading fixed-width columns\<close>

definition vector_valid :: "read_vector \<Rightarrow> nat \<Rightarrow> bool" where
  "vector_valid v i = (case rv_validity v of None \<Rightarrow> True | Some vmask \<Rightarrow> \<not> mask_is_null vmask i)"

definition fixed_reader :: "alloc \<Rightarrow> nat \<Rightarrow> byte list \<Rightarrow> bool list \<Rightarrow> nat \<Rightarrow> column_reader \<Rightarrow> bool" where
  "fixed_reader al width bytes bits row r \<longleftrightarrow> length bytes = width * length bits \<and>
     cursor_ok al (data_accessor r) \<and> has_bytes al (initial_byte_offset (data_accessor r)) bytes \<and>
     position (data_accessor r) = initial_byte_offset (data_accessor r) + width * row \<and> mask_reader al bits row r"

lemma no_nulls: "length (filter Not bits) = 0 \<Longrightarrow> i < length bits \<Longrightarrow> bits ! i"
  by (auto simp: filter_empty_conv)

lemma copy_fixed_width_ok:
  assumes "wf_alloc al" and "fixed_reader al width bytes bits row r" and "read_range row n (length bits)"
  obtains r' v where "copy_fixed_width width row n al r = Inr (r', v)"
    and "rv_data v = take (width * n) (drop (width * row) bytes)"
    and "\<And>i. i < n \<Longrightarrow> vector_valid v i = bits ! (row + i)"
    and "fixed_reader al width bytes bits (row + n) r'" and "cudf_col_type r' = cudf_col_type r"
proof -
  note rr = read_rangeD [OF assms(3)]
  have f: "length bytes = width * length bits" "cursor_ok al (data_accessor r)"
    "has_bytes al (initial_byte_offset (data_accessor r)) bytes"
    "position (data_accessor r) = initial_byte_offset (data_accessor r) + width * row" "mask_reader al bits row r"
    using assms(2) by (simp_all add: fixed_reader_def)
  have "width * row + n * width \<le> length bytes"
    unfolding f(1) using mult_le_mono2 [OF rr(2), of width] by (simp add: distrib_left mult.commute)
  from has_bytes_read [OF assms(1) f(3,2,4) this] obtain da where
    d: "memcpy_to (n * width) (data_accessor r) al = Inr (da, take (n * width) (drop (width * row) bytes))"
      "cursor_ok al da" "position da = initial_byte_offset (data_accessor r) + (width * row + n * width)"
      "initial_byte_offset da = initial_byte_offset (data_accessor r)" by blast
  let ?r = "r\<lparr>data_accessor := da\<rparr>"
  have size: "row + n \<le> cr_size r" using f(5) rr(2) by (simp add: mask_reader_def)
  show ?thesis
  proof (cases "cr_null_count r = 0")
    case True
    then have "bits ! (row + i)" if "i < n" for i
      using no_nulls [of bits "row + i"] f(5) rr(2) that by (simp add: mask_reader_def)
    with True show ?thesis
      using d f size
      by (intro that [of ?r "\<lparr>rv_data = take (n * width) (drop (width * row) bytes), rv_validity = None, rv_strings = []\<rparr>"])
        (simp_all add: copy_fixed_width_def vector_valid_def fixed_reader_def mask_reader_def algebra_simps)
  next
    case False
    have "mask_reader al bits row ?r" using f(5) by (simp add: mask_reader_def)
    then obtain ma vmask where m: "copy_mask_to_validity row n al ?r = Inr (?r\<lparr>mask_accessor := ma\<rparr>, vmask)"
      "\<And>i. i < n \<Longrightarrow> mask_is_null vmask i = (\<not> bits ! (row + i))" "mask_reader al bits (row + n) (?r\<lparr>mask_accessor := ma\<rparr>)"
      using copy_mask_ok [OF assms(1) _ assms(3), of ?r] False by auto
    with False show ?thesis
      using d f size
      by (intro that [of "?r\<lparr>mask_accessor := ma\<rparr>" "\<lparr>rv_data = take (n * width) (drop (width * row) bytes), rv_validity = Some vmask, rv_strings = []\<rparr>"])
        (simp_all add: copy_fixed_width_def vector_valid_def fixed_reader_def algebra_simps)
  qed
qed

section \<open>Reading strings\<close>

lemma block_strings_append:
  "block_strings is_null buffer so row start (xs @ ys) =
     bind_result (block_strings is_null buffer so row start xs) (\<lambda>(strs, start').
     bind_result (block_strings is_null buffer so (row + length xs) start' ys) (\<lambda>(strs', l). Inr (strs @ strs', l)))"
proof (induction xs arbitrary: row start)
  case Nil
  show ?case by (simp add: bind_result_def split: sum.splits)
next
  case (Cons x xs)
  then show ?case by (simp add: bind_result_def split: sum.splits)
qed

definition offsets_from :: "nat \<Rightarrow> alloc \<Rightarrow> nat \<Rightarrow> nat \<Rightarrow> nat list" where
  "offsets_from sz al p n = map (\<lambda>j. offset_value sz (read_at (p + sz * j) sz (flat al))) [0..<n]"

lemma offsets_from_split:
  assumes "k \<le> n"
  shows "offsets_from sz al p n = offsets_from sz al p k @ offsets_from sz al (p + sz * k) (n - k)"
proof -
  have "map f [0..<n] = map f [0..<k] @ map (\<lambda>j. f (k + j)) [0..<n - k]" for f :: "nat \<Rightarrow> nat"
  proof -
    have "[0..<n] = [0..<k] @ [k..<n]" using assms upt_add_eq_append [of 0 k "n - k"] by simp
    moreover have "map f [k..<n] = map (\<lambda>j. f (k + j)) [0..<n - k]"
      using assms by (intro nth_equalityI) simp_all
    ultimately show ?thesis by simp
  qed
  then show ?thesis by (simp add: offsets_from_def distrib_left add.assoc)
qed

lemma block_offsets:
  assumes "wf_alloc al" and "cursor_ok al oa" and "block_index oa < length (al_blocks al)"
    and "offset_in_block oa + n * sz \<le> al_block_size al"
  shows "map (\<lambda>i. offset_value sz (block_read (block_index oa) (offset_in_block oa + i * sz) sz al)) [0..<n] =
    offsets_from sz al (position oa) n"
proof -
  have "block_read (block_index oa) (offset_in_block oa + i * sz) sz al = read_at (position oa + sz * i) sz (flat al)"
    if "i < n" for i
  proof -
    have "(i + 1) * sz \<le> n * sz" using that by (intro mult_le_mono1) simp
    then have "offset_in_block oa + i * sz + sz \<le> al_block_size al" using assms(4) by (simp add: algebra_simps)
    then show ?thesis
      using flat_block_read [OF assms(1,3), of "offset_in_block oa + i * sz" sz] cursor_okD [OF assms(2)]
      by (simp add: position_def algebra_simps)
  qed
  then show ?thesis unfolding offsets_from_def by (intro map_cong) simp_all
qed

lemma aligned_cursor:
  assumes "al_block_size al mod sz = 0" and "cursor_ok al a" and "position a mod sz = 0" and "sz > 0"
  obtains j k where "al_block_size al = k * sz" and "offset_in_block a = j * sz" and "j < k"
proof -
  from assms(1) obtain k where k: "al_block_size al = k * sz" by (auto simp: mod_eq_0_iff_dvd dvd_def mult.commute)
  have "position a = (block_index a * k) * sz + offset_in_block a"
    using cursor_okD [OF assms(2)] by (simp add: position_def k)
  with assms(3) have "offset_in_block a mod sz = 0" by simp
  then obtain j where j: "offset_in_block a = j * sz" by (auto simp: mod_eq_0_iff_dvd dvd_def mult.commute)
  with cursor_okD(3) [OF assms(2)] k have "j < k" by simp
  with j k show ?thesis by (intro that)
qed

definition cursor_at :: "alloc \<Rightarrow> accessor \<Rightarrow> nat \<Rightarrow> accessor" where
  "cursor_at al a p = a\<lparr>block_index := p div al_block_size al, offset_in_block := p mod al_block_size al\<rparr>"

lemma cursor_at_ok:
  assumes "wf_alloc al" and "cursor_ok al a"
  shows "cursor_ok al (cursor_at al a p)" and "position (cursor_at al a p) = p"
    and "initial_byte_offset (cursor_at al a p) = initial_byte_offset a"
  using assms cursor_okD [OF assms(2)] by (simp_all add: cursor_at_def cursor_ok_def position_def wf_alloc_def)

lemma cursor_at_eqI:
  assumes "cursor_ok al a" and "off < al_block_size al"
    and "p = i * al_block_size al + off"
  shows "cursor_at al a p = a\<lparr>block_index := i, offset_in_block := off\<rparr>"
  using assms by (simp add: cursor_at_def)

lemma cursor_at_cursor_at [simp]:
  "cursor_at al (a\<lparr>block_index := i, offset_in_block := off\<rparr>) p = cursor_at al a p"
  by (simp add: cursor_at_def)

text \<open>Reading block by block is reading the offsets one after the other; the cursor ends on the last one.\<close>

lemma string_blocks_step:
  assumes "wf_alloc al" and jk: "al_block_size al = k * sz" "offset_in_block oa = j * sz" "j < k" and "sz > 0"
    and "cursor_ok al oa" and bi: "block_index oa < length (al_blocks al)" and "n > 0"
  shows "string_blocks sz is_null buffer so al n row start oa =
    bind_result (block_strings is_null buffer so row start (offsets_from sz al (position oa) (min n (k - j)))) (\<lambda>(strs, start').
      bind_result (string_blocks sz is_null buffer so al (n - min n (k - j)) (row + min n (k - j)) start'
        (if n \<le> k - j then oa\<lparr>offset_in_block := (j + n - 1) * sz\<rparr>
         else oa\<lparr>block_index := block_index oa + 1, offset_in_block := 0\<rparr>)) (\<lambda>(oa'', rest). Inr (oa'', strs @ rest)))"
proof -
  define m where "m = min n (k - j)"
  have m: "0 < m" "j + m \<le> k" using assms(8) jk(3) by (simp_all add: m_def)
  have "(al_block_size al - offset_in_block oa) div sz = k - j"
    using assms(5) by (simp add: jk diff_mult_distrib [symmetric])
  then have div: "min n ((al_block_size al - offset_in_block oa) div sz) = m" by (simp add: m_def)
  have fits: "offset_in_block oa + m * sz \<le> al_block_size al"
    using mult_le_mono1 [OF m(2), of sz] by (simp add: jk distrib_right)
  have next_off: "(let off = offset_in_block oa + m * sz; off = (if m = n then off - sz else off) in
      if off = al_block_size al then oa\<lparr>block_index := block_index oa + 1, offset_in_block := 0\<rparr>
      else oa\<lparr>offset_in_block := off\<rparr>) =
    (if n \<le> k - j then oa\<lparr>offset_in_block := (j + n - 1) * sz\<rparr>
     else oa\<lparr>block_index := block_index oa + 1, offset_in_block := 0\<rparr>)"
  proof (cases "n \<le> k - j")
    case True
    then have mn: "m = n" by (simp add: m_def)
    have "j * sz + n * sz - sz = (j + n - 1) * sz" by (simp add: diff_mult_distrib distrib_right)
    moreover have "(j + n - 1) * sz < k * sz" using m mn assms(5) by simp
    ultimately show ?thesis using True by (simp add: mn jk)
  next
    case False
    then have "m \<noteq> n" "j + m = k" using jk(3) by (simp_all add: m_def)
    then have "offset_in_block oa + m * sz = al_block_size al" by (simp add: jk distrib_right [symmetric])
    with False \<open>m \<noteq> n\<close> show ?thesis by simp
  qed
  show ?thesis
    unfolding m_def [symmetric] next_off [symmetric]
    using assms(8) bi m(1) cursor_okD(3) [OF assms(6)] block_offsets [OF assms(1,6) bi fits]
    by (subst string_blocks.simps) (simp add: div Let_def)
qed

lemma string_blocks_eq:
  assumes "wf_alloc al" and "al_block_size al mod sz = 0" and "sz > 0" and "cursor_ok al oa"
    and "position oa mod sz = 0" and "position oa + sz * n \<le> length (flat al)" and "n > 0"
  shows "string_blocks sz is_null buffer so al n row start oa =
    bind_result (block_strings is_null buffer so row start (offsets_from sz al (position oa) n))
      (\<lambda>(strs, l). Inr (cursor_at al oa (position oa + sz * n - sz), strs))"
  using assms
proof (induction n arbitrary: row start oa rule: less_induct)
  case (less n)
  obtain j k where jk: "al_block_size al = k * sz" "offset_in_block oa = j * sz" "j < k"
    by (rule aligned_cursor [OF less.prems(2,4,5,3)])
  note cur = cursor_okD [OF less.prems(4)]
  have "0 < sz * n" using less.prems(3,7) by simp
  then have "position oa < length (flat al)" using less.prems(6) by linarith
  then have bi: "block_index oa < length (al_blocks al)" by (rule position_block [OF less.prems(1,4)])
  note step = string_blocks_step [OF less.prems(1) jk less.prems(3,4) bi less.prems(7)]
  have p: "position oa = block_index oa * (k * sz) + j * sz" using cur(1) by (simp add: position_def jk)
  show ?case
  proof (cases "n \<le> k - j")
    case True
    have lt: "(j + n - 1) * sz < k * sz" using True less.prems(3,7) jk(3) by simp
    have "position oa + sz * n - sz = block_index oa * (k * sz) + (j + n - 1) * sz"
      using less.prems(7) by (cases n) (simp_all add: p algebra_simps)
    then have "cursor_at al oa (position oa + sz * n - sz) = oa\<lparr>block_index := block_index oa, offset_in_block := (j + n - 1) * sz\<rparr>"
      using lt by (intro cursor_at_eqI [OF less.prems(4)]) (simp_all add: jk)
    then show ?thesis
      using True by (simp add: step min_absorb1 string_blocks.simps [of _ _ _ _ _ 0])
  next
    case False
    define m where "m = k - j"
    have m: "min n (k - j) = m" "m < n" "0 < m" "j + m = k" using False jk(3) by (simp_all add: m_def)
    define oa1 where "oa1 = oa\<lparr>block_index := block_index oa + 1, offset_in_block := 0\<rparr>"
    have at1: "cursor_at al oa1 p = cursor_at al oa p" for p by (simp add: oa1_def)
    have "k * sz = j * sz + sz * m" unfolding m(4) [symmetric] by (simp add: algebra_simps)
    then have pos: "position oa1 = position oa + sz * m"
      using cur(1) by (simp add: p) (simp add: oa1_def position_def jk)
    have oa: "cursor_ok al oa1" using less.prems(4) less.prems(1) by (simp add: oa1_def cursor_ok_def wf_alloc_def)
    have sum: "sz * m + sz * (n - m) = sz * n" using m(2) by (simp add: distrib_left [symmetric])
    then have "position oa1 mod sz = 0" "position oa1 + sz * (n - m) \<le> length (flat al)"
      "position oa1 + sz * (n - m) - sz = position oa + sz * n - sz"
      using less.prems(5,6) pos by simp_all
    then have IH: "string_blocks sz is_null buffer so al (n - m) (row + m) start' oa1 =
        bind_result (block_strings is_null buffer so (row + m) start' (offsets_from sz al (position oa + sz * m) (n - m)))
          (\<lambda>(strs, l). Inr (cursor_at al oa (position oa + sz * n - sz), strs))" for start'
      using less.IH [of "n - m" oa1 "row + m" start', OF _ less.prems(1-3) oa] m(2,3) pos by (simp add: at1)
    have len: "length (offsets_from sz al (position oa) m) = m" by (simp add: offsets_from_def)
    have le: "m \<le> n" using m(2) by simp
    show ?thesis
      unfolding step m(1) offsets_from_split [OF le, of sz al "position oa"] block_strings_append len oa1_def [symmetric]
        if_not_P [OF False] IH
      by (simp add: bind_result_def split: sum.splits)
  qed
qed

lemma make_duckdb_strings_eq:
  assumes "wf_alloc al" and "al_block_size al mod sz = 0" and "sz > 0" and "cursor_ok al oa"
    and "position oa mod sz = 0" and "position oa + sz * (n + 1) \<le> length (flat al)" and "n > 0"
  shows "make_duckdb_strings sz is_null buffer so al n oa =
    bind_result (block_strings is_null buffer so 0 so (offsets_from sz al (position oa + sz) n))
      (\<lambda>(strs, l). Inr (cursor_at al oa (position oa + sz * n), strs))"
proof -
  have bs: "al_block_size al > 0" using assms(1) by (simp add: wf_alloc_def)
  note a = advance_ok [OF assms(4) aligned_fits [OF assms(2,4,5,3)] bs]
  have "cursor_at al (advance_as sz oa) p = cursor_at al oa p" for p
    by (simp add: advance_as_def Let_def cursor_at_def)
  then show ?thesis
    using string_blocks_eq [OF assms(1-3) a(1), of n is_null buffer so 0 so] assms(5-7) a(2)
    by (simp add: make_duckdb_strings_def algebra_simps)
qed

definition row_string :: "byte list option \<Rightarrow> byte list" where
  "row_string x = (case x of None \<Rightarrow> [] | Some str \<Rightarrow> str)"

lemma string_heap_single [simp]: "string_heap [x] = row_string x"
  by (simp add: string_heap_def row_string_def)

fun string_ends :: "nat \<Rightarrow> byte list option list \<Rightarrow> nat list" where
  "string_ends start [] = []"
| "string_ends start (x # xs) = (start + length (row_string x)) # string_ends (start + length (row_string x)) xs"

lemma nth_string_ends:
  "i < length xs \<Longrightarrow> string_ends start xs ! i = start + length (string_heap (take (Suc i) xs))"
proof (induction xs arbitrary: i start)
  case (Cons x xs)
  then show ?case by (cases i) (simp_all add: string_heap_Cons [of x "take _ xs"])
qed simp

lemma length_string_ends [simp]: "length (string_ends start xs) = length xs"
  by (induction xs arbitrary: start) simp_all

lemma block_strings_ok:
  assumes "\<forall>k < length xs. is_null (i + k) \<longleftrightarrow> xs ! k = None"
  shows "block_strings is_null (pre @ string_heap xs) so i (so + length pre) (string_ends (so + length pre) xs) =
    Inr (map row_string xs, so + length pre + length (string_heap xs))"
  using assms
proof (induction xs arbitrary: pre i)
  case Nil
  then show ?case by simp
next
  case (Cons x xs)
  have x: "is_null i \<longleftrightarrow> x = None" using Cons.prems by force
  have "\<forall>k < length xs. is_null (i + 1 + k) \<longleftrightarrow> xs ! k = None" using Cons.prems by fastforce
  from Cons.IH [OF this, of "pre @ row_string x"]
  have IH: "block_strings is_null (pre @ string_heap (x # xs)) so (i + 1) (so + length pre + length (row_string x))
      (string_ends (so + length pre + length (row_string x)) xs) =
    Inr (map row_string xs, so + length pre + length (string_heap (x # xs)))"
    by (simp add: string_heap_Cons [of x] add.assoc)
  show ?case
  proof (cases x)
    case None
    with x IH show ?thesis by (simp add: row_string_def)
  next
    case (Some str)
    have "string_at (pre @ string_heap (x # xs)) so (so + length pre) (so + length pre + length str) = Inr str"
      by (simp add: string_at_def Some string_heap_Cons [of "Some str"] row_string_def)
    with Some x IH show ?thesis by (simp add: row_string_def)
  qed
qed

lemma nth_concat_same:
  assumes "\<forall>x \<in> set xss. length x = n" and "i < length xss"
  shows "take n (drop (n * i) (concat xss)) = xss ! i"
  using assms
proof (induction xss arbitrary: i)
  case (Cons x xss)
  then show ?case by (cases i) simp_all
qed simp

definition string_end :: "byte list option list \<Rightarrow> nat \<Rightarrow> nat" where
  "string_end col i = length (string_heap (take i col))"

lemma offset_bytes_slice:
  assumes "i \<le> length col"
  shows "take 4 (drop (4 * i) (offset_bytes col)) = int32_bytes (of_nat (string_end col i))"
  using assms nth_concat_same [of "map int32_bytes (end_offsets col)" 4 i]
  by (simp add: offset_bytes_def string_end_def) (simp add: end_offsets_def del: upt_Suc)

lemma string_end_mono: "i \<le> j \<Longrightarrow> string_end col i \<le> string_end col j"
proof -
  assume "i \<le> j"
  then have "take j col = take i col @ take (j - i) (drop i col)" by (metis le_add_diff_inverse take_add)
  then show ?thesis by (simp add: string_end_def string_heap_append)
qed

lemma string_end_le: "string_end col i \<le> length (string_heap col)"
  using string_end_mono [of i "max i (length col)" col] by (simp add: string_end_def)

lemma offset_value_int32:
  assumes "x < 2 ^ 31"
  shows "offset_value 4 (int32_bytes (of_nat x)) = x"
proof -
  have "sint (of_nat x :: 32 word) = int x"
    using assms signed_take_bit_int_eq_self [of 31 "int x"] by (simp add: sint_uint unsigned_of_nat take_bit_nat_eq_self)
  then have "(scast (of_nat x :: 32 word) :: 64 word) = of_nat x"
    by (simp add: scast_eq)
  with assms show ?thesis by (simp add: offset_value_def unat_of_nat)
qed

definition varchar_reader :: "alloc \<Rightarrow> byte list option list \<Rightarrow> nat \<Rightarrow> column_reader \<Rightarrow> bool" where
  "varchar_reader al col row r \<longleftrightarrow> \<not> use_int64_offsets r \<and> length (string_heap col) < 2 ^ 31 \<and>
     al_block_size al mod 4 = 0 \<and> initial_byte_offset (offset_accessor_32 r) mod 4 = 0 \<and>
     cursor_ok al (offset_accessor_32 r) \<and> has_bytes al (initial_byte_offset (offset_accessor_32 r)) (offset_bytes col) \<and>
     position (offset_accessor_32 r) = initial_byte_offset (offset_accessor_32 r) + 4 * row \<and>
     cursor_ok al (data_accessor r) \<and> has_bytes al (initial_byte_offset (data_accessor r)) (string_heap col) \<and>
     position (data_accessor r) = initial_byte_offset (data_accessor r) + string_end col row \<and>
     mask_reader al (map (\<lambda>x. x \<noteq> None) col) row r"

lemma offset_at:
  assumes "has_bytes al p (offset_bytes col)" and "i \<le> length col" and "length (string_heap col) < 2 ^ 31"
  shows "offset_value 4 (read_at (p + 4 * i) 4 (flat al)) = string_end col i"
proof -
  have "string_end col i < 2 ^ 31" using string_end_le [of col i] assms(3) by simp
  moreover have "read_at (p + 4 * i) 4 (flat al) = int32_bytes (of_nat (string_end col i))"
    using has_bytes_slice [OF assms(1), of "4 * i" 4] assms(2) by (simp add: offset_bytes_slice)
  ultimately show ?thesis by (simp add: offset_value_int32)
qed

lemma heap_segment:
  assumes "row + n \<le> length col"
  shows "string_heap (take n (drop row col)) = take (string_end col (row + n) - string_end col row) (drop (string_end col row) (string_heap col))"
    and "string_end col (row + n) = string_end col row + length (string_heap (take n (drop row col)))"
proof -
  have t: "take (row + n) col = take row col @ take n (drop row col)" by (simp add: take_add)
  then show e: "string_end col (row + n) = string_end col row + length (string_heap (take n (drop row col)))"
    by (simp add: string_end_def string_heap_append)
  have "string_heap col = string_heap (take row col) @ string_heap (take n (drop row col)) @ string_heap (drop (row + n) col)"
    unfolding string_heap_append [symmetric] by (metis append.assoc append_take_drop_id t)
  then show "string_heap (take n (drop row col)) = take (string_end col (row + n) - string_end col row) (drop (string_end col row) (string_heap col))"
    unfolding e by (simp add: string_end_def)
qed

lemma row_strings_read:
  assumes "wf_alloc al" and r: "varchar_reader al col row r" and range: "read_range row n (length col)"
    and nulls: "\<forall>k < n. is_null k \<longleftrightarrow> col ! (row + k) = None"
  shows "make_duckdb_strings 4 is_null (string_heap (take n (drop row col))) (string_end col row) al n (offset_accessor_32 r) =
    Inr (cursor_at al (offset_accessor_32 r) (initial_byte_offset (offset_accessor_32 r) + 4 * (row + n)),
      map row_string (take n (drop row col)))"
proof -
  let ?O = "initial_byte_offset (offset_accessor_32 r)" and ?seg = "take n (drop row col)"
  note rr = read_rangeD [OF range]
  have o: "al_block_size al mod 4 = 0" "?O mod 4 = 0" "cursor_ok al (offset_accessor_32 r)"
    "has_bytes al ?O (offset_bytes col)" "position (offset_accessor_32 r) = ?O + 4 * row" "length (string_heap col) < 2 ^ 31"
    using r by (simp_all add: varchar_reader_def)
  have len: "length ?seg = n" using rr(2) by simp
  have "offsets_from 4 al (?O + 4 * row + 4) n = string_ends (string_end col row) ?seg"
  proof (rule nth_equalityI)
    fix i assume "i < length (offsets_from 4 al (?O + 4 * row + 4) n)"
    then have i: "i < n" by (simp add: offsets_from_def)
    have le: "row + Suc i \<le> length col" using i rr(2) by simp
    have "offsets_from 4 al (?O + 4 * row + 4) n ! i = offset_value 4 (read_at (?O + 4 * (row + Suc i)) 4 (flat al))"
      using i by (simp add: offsets_from_def algebra_simps)
    also have "\<dots> = string_end col (row + Suc i)" using offset_at [OF o(4) le o(6)] by simp
    also have "\<dots> = string_end col row + length (string_heap (take (Suc i) (drop row col)))" by (rule heap_segment(2) [OF le])
    finally show "offsets_from 4 al (?O + 4 * row + 4) n ! i = string_ends (string_end col row) ?seg ! i"
      using i len by (simp add: nth_string_ends min_def)
  qed (use rr(2) in \<open>simp add: offsets_from_def\<close>)
  moreover have "\<forall>k < length ?seg. is_null (0 + k) \<longleftrightarrow> ?seg ! k = None" using nulls rr(2) by simp
  ultimately have "block_strings is_null (string_heap ?seg) (string_end col row) 0 (string_end col row)
      (offsets_from 4 al (?O + 4 * row + 4) n) = Inr (map row_string ?seg, string_end col row + length (string_heap ?seg))"
    using block_strings_ok [of ?seg is_null 0 "[]" "string_end col row"] by simp
  moreover have "?O + 4 * row + 4 * (n + 1) \<le> length (flat al)" using o(4) rr(2) by (simp add: has_bytes_def)
  moreover have "n > 0" using range by (simp add: read_range_def)
  ultimately show ?thesis
    using make_duckdb_strings_eq [OF assms(1) o(1) _ o(3), of n is_null "string_heap ?seg" "string_end col row"] o(2,5)
    by (simp add: algebra_simps)
qed

text \<open>Both cases of a string read: with and without a mask.\<close>

lemma copy_string_ok:
  assumes "wf_alloc al" and r: "varchar_reader al col row r" and range: "read_range row n (length col)"
  obtains r' v where "copy_string row n al r = Inr (r', v)"
    and "rv_strings v = map row_string (take n (drop row col))"
    and "\<And>i. i < n \<Longrightarrow> vector_valid v i = (col ! (row + i) \<noteq> None)"
    and "varchar_reader al col (row + n) r'" and "cudf_col_type r' = cudf_col_type r"
proof -
  let ?oa = "offset_accessor_32 r" and ?E = "string_end col" and ?bits = "map (\<lambda>x. x \<noteq> None) col"
  let ?O = "initial_byte_offset ?oa" and ?D = "initial_byte_offset (data_accessor r)" and ?seg = "take n (drop row col)"
  let ?oa' = "cursor_at al ?oa (?O + 4 * (row + n))"
  note rr = read_rangeD [OF range]
  have o: "\<not> use_int64_offsets r" "al_block_size al mod 4 = 0" "?O mod 4 = 0" "cursor_ok al ?oa"
    "has_bytes al ?O (offset_bytes col)" "position ?oa = ?O + 4 * row" "length (string_heap col) < 2 ^ 31"
    "cursor_ok al (data_accessor r)" "has_bytes al ?D (string_heap col)"
    "position (data_accessor r) = ?D + ?E row" "mask_reader al ?bits row r"
    using r by (simp_all add: varchar_reader_def)
  have O: "?O + 4 * (row + n) + 4 \<le> length (flat al)" using o(5) rr(2) by (simp add: has_bytes_def)
  have cur: "get_current_as 4 ?oa al = Inr (read_at (?O + 4 * row) 4 (flat al))"
    using get_current_ok [OF assms(1) o(4), of 4] aligned_fits [OF o(2,4)] o(3,6) O by simp
  have get: "acc_get 4 (row + n) ?oa al = Inr (read_at (?O + 4 * (row + n)) 4 (flat al))"
    using acc_get_ok [OF assms(1) o(4), of 4 "row + n"] O o(2,3) by simp
  have total: "size_sub (?E (row + n)) (?E row) = ?E (row + n) - ?E row"
    using string_end_mono [of row "row + n" col] string_end_le [of col "row + n"] o(7) by (simp add: size_sub_def)
  have "?E row + (?E (row + n) - ?E row) \<le> length (string_heap col)"
    using string_end_mono [of row "row + n" col] string_end_le [of col "row + n"] by simp
  from has_bytes_read [OF assms(1) o(9,8,10) this] obtain da where
    d: "memcpy_to (?E (row + n) - ?E row) (data_accessor r) al = Inr (da, string_heap ?seg)" "cursor_ok al da"
      "position da = ?D + ?E (row + n)" "initial_byte_offset da = ?D"
    using heap_segment(1) [OF rr(2)] string_end_mono [of row "row + n" col] by (metis le_add1 le_add_diff_inverse)
  let ?r = "r\<lparr>data_accessor := da\<rparr>"
  have size: "row + n \<le> cr_size r" using o(11) rr(2) by (simp add: mask_reader_def)
  have offs: "offset_value 4 (read_at (?O + 4 * row) 4 (flat al)) = ?E row"
    "offset_value 4 (read_at (?O + 4 * (row + n)) 4 (flat al)) = ?E (row + n)"
    by (rule offset_at [OF o(5) _ o(7)], use rr(2,4) in simp)+
  note strs = row_strings_read [OF assms(1) r range]
  note oa' = cursor_at_ok [OF assms(1) o(4), of "?O + 4 * (row + n)"]
  have done': "varchar_reader al col (row + n) (r'\<lparr>offset_accessor_32 := ?oa'\<rparr>)"
    if "mask_reader al ?bits (row + n) r'" "data_accessor r' = da" "\<not> use_int64_offsets r'" for r'
    using that o d oa' by (simp add: varchar_reader_def mask_reader_def)
  show ?thesis
  proof (cases "cr_null_count r = 0")
    case True
    then have valid: "\<forall>k < n. False \<longleftrightarrow> col ! (row + k) = None"
      using no_nulls [of ?bits] o(11) rr(2) by (force simp: mask_reader_def)
    have "mask_reader al ?bits (row + n) ?r" using o(11) True by (simp add: mask_reader_def)
    with True show ?thesis
      using o(1) size cur get offs total d(1) strs [OF valid] valid done' [of ?r]
      by (intro that [of "?r\<lparr>offset_accessor_32 := ?oa'\<rparr>" "\<lparr>rv_data = [], rv_validity = None, rv_strings = map row_string ?seg\<rparr>"])
        (simp_all add: copy_string_def copy_strings_with_def vector_valid_def)
  next
    case False
    have "mask_reader al ?bits row ?r" using o(11) by (simp add: mask_reader_def)
    moreover have "read_range row n (length ?bits)" using range by simp
    ultimately obtain ma vmask where m: "copy_mask_to_validity row n al ?r = Inr (?r\<lparr>mask_accessor := ma\<rparr>, vmask)"
      "\<And>i. i < n \<Longrightarrow> mask_is_null vmask i = (\<not> ?bits ! (row + i))" "mask_reader al ?bits (row + n) (?r\<lparr>mask_accessor := ma\<rparr>)"
      using copy_mask_ok [OF assms(1), of ?bits row ?r n] False by auto
    then have valid: "\<forall>k < n. mask_is_null vmask k \<longleftrightarrow> col ! (row + k) = None" using rr(2) by simp
    with False show ?thesis
      using o(1) size cur get offs total d(1) strs [OF valid] m done' [of "?r\<lparr>mask_accessor := ma\<rparr>"]
      by (intro that [of "?r\<lparr>mask_accessor := ma, offset_accessor_32 := ?oa'\<rparr>"
            "\<lparr>rv_data = [], rv_validity = Some vmask, rv_strings = map row_string ?seg\<rparr>"])
        (simp_all add: copy_string_def copy_strings_with_def vector_valid_def)
  qed
qed

section \<open>Reading a whole table\<close>

fun reader_holds :: "alloc \<Rightarrow> nat \<Rightarrow> content \<Rightarrow> nat \<Rightarrow> column_reader \<Rightarrow> bool" where
  "reader_holds al width (Fixed_content bytes bits) row r \<longleftrightarrow>
     fixed_reader al width bytes bits row r \<and> cudf_type_id (cudf_col_type r) \<noteq> CUDF_STRING"
| "reader_holds al width (Varchar_content col) row r \<longleftrightarrow>
     varchar_reader al col row r \<and> cudf_type_id (cudf_col_type r) = CUDF_STRING"

text \<open>The vector holds \<open>n\<close> rows of the content from \<open>row\<close> on.\<close>

fun vector_reads :: "nat \<Rightarrow> content \<Rightarrow> nat \<Rightarrow> nat \<Rightarrow> read_vector \<Rightarrow> bool" where
  "vector_reads width (Fixed_content bytes bits) row n v \<longleftrightarrow>
     rv_data v = take (width * n) (drop (width * row) bytes) \<and> (\<forall>i < n. vector_valid v i = bits ! (row + i))"
| "vector_reads width (Varchar_content col) row n v \<longleftrightarrow>
     rv_strings v = map row_string (take n (drop row col)) \<and> (\<forall>i < n. vector_valid v i = (col ! (row + i) \<noteq> None))"

text \<open>The output type has the physical type of the stored column, so that no cast is made.\<close>

definition output_type_ok :: "'p duck_vectors \<Rightarrow> duck_type \<Rightarrow> nat \<Rightarrow> cudf_type \<Rightarrow> bool" where
  "output_type_ok api t width c \<longleftrightarrow>
     (if cudf_type_id c = CUDF_STRING then internal_type api t = internal_type api (duck_type_of D_VARCHAR)
      else (dt_id (cudf_type_to_duckdb c) = D_SQLNULL \<or> internal_type api (cudf_type_to_duckdb c) = internal_type api t) \<and>
        type_id_size api (internal_type api t) = width)"

fun readers_hold ::
  "'p duck_vectors \<Rightarrow> alloc \<Rightarrow> nat \<Rightarrow> nat \<Rightarrow> duck_type list \<Rightarrow> nat list \<Rightarrow> content list \<Rightarrow> column_reader list \<Rightarrow> bool" where
  "readers_hold api al rows row (t # ts) (w # ws) (c # cs) (r # rs) \<longleftrightarrow>
     reader_holds al w c row r \<and> content_rows c = rows \<and> output_type_ok api t w (cudf_col_type r) \<and>
     readers_hold api al rows row ts ws cs rs"
| "readers_hold api al rows row [] [] [] [] \<longleftrightarrow> True"
| "readers_hold api al rows row _ _ _ _ \<longleftrightarrow> False"

fun vectors_read :: "nat list \<Rightarrow> content list \<Rightarrow> nat \<Rightarrow> nat \<Rightarrow> read_vector list \<Rightarrow> bool" where
  "vectors_read (w # ws) (c # cs) row n (v # vs) \<longleftrightarrow> vector_reads w c row n v \<and> vectors_read ws cs row n vs"
| "vectors_read [] [] row n [] \<longleftrightarrow> True"
| "vectors_read _ _ row n _ \<longleftrightarrow> False"

lemma read_column_ok:
  assumes "wf_alloc al" and "reader_holds al w c row r" and "output_type_ok api t w (cudf_col_type r)"
    and "read_range row n (content_rows c)"
  obtains r' v where "read_column api t row n al r = Inr (r', v)" and "vector_reads w c row n v"
    and "reader_holds al w c (row + n) r'" and "cudf_col_type r' = cudf_col_type r"
proof (cases c)
  case (Fixed_content bytes bits)
  with assms obtain r' v where "copy_fixed_width w row n al r = Inr (r', v)"
    "rv_data v = take (w * n) (drop (w * row) bytes)" "\<forall>i < n. vector_valid v i = bits ! (row + i)"
    "fixed_reader al w bytes bits (row + n) r'" "cudf_col_type r' = cudf_col_type r"
    using copy_fixed_width_ok [OF assms(1), of w bytes bits row r n] by auto
  with assms Fixed_content show ?thesis
    by (intro that [of r' v]) (auto simp: read_column_def output_type_ok_def Let_def)
next
  case (Varchar_content col)
  with assms obtain r' v where "copy_string row n al r = Inr (r', v)"
    "rv_strings v = map row_string (take n (drop row col))" "\<forall>i < n. vector_valid v i = (col ! (row + i) \<noteq> None)"
    "varchar_reader al col (row + n) r'" "cudf_col_type r' = cudf_col_type r"
    using copy_string_ok [OF assms(1), of col row r n] by auto
  with assms Varchar_content show ?thesis
    by (intro that [of r' v]) (auto simp: read_column_def output_type_ok_def Let_def)
qed

lemma read_columns_ok:
  assumes "readers_hold api al rows row ts ws cs rs" and "wf_alloc al" and "read_range row n rows"
  shows "\<exists>rs' vs. read_columns api row n al ts rs = Inr (rs', vs) \<and> readers_hold api al rows (row + n) ts ws cs rs' \<and>
    vectors_read ws cs row n vs"
  using assms
proof (induction api al rows row ts ws cs rs rule: readers_hold.induct)
  case (1 api al rows row t ts w ws c cs r rs)
  obtain r' v where r: "read_column api t row n al r = Inr (r', v)" "vector_reads w c row n v"
    "reader_holds al w c (row + n) r'" "cudf_col_type r' = cudf_col_type r"
    using read_column_ok [of al w c row r api t n] "1.prems" by auto
  obtain rs' vs where "read_columns api row n al ts rs = Inr (rs', vs)" "readers_hold api al rows (row + n) ts ws cs rs'"
    "vectors_read ws cs row n vs"
    using "1.IH" "1.prems" by auto
  with r "1.prems"(1) show ?case by simp
qed simp_all

text \<open>Calling the reader \<open>k\<close> times.\<close>

fun read_chunks ::
  "'p duck_vectors \<Rightarrow> nat \<Rightarrow> table_reader \<Rightarrow> (table_reader \<times> (nat \<times> read_vector list) list) result" where
  "read_chunks api 0 r = Inr (r, [])"
| "read_chunks api (Suc k) r = bind_result (reader_next_chunk api r) (\<lambda>(r, c).
     bind_result (read_chunks api k r) (\<lambda>(r, cs). Inr (r, (case c of None \<Rightarrow> cs | Some x \<Rightarrow> x # cs))))"

definition table_reader_ok ::
  "'p duck_vectors \<Rightarrow> nat list \<Rightarrow> content list \<Rightarrow> table_reader \<Rightarrow> bool" where
  "table_reader_ok api ws cs r \<longleftrightarrow> wf_alloc (reader_allocation r) \<and>
     reader_row_offset r \<le> total_rows r \<and> (reader_row_offset r mod 8 = 0 \<or> reader_row_offset r = total_rows r) \<and>
     readers_hold api (reader_allocation r) (total_rows r) (reader_row_offset r) (reader_types r) ws cs (column_readers r)"

text \<open>The chunks cover the rows from \<open>row\<close> on, a vector at a time.\<close>

fun chunks_cover :: "nat list \<Rightarrow> content list \<Rightarrow> nat \<Rightarrow> nat \<Rightarrow> (nat \<times> read_vector list) list \<Rightarrow> bool" where
  "chunks_cover ws cs rows row [] \<longleftrightarrow> row = rows"
| "chunks_cover ws cs rows row ((n, vs) # chunks) \<longleftrightarrow>
     n = min (rows - row) STANDARD_VECTOR_SIZE \<and> 0 < n \<and> vectors_read ws cs row n vs \<and>
     chunks_cover ws cs rows (row + n) chunks"

lemma reader_next_chunk_ok:
  assumes "table_reader_ok api ws cs r" and "reader_row_offset r < total_rows r"
  obtains r' vs where "reader_next_chunk api r = Inr (r', Some (min (total_rows r - reader_row_offset r) STANDARD_VECTOR_SIZE, vs))"
    and "vectors_read ws cs (reader_row_offset r) (min (total_rows r - reader_row_offset r) STANDARD_VECTOR_SIZE) vs"
    and "table_reader_ok api ws cs r'" and "total_rows r' = total_rows r"
    and "reader_row_offset r' = reader_row_offset r + min (total_rows r - reader_row_offset r) STANDARD_VECTOR_SIZE"
proof -
  define n where "n = min (total_rows r - reader_row_offset r) STANDARD_VECTOR_SIZE"
  have n: "n = STANDARD_VECTOR_SIZE \<or> reader_row_offset r + n = total_rows r" "0 < n"
    "reader_row_offset r + n \<le> total_rows r"
    using assms(2) by (auto simp: n_def STANDARD_VECTOR_SIZE_def min_def)
  have al8: "reader_row_offset r mod 8 = 0" using assms by (auto simp: table_reader_ok_def)
  have m: "n mod 8 = 0 \<or> reader_row_offset r + n = total_rows r" using n(1) by (auto simp: STANDARD_VECTOR_SIZE_def)
  then have rr: "read_range (reader_row_offset r) n (total_rows r)" using al8 n by (auto simp: read_range_def)
  have "(reader_row_offset r + n) mod 8 = 0 \<or> reader_row_offset r + n = total_rows r"
    using al8 m by (auto simp: mod_eq_0_iff_dvd)
  moreover obtain rs' vs where "read_columns api (reader_row_offset r) n (reader_allocation r) (reader_types r) (column_readers r) = Inr (rs', vs)"
    "readers_hold api (reader_allocation r) (total_rows r) (reader_row_offset r + n) (reader_types r) ws cs rs'"
    "vectors_read ws cs (reader_row_offset r) n vs"
    using read_columns_ok [OF _ _ rr, of api "reader_allocation r" "reader_types r" ws cs "column_readers r"] assms(1)
    by (auto simp: table_reader_ok_def)
  ultimately show ?thesis
    using assms n by (intro that [of "r\<lparr>column_readers := rs', reader_row_offset := reader_row_offset r + n\<rparr>" vs])
      (simp_all add: reader_next_chunk_def table_reader_ok_def n_def [symmetric] Let_def)
qed

lemma read_chunks_ok:
  assumes "table_reader_ok api ws cs r" and "total_rows r - reader_row_offset r \<le> STANDARD_VECTOR_SIZE * k"
    and "k = 0 \<or> STANDARD_VECTOR_SIZE * (k - 1) < total_rows r - reader_row_offset r"
  shows "\<exists>r' chunks. read_chunks api k r = Inr (r', chunks) \<and> reader_row_offset r' = total_rows r' \<and>
    chunks_cover ws cs (total_rows r) (reader_row_offset r) chunks"
  using assms
proof (induction k arbitrary: r)
  case 0
  then show ?case by (simp add: table_reader_ok_def)
next
  case (Suc k)
  define n where "n = min (total_rows r - reader_row_offset r) STANDARD_VECTOR_SIZE"
  have lt: "reader_row_offset r < total_rows r" using Suc.prems(3) by auto
  obtain r' vs where r: "reader_next_chunk api r = Inr (r', Some (n, vs))" "vectors_read ws cs (reader_row_offset r) n vs"
    "table_reader_ok api ws cs r'" "total_rows r' = total_rows r" "reader_row_offset r' = reader_row_offset r + n"
    using reader_next_chunk_ok [OF Suc.prems(1) lt] unfolding n_def by metis
  have n: "0 < n" using lt by (simp add: n_def STANDARD_VECTOR_SIZE_def)
  have "total_rows r' - reader_row_offset r' \<le> STANDARD_VECTOR_SIZE * k"
    "k = 0 \<or> STANDARD_VECTOR_SIZE * (k - 1) < total_rows r' - reader_row_offset r'"
    using Suc.prems(2,3) r(4,5) by (auto simp: n_def min_def STANDARD_VECTOR_SIZE_def)
  from Suc.IH [OF r(3) this] obtain r'' chunks where "read_chunks api k r' = Inr (r'', chunks)"
    "reader_row_offset r'' = total_rows r''" "chunks_cover ws cs (total_rows r) (reader_row_offset r + n) chunks"
    using r(4,5) by auto
  with r n show ?case by (simp add: n_def)
qed

lemma num_chunks_bounds:
  "rows \<le> STANDARD_VECTOR_SIZE * ceil_div rows STANDARD_VECTOR_SIZE"
  "ceil_div rows STANDARD_VECTOR_SIZE = 0 \<or> STANDARD_VECTOR_SIZE * (ceil_div rows STANDARD_VECTOR_SIZE - 1) < rows"
proof -
  have "rows + 2047 = 2048 * ((rows + 2047) div 2048) + (rows + 2047) mod 2048" "(rows + 2047) mod 2048 < 2048"
    by simp_all
  then show "rows \<le> STANDARD_VECTOR_SIZE * ceil_div rows STANDARD_VECTOR_SIZE"
    "ceil_div rows STANDARD_VECTOR_SIZE = 0 \<or> STANDARD_VECTOR_SIZE * (ceil_div rows STANDARD_VECTOR_SIZE - 1) < rows"
    by (simp_all add: ceil_div_def STANDARD_VECTOR_SIZE_def diff_mult_distrib2) linarith+
qed

section \<open>The reader of a builder's column\<close>

lemma get_cudf_type_not_string:
  assumes "get_cudf_type t = Inr c" and "\<not> is_varchar t"
  shows "cudf_type_id c \<noteq> CUDF_STRING"
  using assms by (cases "lt_id t") (auto simp: get_cudf_type_def is_varchar_def cudf_plain_def split: if_splits)

lemma init_accessors:
  assumes "wf_alloc al" and "data_holds al a bytes" and "mask_holds al b bits" and "nc = length (filter Not bits)"
  obtains da ma where "acc_initialize 1 (initial_byte_offset a) al uninitialized_accessor = Inr da"
    and "(if nc > 0 then acc_initialize 1 (initial_byte_offset b) al uninitialized_accessor
      else Inr uninitialized_accessor) = Inr ma"
    and "cursor_ok al da" and "has_bytes al (initial_byte_offset da) bytes" and "position da = initial_byte_offset da"
    and "nc \<noteq> 0 \<longrightarrow> cursor_ok al ma \<and> has_bytes al (initial_byte_offset ma) (pack bits) \<and>
      position ma = initial_byte_offset ma"
proof -
  obtain da where d: "acc_initialize 1 (initial_byte_offset a) al uninitialized_accessor = Inr da" "cursor_ok al da"
    "position da = initial_byte_offset a" "initial_byte_offset da = initial_byte_offset a"
    using initialize_ok [OF assms(1), of 1] by auto
  obtain ma where m: "acc_initialize 1 (initial_byte_offset b) al uninitialized_accessor = Inr ma" "cursor_ok al ma"
    "position ma = initial_byte_offset b" "initial_byte_offset ma = initial_byte_offset b"
    using initialize_ok [OF assms(1), of 1] by auto
  show ?thesis
  proof (cases "nc = 0")
    case True
    then show ?thesis using d column_has_bytes(1) [OF assms(2)] by (intro that [of da uninitialized_accessor]) simp_all
  next
    case False
    then show ?thesis using d m column_has_bytes(1) [OF assms(2)] column_has_bytes(2) [OF assms(3)]
      by (intro that [of da ma]) simp_all
  qed
qed

lemma make_column_reader_ok:
  assumes wf: "wf_alloc al" and holds: "column_holds al cb c" and md: "make_column_metadata bm (content_rows c) cb = Inr md"
    and small: "\<forall>col. c = Varchar_content col \<longrightarrow> length (string_heap col) < 2 ^ 31"
  obtains r where "make_column_reader md al = Inr r" and "reader_holds al (type_size cb) c 0 r"
    and "cudf_col_type r = \<lparr>cudf_type_id = md_type_id md, cudf_scale = md_scale md\<rparr>"
  using holds
proof (cases rule: column_holds_cases)
  case (fixed bytes bits)
  have bs: "al_block_size al \<noteq> 0" using wf by (simp add: wf_alloc_def)
  obtain ct where ct: "get_cudf_type (cb_type cb) = Inr ct"
    "md = Column_metadata (cudf_type_id ct) (length bits) (null_count cb) (cudf_scale ct) (null_count cb > 0)
       (initial_byte_offset (mask_blocks_accessor cb)) (if null_count cb > 0 then bm (length bits) else 0) True
       (initial_byte_offset (data_blocks_accessor cb)) (type_size cb * length bits) []"
    using md fixed(1,3) by (auto simp: make_column_metadata_def bind_result_eq_Inr)
  have f: "data_holds al (data_blocks_accessor cb) bytes" "mask_holds al (mask_blocks_accessor cb) bits"
    "null_count cb = length (filter Not bits)" "length bytes = type_size cb * length bits"
    using fixed(2) by (simp_all add: fixed_column_def)
  obtain da ma where a: "acc_initialize 1 (initial_byte_offset (data_blocks_accessor cb)) al uninitialized_accessor = Inr da"
    "(if null_count cb > 0 then acc_initialize 1 (initial_byte_offset (mask_blocks_accessor cb)) al uninitialized_accessor
      else Inr uninitialized_accessor) = Inr ma"
    "cursor_ok al da" "has_bytes al (initial_byte_offset da) bytes" "position da = initial_byte_offset da"
    "null_count cb \<noteq> 0 \<longrightarrow> cursor_ok al ma \<and> has_bytes al (initial_byte_offset ma) (pack bits) \<and>
      position ma = initial_byte_offset ma"
    by (rule init_accessors [OF wf f(1-3)])
  let ?r = "\<lparr>cr_size = length bits, cr_null_count = null_count cb,
    cudf_col_type = \<lparr>cudf_type_id = cudf_type_id ct, cudf_scale = cudf_scale ct\<rparr>, data_accessor = da, mask_accessor = ma,
    offset_accessor_32 = uninitialized_accessor, offset_accessor_64 = uninitialized_accessor, use_int64_offsets = False\<rparr>"
  have "cudf_type_id ct \<noteq> CUDF_STRING" by (rule get_cudf_type_not_string [OF ct(1) fixed(3)])
  moreover from this have "make_column_reader md al = Inr ?r"
    unfolding ct(2) using bs a(1,2) by (cases "null_count cb = 0") (simp_all add: make_column_reader_def Let_def)
  ultimately show ?thesis
    using a f fixed(1) ct(2) by (intro that [of ?r]) (simp_all add: fixed_reader_def mask_reader_def)
next
  case (varchar col)
  have bs: "al_block_size al \<noteq> 0" using wf by (simp add: wf_alloc_def)
  let ?oa = "offset_blocks_accessor cb" and ?bits = "map (\<lambda>x. x \<noteq> None) col"
  have md': "md = Column_metadata CUDF_STRING (length col) (null_count cb) 0 (null_count cb > 0)
       (initial_byte_offset (mask_blocks_accessor cb)) (if null_count cb > 0 then bm (length col) else 0) True
       (initial_byte_offset (data_blocks_accessor cb)) (total_data_bytes cb)
       [Column_metadata CUDF_INT32 (length col + 1) 0 0 False 0 0 True (initial_byte_offset ?oa) ((length col + 1) * 4) []]"
    using md varchar(1,3) by (simp add: make_column_metadata_def)
  have f: "data_holds al (data_blocks_accessor cb) (string_heap col)" "mask_holds al (mask_blocks_accessor cb) ?bits"
    "null_count cb = length (filter Not ?bits)" "offsets_hold al ?oa col"
    using varchar(2) by (simp_all add: varchar_column_def filter_map comp_def)
  obtain da ma where a: "acc_initialize 1 (initial_byte_offset (data_blocks_accessor cb)) al uninitialized_accessor = Inr da"
    "(if null_count cb > 0 then acc_initialize 1 (initial_byte_offset (mask_blocks_accessor cb)) al uninitialized_accessor
      else Inr uninitialized_accessor) = Inr ma"
    "cursor_ok al da" "has_bytes al (initial_byte_offset da) (string_heap col)" "position da = initial_byte_offset da"
    "null_count cb \<noteq> 0 \<longrightarrow> cursor_ok al ma \<and> has_bytes al (initial_byte_offset ma) (pack ?bits) \<and>
      position ma = initial_byte_offset ma"
    by (rule init_accessors [OF wf f(1-3)])
  have o: "al_block_size al mod 4 = 0" "initial_byte_offset ?oa mod 4 = 0" using f(4) by (simp_all add: offsets_hold_def)
  obtain oa where oa: "acc_initialize 4 (initial_byte_offset ?oa) al uninitialized_accessor = Inr oa" "cursor_ok al oa"
    "position oa = initial_byte_offset ?oa" "initial_byte_offset oa = initial_byte_offset ?oa"
    using initialize_ok [OF wf o(1)] by blast
  let ?r = "\<lparr>cr_size = length col, cr_null_count = null_count cb,
    cudf_col_type = \<lparr>cudf_type_id = CUDF_STRING, cudf_scale = 0\<rparr>, data_accessor = da, mask_accessor = ma,
    offset_accessor_32 = oa, offset_accessor_64 = uninitialized_accessor, use_int64_offsets = False\<rparr>"
  have "make_column_reader md al = Inr ?r"
    unfolding md' using bs a(1,2) oa(1) by (cases "null_count cb = 0") (simp_all add: make_column_reader_def Let_def)
  moreover have "mask_reader al ?bits 0 ?r" using a f(3) by (simp add: mask_reader_def)
  moreover have "length (string_heap col) < 2 ^ 31" using small varchar(1) by simp
  ultimately show ?thesis
    using a(3-5) varchar(1) o oa column_has_bytes(3) [OF f(4)] md'
    by (intro that [of ?r]) (simp_all add: varchar_reader_def string_end_def)
qed

section \<open>From the scan to the reader\<close>

definition stored_type :: "logical_type \<Rightarrow> cudf_type result" where
  "stored_type t = (if is_varchar t then Inr \<lparr>cudf_type_id = CUDF_STRING, cudf_scale = 0\<rparr> else get_cudf_type t)"

lemma metadata_stored_type:
  assumes "make_column_metadata bm rows cb = Inr md"
  shows "stored_type (cb_type cb) = Inr \<lparr>cudf_type_id = md_type_id md, cudf_scale = md_scale md\<rparr>" "md_num_rows md = rows"
  using assms by (auto simp: make_column_metadata_def stored_type_def bind_result_eq_Inr split: if_splits)

definition outputs_match :: "'p duck_vectors \<Rightarrow> duck_type list \<Rightarrow> column_builder list \<Rightarrow> bool" where
  "outputs_match api types cbs \<longleftrightarrow>
     list_all2 (\<lambda>t cb. case stored_type (cb_type cb) of Inl _ \<Rightarrow> True | Inr c \<Rightarrow> output_type_ok api t (type_size cb) c) types cbs"

definition small_content :: "content \<Rightarrow> bool" where
  "small_content c = (case c of Varchar_content col \<Rightarrow> length (string_heap col) < 2 ^ 31 | _ \<Rightarrow> True)"

lemma make_readers_ok:
  assumes "columns_hold R rows al cbs cs" and "list_all2 (\<lambda>cb md. make_column_metadata bm rows cb = Inr md) cbs mds"
    and "outputs_match api ts cbs" and "list_all small_content cs" and "wf_alloc al"
  shows "\<exists>rs. make_readers rows al mds = Inr rs \<and> readers_hold api al rows 0 ts (map type_size cbs) cs rs"
  using assms
proof (induction R rows al cbs cs arbitrary: mds ts rule: columns_hold.induct)
  case (2 R rows al cb cbs c cs)
  obtain md mds' where md: "mds = md # mds'" "make_column_metadata bm rows cb = Inr md"
    "list_all2 (\<lambda>cb md. make_column_metadata bm rows cb = Inr md) cbs mds'"
    using "2.prems"(2) by (auto simp: list_all2_Cons1)
  note st = metadata_stored_type [OF md(2)]
  obtain t ts' where t: "ts = t # ts'" "output_type_ok api t (type_size cb) \<lparr>cudf_type_id = md_type_id md, cudf_scale = md_scale md\<rparr>"
    "outputs_match api ts' cbs"
    using "2.prems"(3) st(1) by (auto simp: outputs_match_def list_all2_Cons2)
  have "\<forall>col. c = Varchar_content col \<longrightarrow> length (string_heap col) < 2 ^ 31"
    using "2.prems"(4) by (auto simp: small_content_def)
  moreover have "column_holds al cb c" "content_rows c = rows" using "2.prems"(1) by simp_all
  ultimately obtain r where "make_column_reader md al = Inr r" "reader_holds al (type_size cb) c 0 r"
    "cudf_col_type r = \<lparr>cudf_type_id = md_type_id md, cudf_scale = md_scale md\<rparr>"
    using make_column_reader_ok [OF "2.prems"(5), of cb c bm md] md(2) by auto
  moreover obtain rs where "make_readers rows al mds' = Inr rs" "readers_hold api al rows 0 ts' (map type_size cbs) cs rs"
    using "2.IH" [OF _ md(3) t(3)] "2.prems"(1,4,5) by auto
  ultimately show ?case using md(1) t(1,2) st(2) \<open>content_rows c = rows\<close> by simp
qed (simp_all add: outputs_match_def)


definition demo_vectors :: "duck_type_id duck_vectors" where
  "demo_vectors = \<lparr>internal_type = dt_id, type_id_size = (\<lambda>_. 2), vector_cast = (\<lambda>_ _ _ v. v)\<rparr>"


end
