(* ===== verification/Cached_Ranges.thy ===== *)
theory Cached_Ranges
  imports Sirius_Prelude
begin

text \<open>
  The cache of byte ranges of \<^verbatim>\<open>src/op/scan/cached_ranges.cpp\<close>. The bytes of sorted, disjoint ranges of a file
  are packed one after the other into chunks of equal size; a query is answered with the spans
  of the chunks that hold its bytes. A span is a chunk index, an offset in the chunk and a length.
\<close>

section \<open>Construction\<close>

record byte_range =
  range_offset :: nat
  range_size :: nat

record 'b cache_ranges =
  ranges :: "byte_range list"
  pack_offsets :: "nat list"
  total_packed_bytes :: nat
  buffers :: "'b list list"
  chunk_size :: nat

definition range_end :: "byte_range \<Rightarrow> nat" where
  "range_end r = range_offset r + range_size r"

text \<open>The loop that merges a range into the last one when they touch; \<open>prev\<close> is the last element of the result.\<close>

fun coalesce :: "byte_range \<Rightarrow> byte_range list \<Rightarrow> byte_range list" where
  "coalesce prev [] = [prev]"
| "coalesce prev (r # rs) =
     (if range_end prev = range_offset r
      then coalesce \<lparr>range_offset = range_offset prev, range_size = range_size prev + range_size r\<rparr> rs
      else prev # coalesce r rs)"

fun running_offsets :: "nat \<Rightarrow> byte_range list \<Rightarrow> nat list" where
  "running_offsets running [] = []"
| "running_offsets running (r # rs) = running # running_offsets (running + range_size r) rs"

definition make_cache_ranges :: "byte_range list \<Rightarrow> 'b list list \<Rightarrow> nat \<Rightarrow> 'b cache_ranges" where
  "make_cache_ranges rs bufs chunk_sz =
     (let rs = (case rs of [] \<Rightarrow> [] | r # rest \<Rightarrow> coalesce r rest) in
      \<lparr>ranges = rs, pack_offsets = running_offsets 0 rs, total_packed_bytes = sum_list (map range_size rs),
       buffers = bufs, chunk_size = chunk_sz\<rparr>)"

section \<open>Lookup\<close>

text \<open>\<open>std::upper_bound\<close> on the indices \<open>first, \<dots>, first + n - 1\<close>; \<open>below i\<close> compares the value with element \<open>i\<close>.\<close>

function upper_bound :: "(nat \<Rightarrow> bool) \<Rightarrow> nat \<Rightarrow> nat \<Rightarrow> nat" where
  "upper_bound below first n =
     (if n = 0 then first
      else let step = n div 2 in
        if \<not> below (first + step) then upper_bound below (first + step + 1) (n - (step + 1))
        else upper_bound below first step)"
  by pat_completeness auto
termination
  by (relation "measure (\<lambda>(_, _, n). n)") auto

declare upper_bound.simps [simp del]

definition find_range :: "'b cache_ranges \<Rightarrow> nat \<Rightarrow> nat" where
  "find_range c off =
     (let it = upper_bound (\<lambda>i. off < range_offset (ranges c ! i)) 0 (length (ranges c)) in
      if it = 0 then length (ranges c)
      else if off \<ge> range_end (ranges c ! (it - 1)) then length (ranges c)
      else it - 1)"

definition chunk_bytes_available :: "'b cache_ranges \<Rightarrow> nat \<Rightarrow> nat \<Rightarrow> nat" where
  "chunk_bytes_available c chunk_idx intra_chunk_offset =
     (let chunk_start = chunk_idx * chunk_size c;
          chunk_end = min (chunk_start + chunk_size c) (total_packed_bytes c) in
      size_sub (size_sub chunk_end chunk_start) intra_chunk_offset)"

text \<open>
  The loop over the chunks. A chunk without bytes would add empty spans forever; an index beyond the
  buffers is out of range.
\<close>

function emit_spans :: "'b cache_ranges \<Rightarrow> nat \<Rightarrow> nat \<Rightarrow> (nat \<times> nat \<times> nat) list result" where
  "emit_spans c remaining pack_pos =
     (if remaining = 0 then Inr []
      else let chunk_idx = pack_pos div chunk_size c;
               chunk_local = pack_pos mod chunk_size c;
               bytes = min remaining (chunk_bytes_available c chunk_idx chunk_local) in
        throw_if (bytes = 0) (Undefined_behaviour ''loop without progress'')
        (throw_if (\<not> chunk_idx < length (buffers c)) (Undefined_behaviour ''buffers_[chunk_idx] out of range'')
        (bind_result (emit_spans c (remaining - bytes) (pack_pos + bytes)) (\<lambda>spans.
           Inr ((chunk_idx, chunk_local, bytes) # spans)))))"
  by pat_completeness auto
termination
  by (relation "measure (\<lambda>(_, remaining, _). remaining)") auto

declare emit_spans.simps [simp del]

definition get_ranges :: "'b cache_ranges \<Rightarrow> nat \<Rightarrow> nat \<Rightarrow> (nat \<times> nat \<times> nat) list option result" where
  "get_ranges c query_offset query_size =
     (if query_size = 0 then Inr None
      else let idx = find_range c query_offset in
        if idx = length (ranges c) then Inr None
        else let r = ranges c ! idx in
          if query_offset + query_size > range_end r then Inr None
          else map_sum id Some (emit_spans c query_size (pack_offsets c ! idx + (query_offset - range_offset r))))"

definition max_offset :: "'b cache_ranges \<Rightarrow> nat" where
  "max_offset c = (if ranges c = [] then 0 else range_end (last (ranges c)))"

section \<open>Binary search\<close>

definition partition_point :: "(nat \<Rightarrow> bool) \<Rightarrow> nat \<Rightarrow> nat \<Rightarrow> nat \<Rightarrow> bool" where
  "partition_point below first stop u \<longleftrightarrow> first \<le> u \<and> u \<le> stop \<and>
     (\<forall>i. first \<le> i \<and> i < u \<longrightarrow> \<not> below i) \<and> (\<forall>i. u \<le> i \<and> i < stop \<longrightarrow> below i)"

lemma partition_point_lower:
  assumes "partition_point below first p u" and "p \<le> stop" and "\<forall>i. p \<le> i \<and> i < stop \<longrightarrow> below i"
  shows "partition_point below first stop u"
  unfolding partition_point_def
proof (intro conjI allI impI)
  fix i assume "u \<le> i \<and> i < stop"
  then show "below i" using assms by (cases "i < p") (auto simp: partition_point_def)
qed (use assms in \<open>auto simp: partition_point_def\<close>)

lemma partition_point_upper:
  assumes "partition_point below p stop u" and "first \<le> p" and "\<forall>i. first \<le> i \<and> i < p \<longrightarrow> \<not> below i"
  shows "partition_point below first stop u"
  unfolding partition_point_def
proof (intro conjI allI impI)
  fix i assume "first \<le> i \<and> i < u"
  then show "\<not> below i" using assms by (cases "i < p") (auto simp: partition_point_def)
qed (use assms in \<open>auto simp: partition_point_def\<close>)

lemma upper_bound_partition:
  assumes "\<forall>i j. first \<le> i \<and> i \<le> j \<and> j < first + n \<and> below i \<longrightarrow> below j"
  shows "partition_point below first (first + n) (upper_bound below first n)"
  using assms
proof (induction below first n rule: upper_bound.induct)
  case (1 below first n)
  define p where "p = first + n div 2"
  show ?case
  proof (cases "n = 0")
    case True
    then have "upper_bound below first n = first" by (subst upper_bound.simps) simp
    with True show ?thesis by (auto simp: partition_point_def)
  next
    case False
    then have p: "first \<le> p" "p < first + n" by (simp_all add: p_def)
    show ?thesis
    proof (cases "below p")
      case True
      then have eq: "upper_bound below first n = upper_bound below first (n div 2)"
        using False by (subst upper_bound.simps) (simp add: p_def Let_def)
      have "\<forall>i j. first \<le> i \<and> i \<le> j \<and> j < first + n div 2 \<and> below i \<longrightarrow> below j"
      proof (intro allI impI)
        fix i j assume "first \<le> i \<and> i \<le> j \<and> j < first + n div 2 \<and> below i"
        then show "below j" using spec [OF spec [OF "1.prems"], of i j] div_le_dividend [of n 2] by simp
      qed
      then have "partition_point below first p (upper_bound below first (n div 2))"
        unfolding p_def by (rule "1.IH"(2) [OF False refl, rotated]) (use True in \<open>simp add: p_def\<close>)
      moreover have "\<forall>i. p \<le> i \<and> i < first + n \<longrightarrow> below i"
        using spec [OF spec [OF "1.prems"], of p] p True by simp
      ultimately show ?thesis unfolding eq using p(2) partition_point_lower [of below first p _ "first + n"] by simp
    next
      case nb: False
      then have eq: "upper_bound below first n = upper_bound below (p + 1) (n - (n div 2 + 1))"
        using False by (subst upper_bound.simps) (simp add: p_def Let_def)
      have e: "p + 1 + (n - (n div 2 + 1)) = first + n" using False by (simp add: p_def)
      have "\<forall>i j. p + 1 \<le> i \<and> i \<le> j \<and> j < p + 1 + (n - (n div 2 + 1)) \<and> below i \<longrightarrow> below j"
        unfolding e
      proof (intro allI impI)
        fix i j assume "p + 1 \<le> i \<and> i \<le> j \<and> j < first + n \<and> below i"
        then show "below j" using spec [OF spec [OF "1.prems"], of i j] p(1) by simp
      qed
      then have "partition_point below (p + 1) (first + n) (upper_bound below (p + 1) (n - (n div 2 + 1)))"
        unfolding e [symmetric] unfolding p_def by (rule "1.IH"(1) [OF False refl, rotated]) (use nb in \<open>simp add: p_def\<close>)
      moreover have "\<forall>i. first \<le> i \<and> i < p + 1 \<longrightarrow> \<not> below i"
      proof (intro allI impI notI)
        fix i assume "first \<le> i \<and> i < p + 1" and "below i"
        then show False using spec [OF spec [OF "1.prems"], of i p] p(2) nb by simp
      qed
      ultimately show ?thesis unfolding eq using p(1) partition_point_upper [of below "p + 1" "first + n" _ first] by simp
    qed
  qed
qed

section \<open>Sorted, disjoint ranges\<close>

fun disjoint_from :: "nat \<Rightarrow> byte_range list \<Rightarrow> bool" where
  "disjoint_from lo [] \<longleftrightarrow> True"
| "disjoint_from lo (r # rs) \<longleftrightarrow> lo \<le> range_offset r \<and> disjoint_from (range_end r) rs"

text \<open>After merging, consecutive ranges have a gap between them.\<close>

fun gaps :: "byte_range list \<Rightarrow> bool" where
  "gaps (r # r' # rs) \<longleftrightarrow> range_end r < range_offset r' \<and> gaps (r' # rs)"
| "gaps _ \<longleftrightarrow> True"

definition covered :: "byte_range list \<Rightarrow> nat set" where
  "covered rs = (\<Union>r \<in> set rs. {range_offset r ..< range_end r})"

definition packed :: "(nat \<Rightarrow> 'b) \<Rightarrow> byte_range list \<Rightarrow> 'b list" where
  "packed file rs = concat (map (\<lambda>r. map file [range_offset r ..< range_end r]) rs)"

lemma coalesce_ok:
  assumes "disjoint_from (range_end prev) rs"
  shows "covered (coalesce prev rs) = covered (prev # rs)" "packed file (coalesce prev rs) = packed file (prev # rs)"
    "gaps (coalesce prev rs)" "range_offset (hd (coalesce prev rs)) = range_offset prev" "coalesce prev rs \<noteq> []"
proof -
  have "covered (coalesce prev rs) = covered (prev # rs) \<and> packed file (coalesce prev rs) = packed file (prev # rs) \<and>
    gaps (coalesce prev rs) \<and> range_offset (hd (coalesce prev rs)) = range_offset prev \<and> coalesce prev rs \<noteq> []"
    using assms
  proof (induction prev rs rule: coalesce.induct)
    case (2 prev r rs)
    show ?case
    proof (cases "range_end prev = range_offset r")
      case True
      define b where "b = \<lparr>range_offset = range_offset prev, range_size = range_size prev + range_size r\<rparr>"
      have b: "range_offset b = range_offset prev" "range_end b = range_end r"
        using True by (simp_all add: b_def range_end_def)
      have le: "range_offset prev \<le> range_offset r" "range_offset r \<le> range_end r"
        using True by (simp_all add: range_end_def)
      have "[range_offset prev ..< range_end r] = [range_offset prev ..< range_offset r] @ [range_offset r ..< range_end r]"
        using upt_add_eq_append [OF le(1), of "range_end r - range_offset r"] le(2) by simp
      moreover have "{range_offset prev ..< range_end r} = {range_offset prev ..< range_offset r} \<union> {range_offset r ..< range_end r}"
        using le by auto
      ultimately have "covered (b # rs) = covered (prev # r # rs)" "packed file (b # rs) = packed file (prev # r # rs)"
        using True b by (auto simp: covered_def packed_def)
      moreover have "coalesce prev (r # rs) = coalesce b rs" using True by (simp add: b_def)
      ultimately show ?thesis using "2.IH"(1) [OF True] "2.prems" b by (simp add: b_def [symmetric])
    next
      case False
      then have lt: "range_end prev < range_offset r" using "2.prems" by simp
      note IH = "2.IH"(2) [OF False]
      obtain x xs where xs: "coalesce r rs = x # xs" "range_offset x = range_offset r"
        using IH "2.prems" by (cases "coalesce r rs") auto
      have "covered (prev # cs) = {range_offset prev ..< range_end prev} \<union> covered cs" for cs by (simp add: covered_def)
      moreover have "packed file (prev # cs) = map file [range_offset prev ..< range_end prev] @ packed file cs" for cs
        by (simp add: packed_def)
      ultimately show ?thesis using IH "2.prems" False lt xs by simp
    qed
  qed simp
  then show "covered (coalesce prev rs) = covered (prev # rs)" "packed file (coalesce prev rs) = packed file (prev # rs)"
    "gaps (coalesce prev rs)" "range_offset (hd (coalesce prev rs)) = range_offset prev" "coalesce prev rs \<noteq> []" by simp_all
qed

section \<open>Finding a range\<close>

lemma gaps_nth:
  assumes "gaps rs" and "i < j" and "j < length rs"
  shows "range_end (rs ! i) < range_offset (rs ! j)"
  using assms
proof (induction rs arbitrary: i j rule: gaps.induct)
  case (1 r r' rs)
  obtain j' where j: "j = Suc j'" using "1.prems"(2) by (cases j) auto
  show ?case
  proof (cases i)
    case 0
    have "range_end r < range_offset r'" using "1.prems"(1) by simp
    moreover have "range_offset r' \<le> range_offset ((r' # rs) ! j')"
      using "1.IH" [of 0 j'] "1.prems" j by (cases j') (auto simp: range_end_def)
    ultimately show ?thesis using 0 j by simp
  next
    case (Suc i')
    then show ?thesis using "1.IH" [of i' j'] "1.prems" j by simp
  qed
qed simp_all

lemma gaps_sorted:
  assumes "gaps rs" and "i \<le> j" and "j < length rs"
  shows "range_offset (rs ! i) \<le> range_offset (rs ! j)"
proof (cases "i = j")
  case False
  then have "range_end (rs ! i) < range_offset (rs ! j)" using assms by (intro gaps_nth) simp_all
  then show ?thesis by (simp add: range_end_def)
qed simp

text \<open>A range is found exactly if it contains the offset.\<close>

lemma find_range_ok:
  assumes "gaps (ranges c)"
  shows "find_range c off = i \<and> i \<noteq> length (ranges c) \<longleftrightarrow>
    i < length (ranges c) \<and> range_offset (ranges c ! i) \<le> off \<and> off < range_end (ranges c ! i)"
proof -
  let ?rs = "ranges c" and ?b = "\<lambda>i. off < range_offset (ranges c ! i)"
  define u where "u = upper_bound ?b 0 (length ?rs)"
  have "\<forall>i j. 0 \<le> i \<and> i \<le> j \<and> j < 0 + length ?rs \<and> ?b i \<longrightarrow> ?b j"
    using gaps_sorted [OF assms] by (auto intro: less_le_trans)
  from upper_bound_partition [OF this]
  have u: "u \<le> length ?rs" "\<And>k. k < u \<Longrightarrow> range_offset (?rs ! k) \<le> off" "\<And>k. u \<le> k \<Longrightarrow> k < length ?rs \<Longrightarrow> ?b k"
    by (auto simp: u_def partition_point_def not_less)
  have fr: "find_range c off = (if u = 0 then length ?rs else if off \<ge> range_end (?rs ! (u - 1)) then length ?rs else u - 1)"
    by (simp add: find_range_def u_def Let_def)
  show ?thesis
  proof
    assume "find_range c off = i \<and> i \<noteq> length ?rs"
    then show "i < length ?rs \<and> range_offset (?rs ! i) \<le> off \<and> off < range_end (?rs ! i)"
      using fr u(1) u(2) [of "u - 1"] by (auto split: if_splits)
  next
    assume i: "i < length ?rs \<and> range_offset (?rs ! i) \<le> off \<and> off < range_end (?rs ! i)"
    then have "i < u" using u(3) [of i] by (meson leD leI)
    moreover have "\<not> i < u - 1"
      using gaps_nth [OF assms, of i "u - 1"] u(1) u(2) [of "u - 1"] i \<open>i < u\<close> by fastforce
    ultimately have "i = u - 1" "u \<noteq> 0" by simp_all
    then show "find_range c off = i \<and> i \<noteq> length ?rs" using fr i by simp
  qed
qed

lemma covered_interval:
  assumes "gaps rs" and "q < q'"
  shows "{q ..< q'} \<subseteq> covered rs \<longleftrightarrow> (\<exists>i < length rs. range_offset (rs ! i) \<le> q \<and> q' \<le> range_end (rs ! i))"
proof
  assume "\<exists>i < length rs. range_offset (rs ! i) \<le> q \<and> q' \<le> range_end (rs ! i)"
  then obtain i where "i < length rs" and i: "range_offset (rs ! i) \<le> q" "q' \<le> range_end (rs ! i)" by blast
  then have "rs ! i \<in> set rs" by simp
  moreover have "{q ..< q'} \<subseteq> {range_offset (rs ! i) ..< range_end (rs ! i)}" using i by auto
  ultimately show "{q ..< q'} \<subseteq> covered rs" unfolding covered_def by blast
next
  assume sub: "{q ..< q'} \<subseteq> covered rs"
  then have "q \<in> covered rs" using assms(2) by auto
  then obtain i where i: "i < length rs" "range_offset (rs ! i) \<le> q" "q < range_end (rs ! i)"
    by (auto simp: covered_def in_set_conv_nth)
  have "q' \<le> range_end (rs ! i)"
  proof (rule ccontr)
    assume "\<not> q' \<le> range_end (rs ! i)"
    then have "range_end (rs ! i) \<in> covered rs" using sub i(3) by auto
    then obtain j where j: "j < length rs" "range_offset (rs ! j) \<le> range_end (rs ! i)" "range_end (rs ! i) < range_end (rs ! j)"
      by (auto simp: covered_def in_set_conv_nth)
    consider "i < j" | "i = j" | "j < i" by linarith
    then show False
      using gaps_nth [OF assms(1), of i j] gaps_nth [OF assms(1), of j i] i(1) j by cases (auto simp: range_end_def)
  qed
  with i show "\<exists>i < length rs. range_offset (rs ! i) \<le> q \<and> q' \<le> range_end (rs ! i)" by blast
qed

section \<open>Spans\<close>

definition span_bytes :: "'b cache_ranges \<Rightarrow> nat \<times> nat \<times> nat \<Rightarrow> 'b list" where
  "span_bytes c s = (case s of (i, off, n) \<Rightarrow> take n (drop off (buffers c ! i)))"

text \<open>The buffers hold the packed bytes in chunks of the given size.\<close>

definition chunked :: "nat \<Rightarrow> 'b list \<Rightarrow> 'b list list \<Rightarrow> bool" where
  "chunked sz bytes bufs \<longleftrightarrow> 0 < sz \<and> length bytes + sz < 2 ^ 64 \<and>
     (\<forall>k. k * sz < length bytes \<longrightarrow> k < length bufs \<and> bufs ! k = take sz (drop (k * sz) bytes))"

lemma chunk_bytes_available_ok:
  assumes "total_packed_bytes c + chunk_size c < 2 ^ 64" and "p < total_packed_bytes c" and "0 < chunk_size c"
  shows "chunk_bytes_available c (p div chunk_size c) (p mod chunk_size c) =
    min (p div chunk_size c * chunk_size c + chunk_size c) (total_packed_bytes c) - p"
    and "p < min (p div chunk_size c * chunk_size c + chunk_size c) (total_packed_bytes c)"
proof -
  let ?s = "p div chunk_size c * chunk_size c"
  have p: "p = ?s + p mod chunk_size c" "p mod chunk_size c < chunk_size c" using assms(3) by simp_all
  define e where "e = min (?s + chunk_size c) (total_packed_bytes c)"
  show lt: "p < min (?s + chunk_size c) (total_packed_bytes c)" using p assms(2) by linarith
  have "e \<le> total_packed_bytes c" by (simp add: e_def)
  then have e: "p < e" "e < 2 ^ 64" "?s \<le> p" using lt assms(1) p(1) unfolding e_def [symmetric] by linarith+
  have "size_sub e ?s = e - ?s" by (rule size_sub_eq) (use e in linarith)+
  moreover have "size_sub (e - ?s) (p mod chunk_size c) = e - ?s - p mod chunk_size c"
    by (rule size_sub_eq) (use e p in linarith)+
  ultimately show "chunk_bytes_available c (p div chunk_size c) (p mod chunk_size c) =
      min (?s + chunk_size c) (total_packed_bytes c) - p"
    unfolding chunk_bytes_available_def Let_def e_def [symmetric] using p by simp
qed

lemma emit_spans_ok:
  assumes "chunked (chunk_size c) bytes (buffers c)" and "total_packed_bytes c = length bytes"
    and "p + n \<le> length bytes"
  shows "\<exists>spans. emit_spans c n p = Inr spans \<and> concat (map (span_bytes c) spans) = take n (drop p bytes)"
  using assms(3)
proof (induction n arbitrary: p rule: less_induct)
  case (less n)
  show ?case
  proof (cases "n = 0")
    case True
    then show ?thesis by (simp add: emit_spans.simps)
  next
    case False
    let ?k = "p div chunk_size c" and ?l = "p mod chunk_size c"
    have cs: "0 < chunk_size c" "total_packed_bytes c + chunk_size c < 2 ^ 64" "p < total_packed_bytes c"
      using assms(1,2) less.prems False by (simp_all add: chunked_def)
    note av = chunk_bytes_available_ok [OF cs(2,3,1)]
    define m where "m = min n (chunk_bytes_available c ?k ?l)"
    define e where "e = min (?k * chunk_size c + chunk_size c) (total_packed_bytes c)"
    have e: "p < e" "e \<le> ?k * chunk_size c + chunk_size c" using av(2) unfolding e_def by (assumption, simp)
    have "m = min n (e - p)" unfolding m_def e_def av(1) ..
    then have m: "0 < m" "m \<le> n" "p + m \<le> ?k * chunk_size c + chunk_size c"
      using False e by linarith+
    have pl: "?k * chunk_size c + ?l = p" by simp
    then have "?k * chunk_size c < length bytes" using cs(3) assms(2) by linarith
    then have buf: "?k < length (buffers c)" "buffers c ! ?k = take (chunk_size c) (drop (?k * chunk_size c) bytes)"
      using assms(1) by (auto simp: chunked_def)
    have "n - m < n" "p + m + (n - m) \<le> length bytes" using m less.prems by simp_all
    from less.IH [OF this] obtain spans where
      sp: "emit_spans c (n - m) (p + m) = Inr spans" "concat (map (span_bytes c) spans) = take (n - m) (drop (p + m) bytes)"
      by blast
    have "?l + m \<le> chunk_size c" using m(3) pl by linarith
    then have "span_bytes c (?k, ?l, m) = take m (drop p bytes)"
      using buf pl by (simp add: span_bytes_def drop_take add.commute min_def)
    then have "concat (map (span_bytes c) ((?k, ?l, m) # spans)) = take n (drop p bytes)"
      using sp(2) take_drop_append_split [OF m(2), of p bytes] by simp
    moreover have "emit_spans c n p = Inr ((?k, ?l, m) # spans)"
      using False m(1) buf(1) sp(1) by (subst emit_spans.simps) (simp add: m_def [symmetric] Let_def)
    ultimately show ?thesis by blast
  qed
qed

lemma running_offsets_nth:
  "i < length rs \<Longrightarrow> running_offsets n rs ! i = n + length (packed file (take i rs))"
proof (induction rs arbitrary: i n)
  case (Cons r rs)
  then show ?case by (cases i) (auto simp: packed_def range_end_def)
qed simp

lemma length_packed: "length (packed file rs) = sum_list (map range_size rs)"
  by (induction rs) (simp_all add: packed_def range_end_def)

lemma packed_slice:
  assumes "i < length rs" and "range_offset (rs ! i) \<le> q" and "q + n \<le> range_end (rs ! i)"
  shows "take n (drop (length (packed file (take i rs)) + (q - range_offset (rs ! i))) (packed file rs)) = map file [q ..< q + n]"
    and "length (packed file (take i rs)) + (q - range_offset (rs ! i)) + n \<le> length (packed file rs)"
proof -
  let ?r = "rs ! i"
  have "rs = take i rs @ ?r # drop (Suc i) rs" using assms(1) by (rule id_take_nth_drop)
  then have "packed file rs = packed file (take i rs @ ?r # drop (Suc i) rs)" by (rule arg_cong)
  then have p: "packed file rs = packed file (take i rs) @ map file [range_offset ?r ..< range_end ?r] @ packed file (drop (Suc i) rs)"
    by (simp add: packed_def)
  show "length (packed file (take i rs)) + (q - range_offset ?r) + n \<le> length (packed file rs)"
    unfolding p using assms(2,3) by simp
  show "take n (drop (length (packed file (take i rs)) + (q - range_offset ?r)) (packed file rs)) = map file [q ..< q + n]"
    unfolding p using assms(2,3) by (simp add: drop_map take_map)
qed

section \<open>Properties\<close>

lemma make_cache_ranges_ok:
  assumes "disjoint_from 0 rs"
  shows "gaps (ranges (make_cache_ranges rs bufs sz))"
    "covered (ranges (make_cache_ranges rs bufs sz)) = covered rs"
    "packed file (ranges (make_cache_ranges rs bufs sz)) = packed file rs"
    "pack_offsets (make_cache_ranges rs bufs sz) = running_offsets 0 (ranges (make_cache_ranges rs bufs sz))"
    "total_packed_bytes (make_cache_ranges rs bufs sz) = length (packed file rs)"
    "buffers (make_cache_ranges rs bufs sz) = bufs" "chunk_size (make_cache_ranges rs bufs sz) = sz"
proof -
  have "gaps (ranges (make_cache_ranges rs bufs sz)) \<and> covered (ranges (make_cache_ranges rs bufs sz)) = covered rs \<and>
    packed file (ranges (make_cache_ranges rs bufs sz)) = packed file rs"
  proof (cases rs)
    case (Cons r rest)
    then have "disjoint_from (range_end r) rest" using assms by simp
    from coalesce_ok [OF this] Cons show ?thesis by (simp add: make_cache_ranges_def Let_def)
  qed (simp add: make_cache_ranges_def)
  then show "gaps (ranges (make_cache_ranges rs bufs sz))"
    "covered (ranges (make_cache_ranges rs bufs sz)) = covered rs"
    and p: "packed file (ranges (make_cache_ranges rs bufs sz)) = packed file rs" by simp_all
  show "pack_offsets (make_cache_ranges rs bufs sz) = running_offsets 0 (ranges (make_cache_ranges rs bufs sz))"
    "buffers (make_cache_ranges rs bufs sz) = bufs" "chunk_size (make_cache_ranges rs bufs sz) = sz"
    by (simp_all add: make_cache_ranges_def Let_def)
  show "total_packed_bytes (make_cache_ranges rs bufs sz) = length (packed file rs)"
    unfolding p [symmetric] length_packed by (simp add: make_cache_ranges_def Let_def)
qed



end
