(* ===== verification/Run_Laws.thy ===== *)
theory Run_Laws
  imports Sirius_Prelude "HOL-Library.Multiset"
begin

text \<open>
  Two contracts that the concurrent parts of the engine share, and what follows from them.

  A \<^emph>\<open>ledger\<close> hands out reservations from a bounded budget and takes them back. Admission control and
  the bounded thread pool are ledgers. A \<^emph>\<open>draining\<close> system works off a finite load step by step. The
  workers of the bounded pool and of the scoped dispatcher are draining systems.
\<close>

section \<open>Ledgers\<close>

text \<open>
  \<open>grant r s\<close> is what a request sees when it looks at the state under the lock: a new state and a
  reservation, or \<open>None\<close> if it has to wait. The laws hold in states satisfying \<open>ok\<close>, for requests that
  are \<open>allowed\<close> there.
\<close>

locale ledger =
  fixes grant :: "'r \<Rightarrow> 's \<Rightarrow> ('s \<times> 'g) option"
    and give_back :: "'g \<Rightarrow> 's \<Rightarrow> 's"
    and weight :: "'g \<Rightarrow> nat"
    and used :: "'s \<Rightarrow> nat"
    and holders :: "'s \<Rightarrow> nat"
    and limit :: "'s \<Rightarrow> nat"
    and ok :: "'s \<Rightarrow> bool"
    and allowed :: "'r \<Rightarrow> 's \<Rightarrow> bool"
  assumes grant_books: "ok s \<Longrightarrow> allowed r s \<Longrightarrow> used s \<le> limit s \<Longrightarrow> (holders s = 0 \<longrightarrow> used s = 0) \<Longrightarrow> grant r s = Some (s', g) \<Longrightarrow>
      ok s' \<and> used s' = used s + weight g \<and> holders s' = Suc (holders s) \<and> limit s' = limit s \<and> used s' \<le> limit s'"
    and give_back_books: "ok s \<Longrightarrow> weight g \<le> used s \<Longrightarrow> 0 < holders s \<Longrightarrow>
      ok (give_back g s) \<and> used (give_back g s) = used s - weight g \<and> holders (give_back g s) = holders s - 1 \<and>
      limit (give_back g s) = limit s"
begin

text \<open>All interleavings of granted requests and returns, with the reservations that are out.\<close>

inductive run :: "'s \<Rightarrow> 's \<Rightarrow> 'g multiset \<Rightarrow> bool" for s0 where
  run_start: "run s0 s0 {#}"
| run_grant: "run s0 s G \<Longrightarrow> allowed r s \<Longrightarrow> grant r s = Some (s', g) \<Longrightarrow> run s0 s' (add_mset g G)"
| run_return: "run s0 s (add_mset g G) \<Longrightarrow> run s0 (give_back g s) G"

definition balanced :: "nat \<Rightarrow> 's \<Rightarrow> 'g multiset \<Rightarrow> bool" where
  "balanced l s G \<longleftrightarrow> ok s \<and> used s = sum_mset (image_mset weight G) \<and> holders s = size G \<and> limit s = l \<and> used s \<le> l"

lemma balanced_return: "balanced l s (add_mset g G) \<Longrightarrow> balanced l (give_back g s) G"
  using give_back_books [of s g] by (simp add: balanced_def)

lemma run_balanced:
  assumes "run s0 s G" and "ok s0" "used s0 = 0" "holders s0 = 0"
  shows "balanced (limit s0) s G"
  using assms
proof induction
  case run_start
  then show ?case by (simp add: balanced_def)
next
  case (run_grant s G r s' g)
  then show ?case using grant_books [of s r s' g] by (auto simp: balanced_def)
next
  case (run_return s g G)
  then show ?case using balanced_return by simp
qed

end

text \<open>A ledger that turns no request away forever: with no reservation out it grants.\<close>

locale live_ledger = ledger grant give_back weight used holders limit ok allowed
  for grant :: "'r \<Rightarrow> 's \<Rightarrow> ('s \<times> 'g) option"
    and give_back :: "'g \<Rightarrow> 's \<Rightarrow> 's"
    and weight :: "'g \<Rightarrow> nat"
    and used :: "'s \<Rightarrow> nat"
    and holders :: "'s \<Rightarrow> nat"
    and limit :: "'s \<Rightarrow> nat"
    and ok :: "'s \<Rightarrow> bool"
    and allowed :: "'r \<Rightarrow> 's \<Rightarrow> bool" +
  fixes serving :: "'s \<Rightarrow> bool"
  assumes idle_grants: "ok s \<Longrightarrow> serving s \<Longrightarrow> holders s = 0 \<Longrightarrow> grant r s \<noteq> None"
begin

lemma idle_run_grants:
  assumes "run s0 s {#}" and "ok s0" "used s0 = 0" "holders s0 = 0" and "serving s"
  shows "grant r s \<noteq> None"
  using run_balanced [OF assms(1-4)] idle_grants [OF _ assms(5)] by (simp add: balanced_def)

end

section \<open>Draining systems\<close>

locale draining =
  fixes step :: "'s \<Rightarrow> 's \<Rightarrow> bool"
    and load :: "'s \<Rightarrow> nat"
    and inv :: "'s \<Rightarrow> bool"
  assumes step_inv: "inv s \<Longrightarrow> step s s' \<Longrightarrow> inv s'"
    and step_load: "inv s \<Longrightarrow> step s s' \<Longrightarrow> load s' < load s"
    and progress: "inv s \<Longrightarrow> 0 < load s \<Longrightarrow> \<exists>s'. step s s'"
begin

lemma steps_inv: "step\<^sup>*\<^sup>* s s' \<Longrightarrow> inv s \<Longrightarrow> inv s'"
  by (induction rule: rtranclp_induct) (auto intro: step_inv)

text \<open>No run is longer than the load, and a run that cannot go on has no load left.\<close>

lemma run_bounded:
  assumes "(step ^^ n) s s'" and "inv s"
  shows "n + load s' \<le> load s"
  using assms
proof (induction n arbitrary: s')
  case (Suc n)
  then obtain t where t: "(step ^^ n) s t" "step t s'" by auto
  have "inv t" using t(1) Suc.prems(2) steps_inv relpowp_imp_rtranclp by metis
  then show ?case using Suc.IH [OF t(1) Suc.prems(2)] step_load [OF _ t(2)] by fastforce
qed simp

lemma stuck_drained: "inv s \<Longrightarrow> step\<^sup>*\<^sup>* s s' \<Longrightarrow> \<not> (\<exists>t. step s' t) \<Longrightarrow> load s' = 0"
  using progress steps_inv by blast

lemma drains: "inv s \<Longrightarrow> \<exists>s'. step\<^sup>*\<^sup>* s s' \<and> load s' = 0"
proof (induction "load s" arbitrary: s rule: less_induct)
  case less
  show ?case
  proof (cases "load s = 0")
    case False
    then obtain t where t: "step s t" using progress [OF less.prems] by blast
    from less.hyps [OF step_load [OF less.prems t] step_inv [OF less.prems t]] t
    show ?thesis by (meson converse_rtranclp_into_rtranclp)
  qed blast
qed

lemma drains_stuck:
  assumes "inv s"
  shows "\<exists>s'. step\<^sup>*\<^sup>* s s' \<and> \<not> (\<exists>t. step s' t)"
proof -
  obtain s' where "step\<^sup>*\<^sup>* s s'" "load s' = 0" using drains [OF assms] by blast
  then show ?thesis using steps_inv [OF _ assms] step_load by fastforce
qed

end

end
