(* ===== verification/Admission.thy ===== *)
theory Admission
  imports Run_Laws
begin

text \<open>
  Admission control (\<^verbatim>\<open>io/admission_control.cpp\<close>): a budget from which callers reserve a part by acquiring
  a \<open>slot\<close>, an object that gives its part back when it is destroyed. All quantities are \<open>size_t\<close>, so they
  are 64-bit words. One controller is modelled; a slot's pointer to it is a boolean.

  Slot objects can be moved, so the model keeps them in a store indexed by their address. The main
  result is that this store with its moves and destructors refines an abstract ledger.
\<close>

section \<open>The controller and its slots\<close>

record admission =
  budget :: "64 word"
  in_use :: "64 word"
  active_slots :: "64 word"

record slot =
  ctrl :: bool
  reserved :: "64 word"

definition make_admission :: "64 word \<Rightarrow> admission" where
  "make_admission b = \<lparr>budget = b, in_use = 0, active_slots = 0\<rparr>"

definition no_slot :: slot where
  "no_slot = \<lparr>ctrl = False, reserved = 0\<rparr>"

definition fits :: "64 word \<Rightarrow> admission \<Rightarrow> bool" where
  "fits n a \<longleftrightarrow> in_use a + n \<le> budget a"

text \<open>
  One look of \<open>acquire\<close> at the state, under the lock. \<open>None\<close> means that the call goes on waiting. The
  condition is evaluated before the stop token, as \<open>condition_variable_any::wait\<close> does.
\<close>

definition acquire :: "64 word \<Rightarrow> bool \<Rightarrow> admission \<Rightarrow> (admission \<times> slot) option" where
  "acquire n stop a =
     (if fits n a \<or> active_slots a = 0 then
        let r = (if fits n a then n else budget a) in
        Some (a\<lparr>in_use := in_use a + r, active_slots := active_slots a + 1\<rparr>, \<lparr>ctrl = True, reserved = r\<rparr>)
      else if stop then Some (a, no_slot)
      else None)"

definition release :: "64 word \<Rightarrow> admission \<Rightarrow> admission" where
  "release r a = a\<lparr>in_use := in_use a - r, active_slots := active_slots a - 1\<rparr>"

text \<open>
  The slot objects, by address. A destroyed object is left as an empty slot: nothing reads it again.
\<close>

type_synonym slot_store = "admission \<times> slot list"

definition release_slot :: "slot \<Rightarrow> admission \<Rightarrow> admission" where
  "release_slot s a = (if ctrl s then release (reserved s) a else a)"

definition slot_destroy :: "nat \<Rightarrow> slot_store \<Rightarrow> slot_store" where
  "slot_destroy i st = (release_slot (snd st ! i) (fst st), (snd st)[i := no_slot])"

definition slot_move :: "nat \<Rightarrow> slot_store \<Rightarrow> slot_store" where
  "slot_move i st = (fst st, (snd st)[i := no_slot] @ [snd st ! i])"

definition slot_assign :: "nat \<Rightarrow> nat \<Rightarrow> slot_store \<Rightarrow> slot_store" where
  "slot_assign i j st =
     (if i \<noteq> j then (release_slot (snd st ! i) (fst st), (snd st)[i := snd st ! j, j := no_slot]) else st)"

text \<open>
  The callers. The sums \<open>_in_use + size\<close> and \<open>_active_slots + 1\<close> must not wrap; the code does not check
  this.
\<close>

definition admissible :: "64 word \<Rightarrow> admission \<Rightarrow> bool" where
  "admissible n a \<longleftrightarrow> unat (in_use a) + unat n < 2 ^ 64 \<and> unat (active_slots a) + 1 < 2 ^ 64"

inductive slot_step :: "slot_store \<Rightarrow> slot_store \<Rightarrow> bool" where
  step_acquire: "admissible n a \<Longrightarrow> acquire n stop a = Some (a', s) \<Longrightarrow> slot_step (a, ss) (a', ss @ [s])"
| step_move: "i < length (snd st) \<Longrightarrow> slot_step st (slot_move i st)"
| step_assign: "i < length (snd st) \<Longrightarrow> j < length (snd st) \<Longrightarrow> slot_step st (slot_assign i j st)"
| step_destroy: "i < length (snd st) \<Longrightarrow> slot_step st (slot_destroy i st)"

section \<open>The controller as a ledger\<close>

definition grant_bytes :: "64 word \<Rightarrow> admission \<Rightarrow> (admission \<times> 64 word) option" where
  "grant_bytes n a = map_option (map_prod id reserved) (acquire n False a)"

lemma unat_add_64: "unat (x :: 64 word) + unat y < 2 ^ 64 \<Longrightarrow> unat (x + y) = unat x + unat y"
  using unat_add_lem [of x y] by simp

lemma fits_iff:
  assumes "admissible n a"
  shows "fits n a \<longleftrightarrow> unat (in_use a) + unat n \<le> unat (budget a)"
  using assms by (simp add: fits_def admissible_def word_le_nat_alt unat_add_64)

lemma acquire_books:
  assumes "admissible n a" "unat (in_use a) \<le> unat (budget a)" "unat (active_slots a) = 0 \<longrightarrow> unat (in_use a) = 0"
    and "acquire n stop a = Some (a', s)" "ctrl s"
  shows "unat (in_use a') = unat (in_use a) + unat (reserved s)" "unat (active_slots a') = Suc (unat (active_slots a))"
    "budget a' = budget a" "unat (in_use a') \<le> unat (budget a)"
proof -
  have act: "unat (active_slots a + 1) = Suc (unat (active_slots a))"
    using assms(1) unat_add_64 [of "active_slots a" 1] by (simp add: admissible_def)
  have "unat (in_use a') = unat (in_use a) + unat (reserved s) \<and> unat (active_slots a') = Suc (unat (active_slots a)) \<and>
    budget a' = budget a \<and> unat (in_use a') \<le> unat (budget a)"
  proof (cases "fits n a")
    case True
    then show ?thesis
      using assms(1,4) act fits_iff [OF assms(1)]
      by (auto simp: acquire_def Let_def admissible_def unat_add_64)
  next
    case False
    then have "active_slots a = 0" using assms(4,5) by (auto simp: acquire_def no_slot_def split: if_splits)
    moreover then have "in_use a = 0" using assms(3) by (simp add: unat_eq_zero)
    ultimately show ?thesis using False assms(4) act by (auto simp: acquire_def Let_def)
  qed
  then show "unat (in_use a') = unat (in_use a) + unat (reserved s)" "unat (active_slots a') = Suc (unat (active_slots a))"
    "budget a' = budget a" "unat (in_use a') \<le> unat (budget a)" by simp_all
qed

lemma release_books:
  assumes "unat r \<le> unat (in_use a)" and "0 < unat (active_slots a)"
  shows "unat (in_use (release r a)) = unat (in_use a) - unat r"
    "unat (active_slots (release r a)) = unat (active_slots a) - 1"
proof -
  have "1 \<le> active_slots a" using assms(2) by (simp add: word_le_nat_alt)
  then show "unat (active_slots (release r a)) = unat (active_slots a) - 1"
    using unat_sub [of 1 "active_slots a"] by (simp add: release_def)
  show "unat (in_use (release r a)) = unat (in_use a) - unat r"
    using assms(1) unat_sub [of r "in_use a"] by (simp add: release_def word_le_nat_alt)
qed

lemma grant_bytes_eq:
  "grant_bytes n a = Some (a', r) \<longleftrightarrow> (\<exists>s. acquire n False a = Some (a', s) \<and> ctrl s \<and> reserved s = r)"
  by (auto simp: grant_bytes_def acquire_def Let_def)

interpretation adm: live_ledger grant_bytes release unat "\<lambda>a. unat (in_use a)" "\<lambda>a. unat (active_slots a)"
  "\<lambda>a. unat (budget a)" "\<lambda>_. True" admissible "\<lambda>_. True"
proof unfold_locales
  fix a :: admission and r n :: "64 word" and a'
  assume h: "admissible n a" "unat (in_use a) \<le> unat (budget a)" "unat (active_slots a) = 0 \<longrightarrow> unat (in_use a) = 0"
    "grant_bytes n a = Some (a', r)"
  then obtain s where "acquire n False a = Some (a', s)" "ctrl s" "reserved s = r" by (auto simp: grant_bytes_eq)
  with acquire_books [OF h(1-3) this(1,2)]
  show "True \<and> unat (in_use a') = unat (in_use a) + unat r \<and> unat (active_slots a') = Suc (unat (active_slots a)) \<and>
    unat (budget a') = unat (budget a) \<and> unat (in_use a') \<le> unat (budget a')" by simp
next
  fix a :: admission and r :: "64 word"
  assume "unat r \<le> unat (in_use a)" "0 < unat (active_slots a)"
  then show "True \<and> unat (in_use (release r a)) = unat (in_use a) - unat r \<and>
    unat (active_slots (release r a)) = unat (active_slots a) - 1 \<and> unat (budget (release r a)) = unat (budget a)"
    by (simp add: release_books) (simp add: release_def)
next
  fix a :: admission and n :: "64 word"
  assume "unat (active_slots a) = 0"
  then show "grant_bytes n a \<noteq> None" by (simp add: grant_bytes_def acquire_def unat_eq_zero Let_def)
qed

section \<open>Moving and destroying slots\<close>

definition held :: "slot list \<Rightarrow> 64 word multiset" where
  "held ss = image_mset reserved (filter_mset ctrl (mset ss))"

lemma held_simps [simp]:
  "held [] = {#}" "held (ss @ [s]) = (if ctrl s then add_mset (reserved s) (held ss) else held ss)"
  by (simp_all add: held_def)

lemma mset_two_elements:
  assumes "i < length ss" "j < length ss" "i \<noteq> j"
  obtains R where "mset ss = add_mset (ss ! i) (add_mset (ss ! j) R)"
    "\<And>x y. mset (ss[i := x, j := y]) = add_mset x (add_mset y R)"
proof -
  let ?I = "{0..<length ss} - {i, j}"
  have split: "{0..<length ss} = insert i (insert j ?I)" using assms by auto
  have m: "mset zs = add_mset (zs ! i) (add_mset (zs ! j) (image_mset ((!) zs) (mset_set ?I)))"
    if "length zs = length ss" for zs
  proof -
    have "mset zs = image_mset ((!) zs) (mset_set {0..<length ss})"
      using that by (metis map_nth mset_map mset_upt)
    also have "mset_set {0..<length ss} = add_mset i (add_mset j (mset_set ?I))"
      by (subst split, subst mset_set.insert) (use assms(3) in simp_all)
    finally show ?thesis by simp
  qed
  have "mset (ss[i := x, j := y]) = add_mset x (add_mset y (image_mset ((!) ss) (mset_set ?I)))" for x y
  proof -
    have "image_mset ((!) (ss[i := x, j := y])) (mset_set ?I) = image_mset ((!) ss) (mset_set ?I)"
      by (rule image_mset_cong) simp
    then show ?thesis using m [of "ss[i := x, j := y]"] assms by simp
  qed
  with m [of ss] that show thesis by blast
qed

text \<open>Each step of the objects is a step of the ledger, or none.\<close>

lemma slot_step_simulates:
  assumes "slot_step st st'" and "adm.run a0 (fst st) (held (snd st))"
  shows "adm.run a0 (fst st') (held (snd st'))"
  using assms
proof cases
  case (step_acquire n a stop a' s ss)
  show ?thesis
  proof (cases "ctrl s")
    case True
    then have "grant_bytes n a = Some (a', reserved s)"
      using step_acquire(4) by (auto simp: grant_bytes_def acquire_def no_slot_def Let_def split: if_splits)
    then show ?thesis using assms(2) step_acquire True adm.run_grant by simp
  next
    case False
    then have "a' = a" using step_acquire(4) by (auto simp: acquire_def Let_def split: if_splits)
    then show ?thesis using assms(2) step_acquire False by simp
  qed
next
  case (step_move i)
  then have "held (snd st') = held (snd st)"
    using mset_update [of i "snd st" no_slot] multi_member_split [of "snd st ! i" "mset (snd st)"]
    by (auto simp: slot_move_def held_def no_slot_def)
  then show ?thesis using assms(2) step_move by (simp add: slot_move_def)
next
  case (step_destroy i)
  obtain R where R: "mset (snd st) = add_mset (snd st ! i) R"
    using step_destroy(2) multi_member_split [of "snd st ! i" "mset (snd st)"] by auto
  then have "held (snd st') = image_mset reserved (filter_mset ctrl R)"
    using step_destroy mset_update [of i "snd st" no_slot] by (simp add: slot_destroy_def held_def no_slot_def)
  moreover have "held (snd st) = (if ctrl (snd st ! i) then add_mset (reserved (snd st ! i)) (image_mset reserved (filter_mset ctrl R))
      else image_mset reserved (filter_mset ctrl R))"
    using R by (simp add: held_def)
  ultimately show ?thesis
    using assms(2) step_destroy(1) adm.run_return by (auto simp: slot_destroy_def release_slot_def split: if_splits)
next
  case (step_assign i j)
  show ?thesis
  proof (cases "i = j")
    case False
    obtain R where R: "mset (snd st) = add_mset (snd st ! i) (add_mset (snd st ! j) R)"
      "\<And>x y. mset ((snd st)[i := x, j := y]) = add_mset x (add_mset y R)"
      using mset_two_elements [OF step_assign(2,3) False] by blast
    define G where "G = image_mset reserved (filter_mset ctrl (add_mset (snd st ! j) R))"
    have G': "held (snd st') = G"
      using R(2) False step_assign(1) by (simp add: G_def slot_assign_def held_def no_slot_def)
    have G: "held (snd st) = (if ctrl (snd st ! i) then add_mset (reserved (snd st ! i)) G else G)"
      using R(1) by (simp add: G_def held_def)
    have "fst st' = release_slot (snd st ! i) (fst st)" using False step_assign(1) by (simp add: slot_assign_def)
    with G G' assms(2) show ?thesis
      using adm.run_return [of a0 "fst st" "reserved (snd st ! i)" G] by (simp add: release_slot_def split: if_splits)
  qed (use assms(2) step_assign(1) in \<open>simp add: slot_assign_def\<close>)
qed

lemma slot_steps_run:
  assumes "slot_step\<^sup>*\<^sup>* (make_admission b, []) st"
  shows "adm.run (make_admission b) (fst st) (held (snd st))"
  using assms by (induction rule: rtranclp_induct) (auto intro: adm.run_start slot_step_simulates)

lemma slot_steps_balanced:
  assumes "slot_step\<^sup>*\<^sup>* (make_admission b, []) st"
  shows "adm.balanced (unat b) (fst st) (held (snd st))"
  using adm.run_balanced [OF slot_steps_run [OF assms]] by (simp add: make_admission_def)

lemma length_slot_destroy [simp]: "length (snd (slot_destroy i st)) = length (snd st)"
  by (simp add: slot_destroy_def)

lemma slot_destroy_ctrl:
  "i < length (snd st) \<Longrightarrow> ctrl (snd (slot_destroy j st) ! i) \<longleftrightarrow> ctrl (snd st ! i) \<and> i \<noteq> j"
  by (cases "i = j") (simp_all add: slot_destroy_def no_slot_def)

lemma destroy_all_steps:
  assumes "set is \<subseteq> {..<length (snd st)}"
  shows "slot_step\<^sup>*\<^sup>* st (fold slot_destroy is st)"
  using assms
proof (induction "is" arbitrary: st)
  case (Cons i "is")
  then have "slot_step st (slot_destroy i st)" by (intro step_destroy) simp
  moreover have "slot_step\<^sup>*\<^sup>* (slot_destroy i st) (fold slot_destroy is (slot_destroy i st))"
    using Cons by simp
  ultimately show ?case by (simp add: converse_rtranclp_into_rtranclp)
qed simp

lemma destroy_all_held:
  "i < length (snd st) \<Longrightarrow> \<not> ctrl (snd st ! i) \<or> i \<in> set is \<Longrightarrow> \<not> ctrl (snd (fold slot_destroy is st) ! i)"
proof (induction "is" arbitrary: st)
  case (Cons j "is")
  have "\<not> ctrl (snd (slot_destroy j st) ! i) \<or> i \<in> set is"
    using Cons.prems slot_destroy_ctrl [of i st j] by auto
  then show ?case using Cons.IH [of "slot_destroy j st"] Cons.prems(1) by simp
qed simp

lemma length_destroy_all [simp]: "length (snd (fold slot_destroy is st)) = length (snd st)"
  by (induction "is" arbitrary: st) simp_all

section \<open>Properties\<close>

lemma first_acquire:
  assumes "acquire n False (make_admission b) = Some (a, s)"
  shows "slot_step\<^sup>*\<^sup>* (make_admission b, []) (a, [s])"
proof -
  have "admissible n (make_admission b)" using unsigned_less [of n, where ?'a = nat] by (simp add: admissible_def make_admission_def)
  from step_acquire [OF this assms, of "[]"] show ?thesis by simp
qed

text \<open>
  C17: however the slots of a controller are acquired, moved, move-assigned and destroyed, the controller
  books exactly what the live slots hold. In every reachable state \<open>_in_use\<close> is the sum of their
  reservations, \<open>_active_slots\<close> is their number, and the sum stays within the budget.
\<close>

theorem admission_books_exact:
  assumes "slot_step\<^sup>*\<^sup>* (make_admission b, []) (a, ss)"
  shows "unat (in_use a) = sum_list (map (unat \<circ> reserved) (filter ctrl ss)) \<and>
    unat (active_slots a) = length (filter ctrl ss) \<and> unat (in_use a) \<le> unat b"
  using slot_steps_balanced [OF assms]
  by (simp add: adm.balanced_def held_def sum_mset_sum_list [symmetric] multiset.map_comp flip: mset_filter)

theorem admission_books_exact_witness:
  "unat (in_use \<lparr>budget = 10, in_use = 4, active_slots = 1\<rparr>) =
    sum_list (map (unat \<circ> reserved) (filter ctrl [no_slot, \<lparr>ctrl = True, reserved = 4\<rparr>]))"
proof -
  let ?a = "\<lparr>budget = 10, in_use = 4, active_slots = 1\<rparr>" and ?s = "\<lparr>ctrl = True, reserved = 4\<rparr>"
  have "slot_step\<^sup>*\<^sup>* (make_admission 10, []) (?a, [?s])"
    by (rule first_acquire [of 4]) (simp add: make_admission_def acquire_def fits_def)
  moreover have "slot_step (?a, [?s]) (?a, [no_slot, ?s])"
    using step_move [of 0 "(?a, [?s])"] by (simp add: slot_move_def)
  ultimately have "slot_step\<^sup>*\<^sup>* (make_admission 10, []) (?a, [no_slot, ?s])" by (rule rtranclp.rtrancl_into_rtrancl)
  from admission_books_exact [OF this] show ?thesis by (rule conjunct1)
qed

text \<open>
  C18: the slot objects refine the ledger. Every reachable state of the controller is one that a run of
  grants and returns can produce, with the reservations of the live slots outstanding. A move
  constructor or a self-assignment is no step of the ledger, a move assignment over a live slot or
  a destructor is one return.
\<close>

theorem slots_refine_ledger:
  assumes "slot_step\<^sup>*\<^sup>* (make_admission b, []) (a, ss)"
  shows "adm.run (make_admission b) a (held ss)"
  using slot_steps_run [OF assms] by simp

theorem slots_refine_ledger_witness:
  "adm.run (make_admission 10) \<lparr>budget = 10, in_use = 10, active_slots = 1\<rparr> {#10#}"
proof -
  have "slot_step\<^sup>*\<^sup>* (make_admission 10, []) (\<lparr>budget = 10, in_use = 10, active_slots = 1\<rparr>, [\<lparr>ctrl = True, reserved = 10\<rparr>])"
    by (rule first_acquire [of 25]) (simp add: make_admission_def acquire_def fits_def)
  from slots_refine_ledger [OF this] show ?thesis by (simp add: held_def)
qed



end
