(* ===== verification/Bounded_Pool.thy ===== *)
theory Bounded_Pool
  imports Run_Laws
begin

text \<open>
  The bounded thread pool (\<^verbatim>\<open>include/exec/bounded_thread_pool.hpp\<close>): a fixed set of workers and a counter of
  active slots. A client reserves a slot, which blocks at capacity, and dispatches a job with it; the
  slot is released when the job is finished or the slot object is destroyed.

  The operations are functions on the pool's fields, one per critical section. The system adds what
  surrounds them: the slot objects of the clients, the workers, and the threads that sleep on a
  condition variable, so that a lost wake-up would show. A notification that the code sends after
  it has left the critical section is a step of its own.
\<close>

section \<open>The pool\<close>

record 'f bounded_pool =
  active :: int
  capacity :: int
  interrupted :: bool
  stop_requested :: bool
  work_queue :: "'f list"

text \<open>\<open>None\<close> means that the call sleeps; otherwise the boolean says whether the slot is valid.\<close>

definition reserve :: "('f, 'z) bounded_pool_scheme \<Rightarrow> (('f, 'z) bounded_pool_scheme \<times> bool) option" where
  "reserve p =
     (if active p < capacity p \<or> interrupted p \<or> stop_requested p then
        if interrupted p \<or> stop_requested p then Some (p, False)
        else Some (p\<lparr>active := active p + 1\<rparr>, True)
      else None)"

definition interrupt :: "('f, 'z) bounded_pool_scheme \<Rightarrow> ('f, 'z) bounded_pool_scheme" where
  "interrupt p = p\<lparr>interrupted := True\<rparr>"

definition resume :: "('f, 'z) bounded_pool_scheme \<Rightarrow> ('f, 'z) bounded_pool_scheme" where
  "resume p = p\<lparr>interrupted := False\<rparr>"

definition stop :: "('f, 'z) bounded_pool_scheme \<Rightarrow> ('f, 'z) bounded_pool_scheme" where
  "stop p = (if stop_requested p then p else p\<lparr>stop_requested := True, interrupted := True\<rparr>)"

text \<open>The job that the slot was moved into; an invalid slot drops the job.\<close>

definition dispatch :: "bool \<Rightarrow> 'f \<Rightarrow> ('f, 'z) bounded_pool_scheme \<Rightarrow> ('f, 'z) bounded_pool_scheme" where
  "dispatch valid fn p = (if \<not> valid then p else p\<lparr>work_queue := work_queue p @ [fn]\<rparr>)"

definition release_slot :: "('f, 'z) bounded_pool_scheme \<Rightarrow> ('f, 'z) bounded_pool_scheme" where
  "release_slot p = p\<lparr>active := active p - 1\<rparr>"

text \<open>One round of the worker loop: sleep, leave the loop, or take the first job.\<close>

definition work_round :: "('f, 'z) bounded_pool_scheme \<Rightarrow> (('f, 'z) bounded_pool_scheme \<times> 'f option) option" where
  "work_round p =
     (if work_queue p = [] \<and> \<not> stop_requested p then None
      else if stop_requested p \<and> work_queue p = [] then Some (p, None)
      else Some (p\<lparr>work_queue := tl (work_queue p)\<rparr>, Some (hd (work_queue p))))"

section \<open>Clients and workers\<close>

record 'f pool_system = "'f bounded_pool" +
  slots :: "bool list"
  busy :: "'f multiset"
  idle_workers :: nat
  reserve_asleep :: nat
  reserve_woken :: nat
  wait_all_asleep :: nat
  notifications :: nat
  dispatched :: "'f multiset"
  finished :: "'f multiset"

definition make_bounded_pool :: "nat \<Rightarrow> 'f pool_system" where
  "make_bounded_pool n =
     \<lparr>active = 0, capacity = int n, interrupted = False, stop_requested = False, work_queue = [],
      slots = [], busy = {#}, idle_workers = n, reserve_asleep = 0, reserve_woken = 0, wait_all_asleep = 0,
      notifications = 0, dispatched = {#}, finished = {#}\<rparr>"

text \<open>Releasing a slot queues the notifications of \<open>release_slot\<close>, which follow the critical section.\<close>

definition release_if :: "bool \<Rightarrow> 'f pool_system \<Rightarrow> 'f pool_system" where
  "release_if v s = (if v then (release_slot s)\<lparr>notifications := notifications s + 1\<rparr> else s)"

definition wake_reservers :: "'f pool_system \<Rightarrow> 'f pool_system" where
  "wake_reservers s = s\<lparr>reserve_asleep := 0, reserve_woken := reserve_woken s + reserve_asleep s\<rparr>"

definition deliver_notification :: "'f pool_system \<Rightarrow> 'f pool_system" where
  "deliver_notification s =
     (let n = min 1 (reserve_asleep s) in
      s\<lparr>reserve_asleep := reserve_asleep s - n, reserve_woken := reserve_woken s + n, wait_all_asleep := 0,
        notifications := notifications s - 1\<rparr>)"

definition reserve_call :: "'f pool_system \<Rightarrow> 'f pool_system" where
  "reserve_call s = (case reserve s of
       Some (s', v) \<Rightarrow> s'\<lparr>slots := slots s @ [v]\<rparr>
     | None \<Rightarrow> s\<lparr>reserve_asleep := reserve_asleep s + 1\<rparr>)"

definition wait_all :: "'f pool_system \<Rightarrow> 'f pool_system" where
  "wait_all s = (if active s = 0 then s else s\<lparr>wait_all_asleep := wait_all_asleep s + 1\<rparr>)"

definition pool_slot_move :: "nat \<Rightarrow> 'f pool_system \<Rightarrow> 'f pool_system" where
  "pool_slot_move i s = s\<lparr>slots := (slots s)[i := False] @ [slots s ! i]\<rparr>"

definition pool_slot_assign :: "nat \<Rightarrow> nat \<Rightarrow> 'f pool_system \<Rightarrow> 'f pool_system" where
  "pool_slot_assign i j s =
     (if i \<noteq> j then (release_if (slots s ! i) s)\<lparr>slots := (slots s)[i := slots s ! j, j := False]\<rparr> else s)"

definition pool_slot_destroy :: "nat \<Rightarrow> 'f pool_system \<Rightarrow> 'f pool_system" where
  "pool_slot_destroy i s = (release_if (slots s ! i) s)\<lparr>slots := (slots s)[i := False]\<rparr>"

definition dispatch_call :: "nat \<Rightarrow> 'f \<Rightarrow> 'f pool_system \<Rightarrow> 'f pool_system" where
  "dispatch_call i fn s =
     (dispatch (slots s ! i) fn s)\<lparr>slots := (slots s)[i := False],
        dispatched := (if slots s ! i then add_mset fn (dispatched s) else dispatched s)\<rparr>"

inductive client_step :: "'f pool_system \<Rightarrow> 'f pool_system \<Rightarrow> bool" where
  client_reserve: "client_step s (reserve_call s)"
| client_interrupt: "client_step s (wake_reservers (interrupt s))"
| client_resume: "client_step s (resume s)"
| client_stop: "client_step s (if stop_requested s then s else wake_reservers (stop s))"
| client_wait: "client_step s (wait_all s)"
| client_dispatch: "i < length (slots s) \<Longrightarrow> client_step s (dispatch_call i fn s)"
| client_move: "i < length (slots s) \<Longrightarrow> client_step s (pool_slot_move i s)"
| client_assign: "i < length (slots s) \<Longrightarrow> j < length (slots s) \<Longrightarrow> client_step s (pool_slot_assign i j s)"
| client_destroy: "i < length (slots s) \<Longrightarrow> client_step s (pool_slot_destroy i s)"

text \<open>What happens without a new call: the workers, the notifications, and callers that were woken.\<close>

inductive worker_step :: "'f pool_system \<Rightarrow> 'f pool_system \<Rightarrow> bool" where
  worker_take: "0 < idle_workers s \<Longrightarrow> work_round s = Some (s', Some fn) \<Longrightarrow>
     worker_step s (s'\<lparr>busy := add_mset fn (busy s), idle_workers := idle_workers s - 1\<rparr>)"
| worker_leave: "0 < idle_workers s \<Longrightarrow> work_round s = Some (s', None) \<Longrightarrow>
     worker_step s (s'\<lparr>idle_workers := idle_workers s - 1\<rparr>)"
| worker_finish: "fn \<in># busy s \<Longrightarrow>
     worker_step s ((release_if True s)\<lparr>busy := busy s - {#fn#}, idle_workers := idle_workers s + 1,
       finished := add_mset fn (finished s)\<rparr>)"
| worker_notify: "0 < notifications s \<Longrightarrow> worker_step s (deliver_notification s)"
| reserve_again: "0 < reserve_woken s \<Longrightarrow>
     worker_step s (reserve_call (s\<lparr>reserve_woken := reserve_woken s - 1\<rparr>))"

definition pool_step :: "'f pool_system \<Rightarrow> 'f pool_system \<Rightarrow> bool" where
  "pool_step s s' \<longleftrightarrow> client_step s s' \<or> worker_step s s'"

section \<open>The invariant\<close>

definition valid_slots :: "bool list \<Rightarrow> nat" where
  "valid_slots vs = length (filter (\<lambda>v. v) vs)"

lemma valid_slots_simps [simp]:
  "valid_slots [] = 0" "valid_slots (vs @ [v]) = valid_slots vs + of_bool v"
  by (simp_all add: valid_slots_def)

lemma valid_slots_update:
  "i < length vs \<Longrightarrow> int (valid_slots (vs[i := v])) = int (valid_slots vs) - of_bool (vs ! i) + of_bool v"
proof -
  assume i: "i < length vs"
  have "int (valid_slots vs) = int (length (filter (\<lambda>v. v) (take i vs @ vs ! i # drop (Suc i) vs)))"
    using id_take_nth_drop [OF i] by (simp add: valid_slots_def)
  then show ?thesis using i by (simp add: valid_slots_def upd_conv_take_nth_drop)
qed

definition pool_books :: "'f pool_system \<Rightarrow> bool" where
  "pool_books s \<longleftrightarrow>
     active s = int (valid_slots (slots s) + length (work_queue s) + size (busy s)) \<and> active s \<le> max 0 (capacity s) \<and>
     dispatched s = mset (work_queue s) + busy s + finished s"

definition no_lost_wakeup :: "'f pool_system \<Rightarrow> bool" where
  "no_lost_wakeup s \<longleftrightarrow>
     (0 < reserve_asleep s \<longrightarrow> \<not> interrupted s \<and> \<not> stop_requested s \<and>
        capacity s \<le> active s + int (reserve_woken s) + int (notifications s)) \<and>
     (0 < wait_all_asleep s \<longrightarrow> active s \<noteq> 0 \<or> 0 < notifications s)"

definition pool_inv :: "'f pool_system \<Rightarrow> bool" where
  "pool_inv s \<longleftrightarrow> pool_books s \<and> no_lost_wakeup s \<and>
     (\<not> stop_requested s \<longrightarrow> int (idle_workers s + size (busy s)) = capacity s)"

lemmas pool_op_defs = reserve_def interrupt_def resume_def stop_def dispatch_def release_slot_def work_round_def
  release_if_def wake_reservers_def deliver_notification_def reserve_call_def wait_all_def pool_slot_move_def
  pool_slot_assign_def pool_slot_destroy_def dispatch_call_def

lemma pool_inv_start: "pool_inv (make_bounded_pool n)"
  by (simp add: pool_inv_def pool_books_def no_lost_wakeup_def make_bounded_pool_def)

lemma pool_inv_reserve_call: "pool_inv s \<Longrightarrow> pool_inv (reserve_call s)"
  by (auto simp: reserve_call_def reserve_def pool_inv_def pool_books_def no_lost_wakeup_def)

lemma pool_inv_slots:
  assumes "pool_inv s" "i < length (slots s)"
  shows "pool_inv (pool_slot_move i s)" "pool_inv (pool_slot_destroy i s)" "pool_inv (dispatch_call i fn s)"
  using assms valid_slots_update [OF assms(2), of False]
  by (auto simp: pool_op_defs pool_inv_def pool_books_def no_lost_wakeup_def)

lemma pool_inv_assign:
  assumes "pool_inv s" "i < length (slots s)" "j < length (slots s)"
  shows "pool_inv (pool_slot_assign i j s)"
proof (cases "i = j")
  case False
  have "int (valid_slots ((slots s)[i := slots s ! j, j := False])) = int (valid_slots (slots s)) - of_bool (slots s ! i)"
    using valid_slots_update [of j "(slots s)[i := slots s ! j]" False] valid_slots_update [OF assms(2), of "slots s ! j"]
      assms(2,3) False by simp
  then show ?thesis
    using assms(1) False by (auto simp: pool_op_defs pool_inv_def pool_books_def no_lost_wakeup_def)
qed (use assms(1) in \<open>simp add: pool_slot_assign_def\<close>)

lemma pool_inv_client: "client_step s s' \<Longrightarrow> pool_inv s \<Longrightarrow> pool_inv s'"
proof (induction rule: client_step.induct)
  case (client_dispatch i s fn)
  then show ?case by (simp add: pool_inv_slots)
qed (simp_all add: pool_inv_reserve_call pool_inv_slots pool_inv_assign,
  auto simp: pool_op_defs pool_inv_def pool_books_def no_lost_wakeup_def)

lemma pool_inv_worker: "worker_step s s' \<Longrightarrow> pool_inv s \<Longrightarrow> pool_inv s'"
proof (induction rule: worker_step.induct)
  case (worker_take s s' fn)
  then show ?case
    by (cases "work_queue s") (auto simp: work_round_def pool_inv_def pool_books_def no_lost_wakeup_def split: if_splits)
next
  case (worker_leave s s')
  then show ?case
    by (auto simp: work_round_def pool_inv_def pool_books_def no_lost_wakeup_def split: if_splits)
next
  case (worker_finish fn s)
  then obtain B where "busy s = add_mset fn B" by (meson multi_member_split)
  with worker_finish show ?case
    by (auto simp: pool_op_defs pool_inv_def pool_books_def no_lost_wakeup_def)
next
  case (worker_notify s)
  then show ?case
    by (auto simp: deliver_notification_def Let_def min_def pool_inv_def pool_books_def no_lost_wakeup_def)
next
  case (reserve_again s)
  then show ?case
    by (auto simp: reserve_call_def reserve_def pool_inv_def pool_books_def no_lost_wakeup_def)
qed

lemma pool_reachable_inv: "pool_step\<^sup>*\<^sup>* (make_bounded_pool n) s \<Longrightarrow> pool_inv s"
  by (induction rule: rtranclp_induct) (auto simp: pool_step_def pool_inv_start intro: pool_inv_client pool_inv_worker)

section \<open>Draining\<close>

definition pool_load :: "'f pool_system \<Rightarrow> nat" where
  "pool_load s = 5 * length (work_queue s) + 4 * size (busy s) + (if stop_requested s then idle_workers s else 0) +
     2 * notifications s + 2 * reserve_woken s + reserve_asleep s"

text \<open>The workers have settled if only callers are left that wait for clients. That is no load.\<close>

definition pool_worker_inv :: "'f pool_system \<Rightarrow> bool" where
  "pool_worker_inv s \<longleftrightarrow> pool_inv s \<and> (work_queue s = [] \<or> 0 < idle_workers s + size (busy s))"

definition pool_settled :: "'f pool_system \<Rightarrow> bool" where
  "pool_settled s \<longleftrightarrow> work_queue s = [] \<and> busy s = {#} \<and> notifications s = 0 \<and> reserve_woken s = 0 \<and>
     (stop_requested s \<longrightarrow> idle_workers s = 0)"

definition pool_worker_load :: "'f pool_system \<Rightarrow> nat" where
  "pool_worker_load s = (if pool_settled s then 0 else pool_load s)"

lemma worker_step_inv: "pool_worker_inv s \<Longrightarrow> worker_step s s' \<Longrightarrow> pool_worker_inv s'"
proof -
  assume a: "pool_worker_inv s" and w: "worker_step s s'"
  have "work_queue s' = [] \<or> 0 < idle_workers s' + size (busy s')"
    using w a by cases (auto simp: pool_worker_inv_def pool_op_defs Let_def split: if_splits option.splits)
  with pool_inv_worker [OF w] a show ?thesis by (simp add: pool_worker_inv_def)
qed

lemma worker_step_load: "worker_step s s' \<Longrightarrow> pool_load s' < pool_load s"
proof (induction rule: worker_step.induct)
  case (worker_take s s' fn)
  then show ?case by (cases "work_queue s") (auto simp: work_round_def pool_load_def split: if_splits)
next
  case (worker_finish fn s)
  then obtain B where "busy s = add_mset fn B" by (meson multi_member_split)
  then show ?case by (simp add: release_if_def release_slot_def pool_load_def)
qed (auto simp: pool_op_defs pool_load_def Let_def min_def split: if_splits option.splits)

lemma worker_progress:
  assumes "pool_worker_inv s" "\<not> pool_settled s"
  shows "\<exists>s'. worker_step s s'"
proof -
  consider (work) "work_queue s \<noteq> []" "0 < idle_workers s" | (run) "busy s \<noteq> {#}" | (notify) "0 < notifications s"
    | (woken) "0 < reserve_woken s" | (leave) "work_queue s = []" "stop_requested s" "0 < idle_workers s"
    using assms unfolding pool_worker_inv_def pool_settled_def by fastforce
  then show ?thesis
  proof cases
    case work
    then have "work_round s = Some (s\<lparr>work_queue := tl (work_queue s)\<rparr>, Some (hd (work_queue s)))"
      by (simp add: work_round_def)
    from worker_take [OF work(2) this] show ?thesis ..
  next
    case run
    then obtain fn where "fn \<in># busy s" by (meson multiset_nonemptyE)
    from worker_finish [OF this] show ?thesis ..
  next
    case notify
    from worker_notify [OF this] show ?thesis ..
  next
    case woken
    from reserve_again [OF this] show ?thesis ..
  next
    case leave
    then have "work_round s = Some (s, None)" by (simp add: work_round_def)
    from worker_leave [OF leave(3) this] show ?thesis ..
  qed
qed

lemma worker_step_worker_load:
  assumes "worker_step s s'"
  shows "pool_worker_load s' < pool_worker_load s"
proof -
  have "\<not> pool_settled s"
    using assms by cases (auto simp: pool_settled_def work_round_def split: if_splits)
  then show ?thesis using worker_step_load [OF assms] by (simp add: pool_worker_load_def)
qed

interpretation workers: draining worker_step pool_worker_load pool_worker_inv
proof unfold_locales
  show "\<exists>s'. worker_step s s'" if "pool_worker_inv s" "0 < pool_worker_load s" for s :: "'a pool_system"
    using that worker_progress by (auto simp: pool_worker_load_def split: if_splits)
qed (simp_all add: worker_step_inv worker_step_worker_load)

lemma no_load_settled:
  assumes "pool_worker_inv s" "pool_worker_load s = 0"
  shows "pool_settled s"
proof (rule ccontr)
  assume "\<not> pool_settled s"
  with worker_progress [OF assms(1)] obtain s' where "worker_step s s'" by blast
  with worker_step_worker_load assms(2) show False by fastforce
qed

lemma stuck_settled:
  assumes "pool_worker_inv s" "worker_step\<^sup>*\<^sup>* s s'" "\<not> (\<exists>t. worker_step s' t)"
  shows "pool_settled s'" "pool_inv s'"
proof -
  have "pool_worker_inv s'" using workers.steps_inv [OF assms(2,1)] .
  with workers.stuck_drained [OF assms] show "pool_settled s'" "pool_inv s'"
    by (simp_all add: no_load_settled) (simp add: pool_worker_inv_def)
qed

lemma settled_idle:
  assumes "pool_inv s" "pool_settled s"
  shows "finished s = dispatched s" "active s = int (valid_slots (slots s))"
    "0 < reserve_asleep s \<Longrightarrow> capacity s \<le> int (valid_slots (slots s))"
    "0 < wait_all_asleep s \<Longrightarrow> 0 < valid_slots (slots s)"
  using assms by (auto simp: pool_inv_def pool_settled_def pool_books_def no_lost_wakeup_def)

lemma worker_steps_dispatched: "worker_step\<^sup>*\<^sup>* s s' \<Longrightarrow> dispatched s' = dispatched s"
proof (induction rule: rtranclp_induct)
  case (step t u)
  from step(2) have "dispatched u = dispatched t"
    by cases (auto simp: pool_op_defs Let_def split: if_splits option.splits)
  with step(3) show ?case by simp
qed simp

lemma reachable_worker_inv:
  assumes "pool_step\<^sup>*\<^sup>* (make_bounded_pool n) s" "\<not> stop_requested s" "0 < n"
  shows "pool_worker_inv s"
proof -
  have "capacity s = int n"
    using assms(1)
  proof (induction rule: rtranclp_induct)
    case (step t u)
    from step(2) have "capacity u = capacity t" unfolding pool_step_def
    proof
      assume "client_step t u" then show ?thesis
        by cases (auto simp: pool_op_defs Let_def split: if_splits option.splits)
    next
      assume "worker_step t u" then show ?thesis
        by cases (auto simp: pool_op_defs Let_def split: if_splits option.splits)
    qed
    with step(3) show ?case by simp
  qed (simp add: make_bounded_pool_def)
  moreover have "pool_inv s" using pool_reachable_inv [OF assms(1)] .
  ultimately show ?thesis using assms(2,3) by (auto simp: pool_worker_inv_def pool_inv_def)
qed

section \<open>Properties\<close>

text \<open>
  C21: the pool never runs more than its capacity, and loses neither a slot nor a job. In every state that
  clients and workers can reach, \<open>active_\<close> counts the valid slots of the clients, the queued and the
  running jobs, and is at most the capacity; every job dispatched with a valid slot is queued,
  running or finished, once.
\<close>

theorem bounded_pool_books:
  assumes "pool_step\<^sup>*\<^sup>* (make_bounded_pool n) s"
  shows "active s = int (valid_slots (slots s) + length (work_queue s) + size (busy s)) \<and> active s \<le> max 0 (capacity s) \<and>
    dispatched s = mset (work_queue s) + busy s + finished s"
  using pool_reachable_inv [OF assms] by (simp add: pool_inv_def pool_books_def)

lemma one_reserved: "pool_step\<^sup>*\<^sup>* (make_bounded_pool 1) (reserve_call (make_bounded_pool 1))"
  by (simp add: pool_step_def client_reserve r_into_rtranclp)

lemma one_dispatched:
  "pool_step\<^sup>*\<^sup>* (make_bounded_pool 1) (dispatch_call 0 fn (reserve_call (make_bounded_pool 1)))"
proof -
  have "0 < length (slots (reserve_call (make_bounded_pool 1 :: 'a pool_system)))"
    by (simp add: reserve_call_def reserve_def make_bounded_pool_def)
  then show ?thesis using client_dispatch one_reserved
    by (metis pool_step_def rtranclp.rtrancl_into_rtrancl)
qed

theorem bounded_pool_books_witness:
  "dispatched (dispatch_call 0 ''job'' (reserve_call (make_bounded_pool 1))) = {#''job''#} \<and>
   active (dispatch_call 0 ''job'' (reserve_call (make_bounded_pool 1))) = 1"
  using bounded_pool_books [OF one_dispatched, of "''job''"]
  by (simp add: dispatch_call_def dispatch_def reserve_call_def reserve_def make_bounded_pool_def)



text \<open>
  C34: a job that is dispatched after \<open>stop\<close> can be lost. \<open>dispatch\<close> does not look at the stop flag: with
  a slot reserved before, a job can be queued after the workers have left. It stays queued forever,
  and its slot stays active, whatever clients and workers do later.
\<close>

theorem dispatch_after_stop_lost:
  "\<exists>s :: 'f pool_system. pool_step\<^sup>*\<^sup>* (make_bounded_pool 1) s \<and> work_queue s = [fn] \<and>
     (\<forall>s'. pool_step\<^sup>*\<^sup>* s s' \<longrightarrow> fn \<in> set (work_queue s') \<and> 0 < active s')"
proof -
  define r :: "'f pool_system" where "r = reserve_call (make_bounded_pool 1)"
  define w where "w = wake_reservers (stop r)"
  define l where "l = w\<lparr>idle_workers := 0\<rparr>"
  define d where "d = dispatch_call 0 fn l"
  note defs = d_def l_def w_def r_def wake_reservers_def stop_def reserve_call_def reserve_def make_bounded_pool_def
    dispatch_call_def dispatch_def
  have r: "pool_step\<^sup>*\<^sup>* (make_bounded_pool 1) r" using one_reserved by (simp add: r_def)
  have "pool_step r w" using client_stop [of r] unfolding pool_step_def by (simp add: defs)
  moreover have "pool_step w l" using worker_leave [of w w] unfolding pool_step_def by (simp add: defs work_round_def)
  moreover have "pool_step l d" using client_dispatch [of 0 l fn] unfolding pool_step_def d_def by (simp add: defs)
  ultimately have reach: "pool_step\<^sup>*\<^sup>* (make_bounded_pool 1) d" using r by (meson rtranclp.rtrancl_into_rtrancl)
  have stays: "fn \<in> set (work_queue s') \<and> idle_workers s' = 0 \<and> busy s' = {#}" if "pool_step\<^sup>*\<^sup>* d s'" for s'
    using that
  proof (induction rule: rtranclp_induct)
    case base
    then show ?case by (simp add: defs)
  next
    case (step t u)
    from step(2) show ?case unfolding pool_step_def
    proof
      assume "client_step t u"
      then show ?thesis using step(3) by cases (auto simp: pool_op_defs split: if_splits option.splits)
    next
      assume "worker_step t u"
      then show ?thesis using step(3) by cases (auto simp: pool_op_defs Let_def split: if_splits option.splits)
    qed
  qed
  have "0 < active s'" if "pool_step\<^sup>*\<^sup>* d s'" for s'
  proof -
    have "active s' = int (valid_slots (slots s') + length (work_queue s') + size (busy s'))"
      using pool_reachable_inv [OF rtranclp_trans [OF reach that]] by (simp add: pool_inv_def pool_books_def)
    then show ?thesis using stays [OF that] by (cases "work_queue s'") auto
  qed
  with reach stays show ?thesis by (intro exI [of _ d]) (simp add: defs)
qed

theorem dispatch_after_stop_lost_witness:
  "\<exists>s :: string pool_system. pool_step\<^sup>*\<^sup>* (make_bounded_pool 1) s \<and> work_queue s = [''job''] \<and> 0 < active s"
  using dispatch_after_stop_lost [of "''job''"] by blast

end
