(* ===== verification/Dispatcher.thy ===== *)
theory Dispatcher
  imports Run_Laws
begin

text \<open>
  The static thread pool (\<^verbatim>\<open>include/exec/thread_pool.hpp\<close>) and the scoped dispatcher on top of it
  (\<^verbatim>\<open>include/exec/scoped_dispatcher.hpp\<close>). The dispatcher limits how many of its tasks are in flight in the
  shared pool; further tasks are kept pending, or their callers wait.

  The operations are one function per critical section. The system adds the threads around them: a
  task between the two critical sections of \<open>enqueue\<close> or \<open>on_task_done\<close> is \<open>handoff\<close> or \<open>returning\<close>, a
  task that a worker holds is \<open>picked\<close> and then \<open>running\<close>, and callers that wait are asleep or woken.
  The workers' own waiting is a guard: they go on as soon as the condition of their wait holds.
\<close>

section \<open>The static thread pool\<close>

record 'f static_pool =
  task_queue :: "'f list"
  pool_stop_requested :: bool

definition pool_schedule :: "'f \<Rightarrow> ('f, 'z) static_pool_scheme \<Rightarrow> ('f, 'z) static_pool_scheme" where
  "pool_schedule fn p = p\<lparr>task_queue := task_queue p @ [fn]\<rparr>"

definition pool_stop :: "('f, 'z) static_pool_scheme \<Rightarrow> ('f, 'z) static_pool_scheme" where
  "pool_stop p = p\<lparr>pool_stop_requested := True\<rparr>"

definition has_work_or_stopped :: "('f, 'z) static_pool_scheme \<Rightarrow> bool" where
  "has_work_or_stopped p \<longleftrightarrow> task_queue p \<noteq> [] \<or> pool_stop_requested p"

text \<open>One round of the worker loop: wait, leave the loop, or take the first task.\<close>

definition pool_round :: "('f, 'z) static_pool_scheme \<Rightarrow> (('f, 'z) static_pool_scheme \<times> 'f option) option" where
  "pool_round p =
     (if \<not> has_work_or_stopped p then None
      else if pool_stop_requested p then Some (p, None)
      else Some (p\<lparr>task_queue := tl (task_queue p)\<rparr>, Some (hd (task_queue p))))"

section \<open>The dispatcher\<close>

record 'f dispatcher = "'f static_pool" +
  max_inflight :: nat
  pending :: "'f list"
  inflight :: nat
  stopped :: bool

definition max_inflight_for :: "nat \<Rightarrow> nat \<Rightarrow> nat" where
  "max_inflight_for num_threads max_concurrent_task =
     (if max_concurrent_task = 0 then num_threads else min max_concurrent_task num_threads)"

text \<open>\<open>enqueue\<close> returns the task that the caller has to schedule after it has left the critical section.\<close>

definition enqueue :: "'f \<Rightarrow> ('f, 'z) dispatcher_scheme \<Rightarrow> ('f, 'z) dispatcher_scheme \<times> 'f option" where
  "enqueue task d =
     (if stopped d then (d, None)
      else if inflight d < max_inflight d then (d\<lparr>inflight := inflight d + 1\<rparr>, Some task)
      else (d\<lparr>pending := pending d @ [task]\<rparr>, None))"

text \<open>
  \<open>schedule\<close> waits on \<open>cv_slot_\<close> with the stop token; the condition is evaluated first. \<open>None\<close> means that
  the call sleeps, otherwise the boolean is its result.
\<close>

definition schedule :: "('f, 'z) dispatcher_scheme \<Rightarrow> (('f, 'z) dispatcher_scheme \<times> bool) option" where
  "schedule d =
     (if inflight d < max_inflight d then Some (d\<lparr>inflight := inflight d + 1\<rparr>, True)
      else if stopped d then Some (d, False)
      else None)"

definition request_stop :: "('f, 'z) dispatcher_scheme \<Rightarrow> ('f, 'z) dispatcher_scheme" where
  "request_stop d = d\<lparr>stopped := True, pending := []\<rparr>"

definition all_done :: "('f, 'z) dispatcher_scheme \<Rightarrow> bool" where
  "all_done d \<longleftrightarrow> inflight d = 0 \<and> pending d = []"

definition on_task_done :: "('f, 'z) dispatcher_scheme \<Rightarrow> ('f, 'z) dispatcher_scheme \<times> 'f option" where
  "on_task_done d =
     (if \<not> stopped d \<and> pending d \<noteq> [] then (d\<lparr>pending := tl (pending d)\<rparr>, Some (hd (pending d)))
      else (d\<lparr>inflight := inflight d - 1\<rparr>, None))"

section \<open>Callers and workers\<close>

record 'f dispatch_system = "'f dispatcher" +
  num_threads :: nat
  idle_workers :: nat
  handoff :: "'f multiset"
  picked :: "'f multiset"
  running :: "'f multiset"
  returning :: "'f multiset"
  slot_asleep :: "'f multiset"
  slot_woken :: "'f multiset"
  wait_asleep :: nat
  accepted :: "'f multiset"
  executed :: "'f multiset"
  dropped :: "'f multiset"

definition make_dispatcher :: "nat \<Rightarrow> nat \<Rightarrow> 'f dispatch_system" where
  "make_dispatcher threads limit =
     \<lparr>task_queue = [], pool_stop_requested = False, max_inflight = max_inflight_for threads limit, pending = [],
      inflight = 0, stopped = False, num_threads = threads, idle_workers = threads, handoff = {#}, picked = {#},
      running = {#}, returning = {#}, slot_asleep = {#}, slot_woken = {#}, wait_asleep = 0, accepted = {#},
      executed = {#}, dropped = {#}\<rparr>"

definition enqueue_call :: "'f \<Rightarrow> 'f dispatch_system \<Rightarrow> 'f dispatch_system" where
  "enqueue_call f s =
     (let (s', now) = enqueue f s in
      s'\<lparr>handoff := (case now of None \<Rightarrow> handoff s | Some g \<Rightarrow> add_mset g (handoff s)),
         accepted := (if stopped s then accepted s else add_mset f (accepted s))\<rparr>)"

definition schedule_call :: "'f \<Rightarrow> 'f dispatch_system \<Rightarrow> 'f dispatch_system" where
  "schedule_call f s =
     (case schedule s of
        None \<Rightarrow> s\<lparr>slot_asleep := add_mset f (slot_asleep s)\<rparr>
      | Some (s', ok) \<Rightarrow>
          if ok then s'\<lparr>handoff := add_mset f (handoff s), accepted := add_mset f (accepted s)\<rparr> else s')"

definition request_stop_call :: "'f dispatch_system \<Rightarrow> 'f dispatch_system" where
  "request_stop_call s =
     (request_stop s)\<lparr>dropped := dropped s + mset (pending s), slot_woken := slot_woken s + slot_asleep s,
        slot_asleep := {#}, wait_asleep := (if inflight s = 0 then 0 else wait_asleep s)\<rparr>"

definition wait_for_all_call :: "'f dispatch_system \<Rightarrow> 'f dispatch_system" where
  "wait_for_all_call s = (if all_done s then s else s\<lparr>wait_asleep := wait_asleep s + 1\<rparr>)"

text \<open>The wrapped task: the body is skipped once the dispatcher is stopped.\<close>

definition start_task :: "'f \<Rightarrow> 'f dispatch_system \<Rightarrow> 'f dispatch_system" where
  "start_task f s =
     s\<lparr>picked := picked s - {#f#}, running := add_mset f (running s),
       executed := (if stopped s then executed s else add_mset f (executed s)),
       dropped := (if stopped s then add_mset f (dropped s) else dropped s)\<rparr>"

text \<open>The end of a task. \<open>W\<close> is the sleeping caller, if any, that \<open>notify_one\<close> wakes.\<close>

definition finish_task :: "'f \<Rightarrow> 'f multiset \<Rightarrow> 'f dispatch_system \<Rightarrow> 'f dispatch_system" where
  "finish_task f W s =
     (case on_task_done s of
        (s', Some g) \<Rightarrow> s'\<lparr>running := running s - {#f#}, returning := add_mset g (returning s)\<rparr>
      | (s', None) \<Rightarrow> s'\<lparr>running := running s - {#f#}, idle_workers := idle_workers s + 1,
          slot_asleep := slot_asleep s - W, slot_woken := slot_woken s + W,
          wait_asleep := (if all_done s' then 0 else wait_asleep s)\<rparr>)"

inductive caller_step :: "'f dispatch_system \<Rightarrow> 'f dispatch_system \<Rightarrow> bool" where
  call_enqueue: "caller_step s (enqueue_call f s)"
| call_schedule: "caller_step s (schedule_call f s)"
| call_request_stop: "caller_step s (request_stop_call s)"
| call_wait_for_all: "caller_step s (wait_for_all_call s)"
| call_pool_stop: "caller_step s (pool_stop s)"

inductive task_step :: "'f dispatch_system \<Rightarrow> 'f dispatch_system \<Rightarrow> bool" where
  task_handoff: "f \<in># handoff s \<Longrightarrow> task_step s ((pool_schedule f s)\<lparr>handoff := handoff s - {#f#}\<rparr>)"
| task_return: "f \<in># returning s \<Longrightarrow>
     task_step s ((pool_schedule f s)\<lparr>returning := returning s - {#f#}, idle_workers := idle_workers s + 1\<rparr>)"
| task_pick: "0 < idle_workers s \<Longrightarrow> pool_round s = Some (s', Some f) \<Longrightarrow>
     task_step s (s'\<lparr>picked := add_mset f (picked s), idle_workers := idle_workers s - 1\<rparr>)"
| worker_exit: "0 < idle_workers s \<Longrightarrow> pool_round s = Some (s', None) \<Longrightarrow>
     task_step s (s'\<lparr>idle_workers := idle_workers s - 1\<rparr>)"
| task_start: "f \<in># picked s \<Longrightarrow> task_step s (start_task f s)"
| task_finish: "f \<in># running s \<Longrightarrow> W \<subseteq># slot_asleep s \<Longrightarrow> size W = min 1 (size (slot_asleep s)) \<Longrightarrow>
     task_step s (finish_task f W s)"
| schedule_again: "f \<in># slot_woken s \<Longrightarrow>
     task_step s (schedule_call f (s\<lparr>slot_woken := slot_woken s - {#f#}\<rparr>))"

definition dispatch_step :: "'f dispatch_system \<Rightarrow> 'f dispatch_system \<Rightarrow> bool" where
  "dispatch_step s s' \<longleftrightarrow> caller_step s s' \<or> task_step s s'"

section \<open>The invariant\<close>

definition inflight_books :: "'f dispatch_system \<Rightarrow> bool" where
  "inflight_books s \<longleftrightarrow>
     inflight s = size (handoff s) + length (task_queue s) + size (picked s) + size (running s) + size (returning s) \<and>
     inflight s \<le> max_inflight s \<and> (pending s \<noteq> [] \<longrightarrow> inflight s = max_inflight s \<and> \<not> stopped s)"

definition task_books :: "'f dispatch_system \<Rightarrow> bool" where
  "task_books s \<longleftrightarrow>
     accepted s = mset (pending s) + handoff s + mset (task_queue s) + picked s + returning s + executed s + dropped s \<and>
     (dropped s \<noteq> {#} \<longrightarrow> stopped s)"

definition waiters_ok :: "'f dispatch_system \<Rightarrow> bool" where
  "waiters_ok s \<longleftrightarrow>
     (slot_asleep s \<noteq> {#} \<longrightarrow> \<not> stopped s \<and> max_inflight s \<le> inflight s + size (slot_woken s)) \<and>
     (0 < wait_asleep s \<longrightarrow> \<not> all_done s)"

definition workers_ok :: "'f dispatch_system \<Rightarrow> bool" where
  "workers_ok s \<longleftrightarrow> max_inflight s \<le> num_threads s \<and>
     (\<not> pool_stop_requested s \<longrightarrow>
        idle_workers s + size (picked s) + size (running s) + size (returning s) = num_threads s)"

definition dispatch_inv :: "'f dispatch_system \<Rightarrow> bool" where
  "dispatch_inv s \<longleftrightarrow> inflight_books s \<and> task_books s \<and> waiters_ok s \<and> workers_ok s"

lemmas dispatch_inv_defs = dispatch_inv_def inflight_books_def task_books_def waiters_ok_def workers_ok_def all_done_def

lemma dispatch_inv_start: "dispatch_inv (make_dispatcher threads limit)"
  by (simp add: dispatch_inv_defs make_dispatcher_def max_inflight_for_def)

lemma dispatch_inv_schedule_call: "dispatch_inv s \<Longrightarrow> dispatch_inv (schedule_call f s)"
  by (auto simp: schedule_call_def schedule_def dispatch_inv_defs)

lemma dispatch_inv_caller: "caller_step s s' \<Longrightarrow> dispatch_inv s \<Longrightarrow> dispatch_inv s'"
proof (induction rule: caller_step.induct)
  case (call_enqueue s f)
  then show ?case by (auto simp: enqueue_call_def enqueue_def dispatch_inv_defs)
next
  case (call_schedule s f)
  then show ?case by (simp add: dispatch_inv_schedule_call)
next
  case (call_request_stop s)
  then show ?case by (auto simp: request_stop_call_def request_stop_def dispatch_inv_defs)
next
  case (call_wait_for_all s)
  then show ?case by (auto simp: wait_for_all_call_def dispatch_inv_defs)
next
  case (call_pool_stop s)
  then show ?case by (auto simp: pool_stop_def dispatch_inv_defs)
qed

lemma dispatch_inv_finish:
  assumes "dispatch_inv s" "f \<in># running s" "W \<subseteq># slot_asleep s" "size W = min 1 (size (slot_asleep s))"
  shows "dispatch_inv (finish_task f W s)"
proof -
  obtain R where R: "running s = add_mset f R" using assms(2) by (meson multi_member_split)
  show ?thesis
  proof (cases "\<not> stopped s \<and> pending s \<noteq> []")
    case True
    then obtain g gs where "pending s = g # gs" by (cases "pending s") auto
    with True R assms(1) show ?thesis by (auto simp: finish_task_def on_task_done_def dispatch_inv_defs)
  next
    case False
    then have p: "pending s = []" using assms(1) by (auto simp: dispatch_inv_defs)
    have w: "size W = 1" if "slot_asleep s - W \<noteq> {#}"
      using that assms(3,4) by (auto simp: min_def split: if_splits) (metis Suc_leI diff_empty nonempty_has_size)
    show ?thesis
      using p R assms(1) w by (auto simp: finish_task_def on_task_done_def dispatch_inv_defs)
  qed
qed

lemma dispatch_inv_task: "task_step s s' \<Longrightarrow> dispatch_inv s \<Longrightarrow> dispatch_inv s'"
proof (induction rule: task_step.induct)
  case (task_handoff f s)
  then obtain R where "handoff s = add_mset f R" by (meson multi_member_split)
  with task_handoff show ?case by (auto simp: pool_schedule_def dispatch_inv_defs)
next
  case (task_return f s)
  then obtain R where "returning s = add_mset f R" by (meson multi_member_split)
  with task_return show ?case by (auto simp: pool_schedule_def dispatch_inv_defs)
next
  case (task_pick s s' f)
  then show ?case
    by (cases "task_queue s") (auto simp: pool_round_def has_work_or_stopped_def dispatch_inv_defs split: if_splits)
next
  case (worker_exit s s')
  then show ?case by (auto simp: pool_round_def has_work_or_stopped_def dispatch_inv_defs split: if_splits)
next
  case (task_start f s)
  then obtain R where "picked s = add_mset f R" by (meson multi_member_split)
  with task_start show ?case by (auto simp: start_task_def dispatch_inv_defs)
next
  case (task_finish f s W)
  then show ?case by (simp add: dispatch_inv_finish)
next
  case (schedule_again f s)
  then obtain R where "slot_woken s = add_mset f R" by (meson multi_member_split)
  with schedule_again show ?case by (auto simp: schedule_call_def schedule_def dispatch_inv_defs)
qed

lemma dispatch_reachable_inv: "dispatch_step\<^sup>*\<^sup>* (make_dispatcher threads limit) s \<Longrightarrow> dispatch_inv s"
  by (induction rule: rtranclp_induct)
    (auto simp: dispatch_step_def dispatch_inv_start intro: dispatch_inv_caller dispatch_inv_task)

section \<open>Draining\<close>

definition dispatch_load :: "'f dispatch_system \<Rightarrow> nat" where
  "dispatch_load s = 7 * length (pending s) + 6 * size (handoff s) + 6 * size (returning s) + 5 * length (task_queue s) +
     4 * size (picked s) + 3 * size (running s) + 7 * size (slot_asleep s) + 8 * size (slot_woken s)"

definition dispatch_live :: "'f dispatch_system \<Rightarrow> bool" where
  "dispatch_live s \<longleftrightarrow> dispatch_inv s \<and> \<not> pool_stop_requested s \<and> 0 < max_inflight s"

lemma task_step_live: "dispatch_live s \<Longrightarrow> task_step s s' \<Longrightarrow> dispatch_live s'"
proof -
  assume a: "dispatch_live s" and t: "task_step s s'"
  have "max_inflight s' = max_inflight s \<and> pool_stop_requested s' = pool_stop_requested s"
    using t by cases (auto simp: pool_schedule_def pool_round_def start_task_def finish_task_def on_task_done_def
      schedule_call_def schedule_def split: if_splits)
  with dispatch_inv_task [OF t] a show ?thesis by (simp add: dispatch_live_def)
qed

lemma finish_task_load:
  assumes "f \<in># running s" "W \<subseteq># slot_asleep s" "size W = min 1 (size (slot_asleep s))"
  shows "dispatch_load (finish_task f W s) < dispatch_load s"
proof -
  obtain R where "running s = add_mset f R" using assms(1) by (meson multi_member_split)
  moreover obtain A where "slot_asleep s = W + A" using assms(2) by (meson mset_subset_eq_exists_conv)
  moreover have "size W \<le> 1" using assms(3) by simp
  ultimately show ?thesis
    by (cases "pending s") (auto simp: finish_task_def on_task_done_def dispatch_load_def)
qed

lemma task_step_load: "dispatch_live s \<Longrightarrow> task_step s s' \<Longrightarrow> dispatch_load s' < dispatch_load s"
proof -
  assume a: "dispatch_live s" and t: "task_step s s'"
  from t a show ?thesis
  proof (induction rule: task_step.induct)
    case (task_handoff f s)
    then obtain R where "handoff s = add_mset f R" by (meson multi_member_split)
    then show ?case by (simp add: pool_schedule_def dispatch_load_def)
  next
    case (task_return f s)
    then obtain R where "returning s = add_mset f R" by (meson multi_member_split)
    then show ?case by (simp add: pool_schedule_def dispatch_load_def)
  next
    case (task_pick s s' f)
    then show ?case
      by (cases "task_queue s") (auto simp: pool_round_def has_work_or_stopped_def dispatch_load_def split: if_splits)
  next
    case (worker_exit s s')
    then show ?case by (auto simp: pool_round_def dispatch_live_def split: if_splits)
  next
    case (task_start f s)
    then obtain R where "picked s = add_mset f R" by (meson multi_member_split)
    then show ?case by (simp add: start_task_def dispatch_load_def)
  next
    case (task_finish f s W)
    then show ?case by (simp add: finish_task_load)
  next
    case (schedule_again f s)
    then obtain R where "slot_woken s = add_mset f R" by (meson multi_member_split)
    then show ?case by (auto simp: schedule_call_def schedule_def dispatch_load_def)
  qed
qed

text \<open>As long as anything is left, some thread can go on: nothing waits for a caller.\<close>

lemma live_work_left:
  assumes "dispatch_live s" "0 < dispatch_load s"
  shows "handoff s \<noteq> {#} \<or> returning s \<noteq> {#} \<or> picked s \<noteq> {#} \<or> running s \<noteq> {#} \<or> slot_woken s \<noteq> {#} \<or>
    task_queue s \<noteq> [] \<and> 0 < idle_workers s"
proof (rule ccontr)
  assume n: "\<not> ?thesis"
  then have "idle_workers s = num_threads s" using assms(1) by (auto simp: dispatch_live_def dispatch_inv_defs)
  moreover have "0 < num_threads s" using assms(1) by (auto simp: dispatch_live_def dispatch_inv_defs)
  ultimately have q: "task_queue s = []" using n by auto
  then have "inflight s = 0" using n assms(1) by (auto simp: dispatch_live_def dispatch_inv_defs)
  then have "pending s = []" "slot_asleep s = {#}" using n assms(1) by (auto simp: dispatch_live_def dispatch_inv_defs)
  with n q assms(2) show False by (simp add: dispatch_load_def)
qed

lemma task_progress:
  assumes "dispatch_live s" "0 < dispatch_load s"
  shows "\<exists>s'. task_step s s'"
proof -
  consider f where "f \<in># handoff s" | f where "f \<in># returning s" | f where "f \<in># picked s" | f where "f \<in># running s"
    | f where "f \<in># slot_woken s" | "task_queue s \<noteq> []" "0 < idle_workers s"
    using live_work_left [OF assms] by (metis multiset_nonemptyE)
  then show ?thesis
  proof cases
    case (4 f)
    obtain W where "W \<subseteq># slot_asleep s" "size W = min 1 (size (slot_asleep s))"
    proof (cases "slot_asleep s")
      case empty
      with that [of "{#}"] show ?thesis by simp
    next
      case (add x A)
      with that [of "{#x#}"] show ?thesis by simp
    qed
    from task_finish [OF 4 this] show ?thesis ..
  next
    case 6
    then have "pool_round s = Some (s\<lparr>task_queue := tl (task_queue s)\<rparr>, Some (hd (task_queue s)))"
      using assms(1) by (simp add: pool_round_def has_work_or_stopped_def dispatch_live_def)
    from task_pick [OF 6(2) this] show ?thesis ..
  qed (auto intro: task_handoff task_return task_start schedule_again)
qed

interpretation tasks: draining task_step dispatch_load dispatch_live
  by unfold_locales (simp_all add: task_step_live task_step_load task_progress)

lemma drained_done:
  assumes "dispatch_live s" "dispatch_load s = 0"
  shows "all_done s" "slot_asleep s = {#}" "slot_woken s = {#}" "wait_asleep s = 0" "accepted s = executed s + dropped s"
    "\<not> stopped s \<Longrightarrow> dropped s = {#}"
  using assms by (auto simp: dispatch_load_def dispatch_live_def dispatch_inv_defs)

lemma make_dispatcher_keeps:
  assumes "dispatch_step\<^sup>*\<^sup>* (make_dispatcher threads limit) s"
  shows "max_inflight s = max_inflight_for threads limit"
  using assms
proof (induction rule: rtranclp_induct)
  case (step t u)
  from step(2) have "max_inflight u = max_inflight t" unfolding dispatch_step_def
  proof
    assume "caller_step t u" then show ?thesis
      by cases (auto simp: enqueue_call_def enqueue_def schedule_call_def schedule_def request_stop_call_def request_stop_def
        wait_for_all_call_def pool_stop_def split: if_splits)
  next
    assume "task_step t u" then show ?thesis
      by cases (auto simp: pool_schedule_def pool_round_def start_task_def finish_task_def on_task_done_def
        schedule_call_def schedule_def split: if_splits)
  qed
  with step(3) show ?case by simp
qed (simp add: make_dispatcher_def)

section \<open>Properties\<close>

text \<open>
  C25: the dispatcher keeps its limit and accounts for every task. In every state that callers and
  workers can reach, the tasks in flight are exactly those on their way to the pool, queued there or
  held by a worker, and are at most \<open>max_inflight_\<close>; tasks are pending only when that limit is reached;
  every accepted task is waiting, was executed once, or was dropped because of a stop.
\<close>

theorem dispatcher_books:
  assumes "dispatch_step\<^sup>*\<^sup>* (make_dispatcher threads limit) s"
  shows "inflight s = size (handoff s) + length (task_queue s) + size (picked s) + size (running s) + size (returning s) \<and>
    inflight s \<le> max_inflight_for threads limit \<and>
    (pending s \<noteq> [] \<longrightarrow> inflight s = max_inflight_for threads limit) \<and>
    accepted s = mset (pending s) + handoff s + mset (task_queue s) + picked s + returning s + executed s + dropped s \<and>
    (dropped s \<noteq> {#} \<longrightarrow> stopped s)"
  using dispatch_reachable_inv [OF assms] make_dispatcher_keeps [OF assms]
  unfolding dispatch_inv_def inflight_books_def task_books_def by (elim conjE, intro conjI) auto

lemma one_enqueued: "dispatch_step\<^sup>*\<^sup>* (make_dispatcher 2 1) (enqueue_call f (make_dispatcher 2 1))"
  by (simp add: dispatch_step_def call_enqueue r_into_rtranclp)

theorem dispatcher_books_witness:
  "inflight (enqueue_call ''task'' (make_dispatcher 2 1)) = 1 \<and>
   accepted (enqueue_call ''task'' (make_dispatcher 2 1)) = {#''task''#}"
  using dispatcher_books [OF one_enqueued, of "''task''"]
  by (simp add: enqueue_call_def enqueue_def make_dispatcher_def max_inflight_for_def)

text \<open>
  C4: a dispatcher on a running pool with at least one thread always drains. From every reachable state
  the workers and the woken callers can make only finitely many steps. When they can make no more, all
  tasks are done, so \<open>wait_for_all\<close> has returned to every caller, no caller is left waiting in
  \<open>schedule\<close>, and unless a stop was requested every accepted task was executed exactly once.
\<close>

theorem dispatcher_drains:
  assumes "dispatch_step\<^sup>*\<^sup>* (make_dispatcher threads limit) s" and "0 < threads" and "\<not> pool_stop_requested s"
  shows "(\<forall>k s'. (task_step ^^ k) s s' \<longrightarrow> k \<le> dispatch_load s) \<and>
    (\<forall>s'. task_step\<^sup>*\<^sup>* s s' \<and> \<not> (\<exists>t. task_step s' t) \<longrightarrow>
      all_done s' \<and> wait_asleep s' = 0 \<and> slot_asleep s' = {#} \<and> slot_woken s' = {#} \<and>
      accepted s' = executed s' + dropped s' \<and> (\<not> stopped s' \<longrightarrow> accepted s' = executed s'))"
proof (intro conjI allI impI)
  have live: "dispatch_live s"
    using dispatch_reachable_inv [OF assms(1)] make_dispatcher_keeps [OF assms(1)] assms(2,3)
    by (simp add: dispatch_live_def max_inflight_for_def)
  show "k \<le> dispatch_load s" if "(task_step ^^ k) s s'" for k s'
    using tasks.run_bounded [OF that live] by simp
  fix s'
  assume "task_step\<^sup>*\<^sup>* s s' \<and> \<not> (\<exists>t. task_step s' t)"
  then have st: "task_step\<^sup>*\<^sup>* s s'" "\<not> (\<exists>t. task_step s' t)" by auto
  note d = drained_done [OF tasks.steps_inv [OF st(1) live] tasks.stuck_drained [OF live st]]
  show "all_done s'" "wait_asleep s' = 0" "slot_asleep s' = {#}" "slot_woken s' = {#}" "accepted s' = executed s' + dropped s'"
    using d by simp_all
  show "accepted s' = executed s'" if "\<not> stopped s'" using d(5,6) that by simp
qed

theorem dispatcher_drains_witness:
  "\<exists>s'. task_step\<^sup>*\<^sup>* (enqueue_call ''task'' (make_dispatcher 2 1)) s' \<and> all_done s' \<and> accepted s' = executed s' + dropped s'"
proof -
  let ?s = "enqueue_call ''task'' (make_dispatcher 2 1)"
  have n: "\<not> pool_stop_requested ?s"
    by (simp add: enqueue_call_def enqueue_def make_dispatcher_def max_inflight_for_def)
  then have "dispatch_live ?s"
    using dispatch_reachable_inv [OF one_enqueued] make_dispatcher_keeps [OF one_enqueued, of "''task''"]
    by (simp add: dispatch_live_def max_inflight_for_def)
  then obtain s' where "task_step\<^sup>*\<^sup>* ?s s' \<and> \<not> (\<exists>t. task_step s' t)" using tasks.drains_stuck by blast
  with dispatcher_drains [OF one_enqueued _ n] show ?thesis by auto
qed

text \<open>
  C35: \<open>schedule\<close> can report success after a stop. If the stop was requested before the call and fewer
  than the limit are in flight, it returns true and the task occupies the pool, but its body is never
  executed, whatever happens later.
\<close>

theorem schedule_after_stop_succeeds:
  assumes "stopped s" and "inflight s < max_inflight s"
  shows "(\<exists>s'. schedule s = Some (s', True)) \<and> f \<in># accepted (schedule_call f s) \<and>
    (\<forall>s'. dispatch_step\<^sup>*\<^sup>* (schedule_call f s) s' \<longrightarrow> executed s' = executed s)"
proof (intro conjI allI impI)
  show "\<exists>s'. schedule s = Some (s', True)" "f \<in># accepted (schedule_call f s)"
    using assms by (simp_all add: schedule_call_def schedule_def)
  fix s'
  assume "dispatch_step\<^sup>*\<^sup>* (schedule_call f s) s'"
  then have "executed s' = executed s \<and> stopped s'"
  proof (induction rule: rtranclp_induct)
    case base
    show ?case using assms by (simp add: schedule_call_def schedule_def)
  next
    case (step t u)
    from step(2) show ?case unfolding dispatch_step_def
    proof
      assume "caller_step t u" then show ?thesis
        using step(3) by cases (auto simp: enqueue_call_def enqueue_def schedule_call_def schedule_def
          request_stop_call_def request_stop_def wait_for_all_call_def pool_stop_def split: if_splits)
    next
      assume "task_step t u" then show ?thesis
        using step(3) by cases (auto simp: pool_schedule_def pool_round_def start_task_def finish_task_def
          on_task_done_def schedule_call_def schedule_def split: if_splits)
    qed
  qed
  then show "executed s' = executed s" by simp
qed

theorem schedule_after_stop_succeeds_witness:
  "\<exists>s'. schedule (request_stop_call (make_dispatcher 1 1 :: string dispatch_system)) = Some (s', True)"
proof -
  have "stopped (request_stop_call (make_dispatcher 1 1 :: string dispatch_system))"
    "inflight (request_stop_call (make_dispatcher 1 1 :: string dispatch_system)) <
      max_inflight (request_stop_call (make_dispatcher 1 1 :: string dispatch_system))"
    by (simp_all add: request_stop_call_def request_stop_def make_dispatcher_def max_inflight_for_def)
  from schedule_after_stop_succeeds [OF this] show ?thesis by (rule conjunct1)
qed

end
