(* ===== verification/Task_Queue.thy ===== *)
theory Task_Queue
  imports Run_Laws
begin

text \<open>
  The queues between the threads of the engine: the inspectable queue
  (\<^verbatim>\<open>include/exec/inspectable_mpsc.hpp\<close>), the interruptible queue and the channel on top of it
  (\<^verbatim>\<open>include/exec/interruptible_mpmc.hpp\<close>, \<^verbatim>\<open>include/exec/channel.hpp\<close>), and the completion handler of a query
  (\<^verbatim>\<open>include/pipeline/completion_handler.hpp\<close>). Each operation is one critical section or atomic access.

  The interruptible queue wraps a concurrent queue of a library; its operations are parameters.
\<close>

section \<open>The inspectable queue\<close>

record 'a mpsc =
  items :: "'a list"
  open_flag :: bool

definition make_mpsc :: "'a mpsc" where
  "make_mpsc = \<lparr>items = [], open_flag = True\<rparr>"

definition push :: "'a \<Rightarrow> 'a mpsc \<Rightarrow> 'a mpsc \<times> bool" where
  "push x q = (if \<not> open_flag q then (q, False) else (q\<lparr>items := items q @ [x]\<rparr>, True))"

definition emplace :: "('b \<Rightarrow> 'a) \<Rightarrow> 'b \<Rightarrow> 'a mpsc \<Rightarrow> 'a mpsc \<times> bool" where
  "emplace construct args q = (if \<not> open_flag q then (q, False) else (q\<lparr>items := items q @ [construct args]\<rparr>, True))"

definition try_pop :: "'a mpsc \<Rightarrow> 'a mpsc \<times> 'a option" where
  "try_pop q = (case items q of [] \<Rightarrow> (q, None) | x # xs \<Rightarrow> (q\<lparr>items := xs\<rparr>, Some x))"

text \<open>The blocking \<open>pop\<close>; the outer \<open>None\<close> means that the call sleeps.\<close>

definition pop :: "'a mpsc \<Rightarrow> ('a mpsc \<times> 'a option) option" where
  "pop q = (if items q \<noteq> [] \<or> \<not> open_flag q then Some (try_pop q) else None)"

definition interrupt_queue :: "'a mpsc \<Rightarrow> 'a mpsc" where
  "interrupt_queue q = q\<lparr>open_flag := False\<rparr>"

definition reactivate :: "'a mpsc \<Rightarrow> 'a mpsc" where
  "reactivate q = q\<lparr>open_flag := True\<rparr>"

definition drain :: "'a mpsc \<Rightarrow> 'a mpsc" where
  "drain q = q\<lparr>items := []\<rparr>"

definition is_open :: "'a mpsc \<Rightarrow> bool" where
  "is_open q = open_flag q"

definition is_empty :: "'a mpsc \<Rightarrow> bool" where
  "is_empty q = (items q = [])"

definition queue_size :: "'a mpsc \<Rightarrow> nat" where
  "queue_size q = length (items q)"

text \<open>The loop of \<open>pop_if\<close> from the front: the first match, and the rest without it.\<close>

fun take_first :: "('a \<Rightarrow> bool) \<Rightarrow> 'a list \<Rightarrow> ('a \<times> 'a list) option" where
  "take_first P [] = None"
| "take_first P (x # xs) = (if P x then Some (x, xs) else map_option (map_prod id (Cons x)) (take_first P xs))"

definition pop_if :: "('a \<Rightarrow> bool) \<Rightarrow> bool \<Rightarrow> 'a mpsc \<Rightarrow> 'a mpsc \<times> 'a option" where
  "pop_if P front_to_back q =
     (if front_to_back then
        (case take_first P (items q) of None \<Rightarrow> (q, None) | Some (x, xs) \<Rightarrow> (q\<lparr>items := xs\<rparr>, Some x))
      else
        (case take_first P (rev (items q)) of None \<Rightarrow> (q, None) | Some (x, xs) \<Rightarrow> (q\<lparr>items := rev xs\<rparr>, Some x)))"

text \<open>
  \<open>mutable_pop_if\<close> hands the predicate a mutable reference: \<open>f x\<close> is its answer and what it leaves in
  place of \<open>x\<close>. Elements that are looked at and not taken keep the change.
\<close>

fun take_first_mut :: "('a \<Rightarrow> bool \<times> 'a) \<Rightarrow> 'a list \<Rightarrow> 'a option \<times> 'a list" where
  "take_first_mut f [] = (None, [])"
| "take_first_mut f (x # xs) =
     (case f x of (True, y) \<Rightarrow> (Some y, xs) | (False, y) \<Rightarrow> map_prod id (Cons y) (take_first_mut f xs))"

definition mutable_pop_if :: "('a \<Rightarrow> bool \<times> 'a) \<Rightarrow> bool \<Rightarrow> 'a mpsc \<Rightarrow> 'a mpsc \<times> 'a option" where
  "mutable_pop_if f front_to_back q =
     (if front_to_back then let (r, xs) = take_first_mut f (items q) in (q\<lparr>items := xs\<rparr>, r)
      else let (r, xs) = take_first_mut f (rev (items q)) in (q\<lparr>items := rev xs\<rparr>, r))"

section \<open>The interruptible queue and the channel\<close>

text \<open>
  \<open>enq\<close> and \<open>deq\<close> are the operations of the library's queue; \<open>deq\<close> returns nothing if it finds no element
  before its timeout. \<open>channel_get\<close> is one round of the loop of \<open>pop\<close>: the outer \<open>None\<close> means that the
  loop goes round again.
\<close>

record 'q channel =
  chan_queue :: 'q
  chan_active :: bool

definition channel_send :: "('a \<Rightarrow> 'q \<Rightarrow> 'q) \<Rightarrow> 'a \<Rightarrow> 'q channel \<Rightarrow> 'q channel \<times> bool" where
  "channel_send enq x c = (if \<not> chan_active c then (c, False) else (c\<lparr>chan_queue := enq x (chan_queue c)\<rparr>, True))"

definition channel_get :: "('q \<Rightarrow> ('a \<times> 'q) option) \<Rightarrow> 'q channel \<Rightarrow> ('q channel \<times> 'a option) option" where
  "channel_get deq c =
     (if \<not> chan_active c then Some (c, None)
      else map_option (\<lambda>(x, q). (c\<lparr>chan_queue := q\<rparr>, Some x)) (deq (chan_queue c)))"

definition channel_try_get :: "('q \<Rightarrow> ('a \<times> 'q) option) \<Rightarrow> 'q channel \<Rightarrow> 'q channel \<times> 'a option" where
  "channel_try_get deq c =
     (case deq (chan_queue c) of None \<Rightarrow> (c, None) | Some (x, q) \<Rightarrow> (c\<lparr>chan_queue := q\<rparr>, Some x))"

definition channel_close :: "'q channel \<Rightarrow> 'q channel" where
  "channel_close c = c\<lparr>chan_active := False\<rparr>"

section \<open>The completion handler\<close>

datatype 'e outcome = Completed | Failed 'e

record 'e completion_handler =
  completed :: bool
  has_error :: bool
  promise :: "'e outcome option"

definition make_completion_handler :: "'e completion_handler" where
  "make_completion_handler = \<lparr>completed = False, has_error = False, promise = None\<rparr>"

definition report_error :: "'e \<Rightarrow> 'e completion_handler \<Rightarrow> 'e completion_handler" where
  "report_error e h =
     (if completed h then h else h\<lparr>completed := True, has_error := True, promise := Some (Failed e)\<rparr>)"

definition mark_completed :: "'e completion_handler \<Rightarrow> 'e completion_handler" where
  "mark_completed h = (if completed h then h else h\<lparr>completed := True, promise := Some Completed\<rparr>)"

fun report :: "'e outcome \<Rightarrow> 'e completion_handler \<Rightarrow> 'e completion_handler" where
  "report Completed h = mark_completed h"
| "report (Failed e) h = report_error e h"

section \<open>Picking from a queue\<close>

text \<open>What a scheduler needs of a queue of waiting tasks, and what it can do with it.\<close>

locale picking_queue =
  fixes put :: "'a \<Rightarrow> 'q \<Rightarrow> 'q"
    and pick :: "('a \<Rightarrow> bool) \<Rightarrow> 'q \<Rightarrow> 'q \<times> 'a option"
    and waiting :: "'q \<Rightarrow> 'a list"
    and accepting :: "'q \<Rightarrow> bool"
  assumes put_waiting: "accepting q \<Longrightarrow> waiting (put x q) = waiting q @ [x]"
    and put_closed: "\<not> accepting q \<Longrightarrow> put x q = q"
    and put_accepting: "accepting (put x q) = accepting q"
    and pick_none: "pick P q = (q', None) \<Longrightarrow> q' = q \<and> (\<forall>x \<in> set (waiting q). \<not> P x)"
    and pick_some: "pick P q = (q', Some x) \<Longrightarrow> accepting q' = accepting q \<and>
      (\<exists>ys zs. waiting q = ys @ x # zs \<and> waiting q' = ys @ zs \<and> P x \<and> (\<forall>y \<in> set ys. \<not> P y))"
begin

text \<open>Two predicates in order of preference.\<close>

definition pick_pref :: "('a \<Rightarrow> bool) \<Rightarrow> ('a \<Rightarrow> bool) \<Rightarrow> 'q \<Rightarrow> 'q \<times> 'a option" where
  "pick_pref P R q = (case pick P q of (q', Some x) \<Rightarrow> (q', Some x) | (q', None) \<Rightarrow> pick R q')"

lemma pick_pref_none:
  assumes "pick_pref P R q = (q', None)"
  shows "q' = q \<and> (\<forall>x \<in> set (waiting q). \<not> P x \<and> \<not> R x)"
proof -
  from assms obtain t where t: "pick P q = (t, None)" "pick R t = (q', None)"
    by (auto simp: pick_pref_def split: prod.splits option.splits)
  from pick_none [OF t(1)] pick_none [OF t(2)] show ?thesis by auto
qed

lemma pick_pref_some:
  assumes "pick_pref P R q = (q', Some x)"
  shows "accepting q' = accepting q"
    "\<exists>ys zs. waiting q = ys @ x # zs \<and> waiting q' = ys @ zs"
    "P x \<or> R x \<and> (\<forall>y \<in> set (waiting q). \<not> P y)"
proof -
  consider "pick P q = (q', Some x)" | "pick P q = (q, None)" "pick R q = (q', Some x)"
    using assms pick_none [of P q] by (auto simp: pick_pref_def split: prod.splits option.splits)
  then have "accepting q' = accepting q \<and> (\<exists>ys zs. waiting q = ys @ x # zs \<and> waiting q' = ys @ zs) \<and>
    (P x \<or> R x \<and> (\<forall>y \<in> set (waiting q). \<not> P y))"
  proof cases
    case 1
    from pick_some [OF 1] show ?thesis by auto
  next
    case 2
    from pick_some [OF 2(2)] pick_none [OF 2(1)] show ?thesis by auto
  qed
  then show "accepting q' = accepting q" "\<exists>ys zs. waiting q = ys @ x # zs \<and> waiting q' = ys @ zs"
    "P x \<or> R x \<and> (\<forall>y \<in> set (waiting q). \<not> P y)" by auto
qed

end

lemma take_first_none: "take_first P xs = None \<longleftrightarrow> (\<forall>x \<in> set xs. \<not> P x)"
  by (induction xs) auto

lemma take_first_some:
  "take_first P xs = Some (x, r) \<Longrightarrow> \<exists>ys zs. xs = ys @ x # zs \<and> r = ys @ zs \<and> P x \<and> (\<forall>y \<in> set ys. \<not> P y)"
proof (induction xs arbitrary: r)
  case (Cons a xs)
  show ?case
  proof (cases "P a")
    case True
    then show ?thesis using Cons.prems by (intro exI [of _ "[]"] exI [of _ xs]) simp
  next
    case False
    then obtain r' where "r = a # r'" "take_first P xs = Some (x, r')" using Cons.prems by auto
    with Cons.IH obtain ys zs where "xs = ys @ x # zs" "r' = ys @ zs" "P x" "\<forall>y \<in> set ys. \<not> P y" by blast
    with False \<open>r = a # r'\<close> show ?thesis by (intro exI [of _ "a # ys"] exI [of _ zs]) auto
  qed
qed simp

interpretation mq: picking_queue "\<lambda>x q. fst (push x q)" "\<lambda>P. pop_if P True" items open_flag
proof unfold_locales
  fix P :: "'a \<Rightarrow> bool" and q q' :: "'a mpsc" and x
  assume "pop_if P True q = (q', Some x)"
  then have "take_first P (items q) = Some (x, items q')" "open_flag q' = open_flag q"
    by (auto simp: pop_if_def split: option.splits)
  with take_first_some [OF this(1)] show "open_flag q' = open_flag q \<and>
      (\<exists>ys zs. items q = ys @ x # zs \<and> items q' = ys @ zs \<and> P x \<and> (\<forall>y \<in> set ys. \<not> P y))" by blast
qed (auto simp: push_def pop_if_def take_first_none split: option.splits)

section \<open>Properties\<close>

text \<open>
  C36: the queue is first in, first out, and inspecting it takes exactly one matching element. \<open>pop_if\<close>
  returns nothing only if nothing matches, and then changes nothing; otherwise it removes the match
  that is first in the direction of the search and leaves all other elements in their order.
\<close>

theorem pop_if_takes_first_match:
  "case pop_if P front q of
     (q', None) \<Rightarrow> q' = q \<and> (\<forall>x \<in> set (items q). \<not> P x)
   | (q', Some x) \<Rightarrow> P x \<and> open_flag q' = open_flag q \<and>
       (\<exists>ys zs. items q = ys @ x # zs \<and> items q' = ys @ zs \<and> (\<forall>y \<in> set (if front then ys else zs). \<not> P y))"
proof (cases front)
  case True
  show ?thesis
  proof (cases "take_first P (items q)")
    case None
    then show ?thesis using True take_first_none [of P "items q"] by (simp add: pop_if_def)
  next
    case (Some p)
    then obtain x r where "take_first P (items q) = Some (x, r)" by (cases p) simp
    with take_first_some [OF this] True show ?thesis by (auto simp: pop_if_def)
  qed
next
  case False
  show ?thesis
  proof (cases "take_first P (rev (items q))")
    case None
    then show ?thesis using False take_first_none [of P "rev (items q)"] by (simp add: pop_if_def)
  next
    case (Some p)
    then obtain x ys zs where "p = (x, ys @ zs)" "rev (items q) = ys @ x # zs" "P x" "\<forall>y \<in> set ys. \<not> P y"
      by (cases p) (auto dest: take_first_some)
    moreover then have "items q = rev zs @ x # rev ys" by (metis rev_append rev_rev_ident rev.simps(2) append.assoc append_Cons append_Nil)
    ultimately have "pop_if P front q = (q\<lparr>items := rev zs @ rev ys\<rparr>, Some x)" "P x" "\<forall>y \<in> set (rev ys). \<not> P y"
      "items q = rev zs @ x # rev ys"
      using False Some by (simp_all add: pop_if_def)
    then show ?thesis
      using False by simp (intro exI [of _ "rev zs"] exI [of _ "rev ys"], simp)
  qed
qed

theorem pop_if_takes_first_match_witness:
  "snd (pop_if (\<lambda>n. n > 2) False \<lparr>items = [1, 5, 2, 7, 0 :: nat], open_flag = True\<rparr>) = Some 7 \<and>
   items (fst (pop_if (\<lambda>n. n > 2) False \<lparr>items = [1, 5, 2, 7, 0 :: nat], open_flag = True\<rparr>)) = [1, 5, 2, 0]"
  using pop_if_takes_first_match [of "\<lparr>items = [1, 5, 2, 7, 0 :: nat], open_flag = True\<rparr>" "\<lambda>n. n > 2" False]
  by (simp add: pop_if_def)

text \<open>
  With a predicate that does not change the elements, \<open>mutable_pop_if\<close> is \<open>pop_if\<close>.
\<close>

lemma mutable_pop_if_pure: "mutable_pop_if (\<lambda>x. (P x, x)) front q = pop_if P front q"
proof -
  have "take_first_mut (\<lambda>x. (P x, x)) xs = (case take_first P xs of None \<Rightarrow> (None, xs) | Some (x, r) \<Rightarrow> (Some x, r))" for xs
    by (induction xs) (auto split: option.splits)
  then show ?thesis by (auto simp: mutable_pop_if_def pop_if_def split: option.splits)
qed

text \<open>
  The first report decides the outcome of a query. Whatever the threads report, and in whatever
  order, the promise holds the first report, and \<open>has_error\<close> says whether that is an error.
\<close>

lemma first_report_wins:
  "promise (fold report (r # rs) make_completion_handler) = Some r \<and>
   has_error (fold report (r # rs) make_completion_handler) = (r \<noteq> Completed) \<and>
   completed (fold report (r # rs) make_completion_handler)"
proof -
  have "fold report rs h = h" if "completed h" for h :: "'a completion_handler"
    using that
  proof (induction rs)
    case (Cons r rs)
    then show ?case by (cases r) (simp_all add: mark_completed_def report_error_def)
  qed simp
  then show ?thesis
    by (cases r) (simp_all add: make_completion_handler_def mark_completed_def report_error_def)
qed

end
