(* ===== verification/Scheduler.thy ===== *)
theory Scheduler
  imports Task_Queue
begin

text \<open>
  The task scheduler (\<^verbatim>\<open>pipeline/task_scheduler.cpp\<close>): tasks wait in an inspectable queue, the executors of the
  devices report through a channel that they have a free worker, and the management thread matches
  the two. The queue of the concurrency library behind the channel is a parameter; what the
  scheduler relies on is \<open>library_queue\<close>.
\<close>

section \<open>Tasks, requests and the scheduler's state\<close>

text \<open>The task classes that the scheduler tells apart, with the task id, and the preferred device of a GPU task.\<close>

datatype itask =
    Duckdb_scan_task nat
  | Parquet_scan_task nat
  | Cpu_source_task nat
  | Gpu_pipeline_task nat "int option"
  | Other_task nat

datatype task_request_kind = Device_ready | Task_available

record task_request =
  device_id :: int
  is_scan :: bool
  kind :: task_request_kind

text \<open>
  \<open>wakes_owed\<close> counts the callers of \<open>schedule\<close> between the push of the task and the wake-up message.
  The set of ready devices is an ascending list, the order in which \<open>std::set\<close> is traversed.
\<close>

record 'q scheduler =
  waiting_tasks :: "itask mpsc"
  request_channel :: "'q channel"
  ready_devices :: "int list"
  gpu_executors :: "int \<rightharpoonup> itask mpsc"
  scan_executor :: "itask mpsc"
  wakes_owed :: nat

definition make_scheduler :: "'q \<Rightarrow> int list \<Rightarrow> 'q scheduler" where
  "make_scheduler q devices =
     \<lparr>waiting_tasks = make_mpsc, request_channel = \<lparr>chan_queue = q, chan_active = True\<rparr>, ready_devices = [],
      gpu_executors = map_of (map (\<lambda>d. (d, make_mpsc)) devices), scan_executor = make_mpsc, wakes_owed = 0\<rparr>"

section \<open>Operations\<close>

fun is_scan_task :: "itask \<Rightarrow> bool" where
  "is_scan_task (Duckdb_scan_task i) = True"
| "is_scan_task (Parquet_scan_task i) = True"
| "is_scan_task (Cpu_source_task i) = True"
| "is_scan_task (Gpu_pipeline_task i p) = False"
| "is_scan_task (Other_task i) = False"

definition schedule_task :: "itask \<Rightarrow> 'q scheduler \<Rightarrow> 'q scheduler" where
  "schedule_task t s =
     (if is_scan_task t then s\<lparr>scan_executor := fst (push t (scan_executor s))\<rparr>
      else s\<lparr>waiting_tasks := fst (push t (waiting_tasks s)), wakes_owed := wakes_owed s + 1\<rparr>)"

definition send_wake :: "(task_request \<Rightarrow> 'q \<Rightarrow> 'q) \<Rightarrow> 'q scheduler \<Rightarrow> 'q scheduler" where
  "send_wake enq s =
     s\<lparr>request_channel := fst (channel_send enq \<lparr>device_id = 0, is_scan = False, kind = Task_available\<rparr> (request_channel s)),
       wakes_owed := wakes_owed s - 1\<rparr>"

text \<open>The message of an executor's manager loop once it has reserved a worker.\<close>

definition send_ready :: "(task_request \<Rightarrow> 'q \<Rightarrow> 'q) \<Rightarrow> int \<Rightarrow> 'q scheduler \<Rightarrow> 'q scheduler" where
  "send_ready enq d s =
     s\<lparr>request_channel := fst (channel_send enq \<lparr>device_id = d, is_scan = False, kind = Device_ready\<rparr> (request_channel s))\<rparr>"

definition stop_scheduler :: "'q scheduler \<Rightarrow> 'q scheduler" where
  "stop_scheduler s =
     s\<lparr>waiting_tasks := interrupt_queue (waiting_tasks s), request_channel := channel_close (request_channel s)\<rparr>"

fun set_insert :: "int \<Rightarrow> int list \<Rightarrow> int list" where
  "set_insert x [] = [x]"
| "set_insert x (y # ys) = (if x < y then x # y # ys else if x = y then y # ys else y # set_insert x ys)"

definition note_request :: "task_request \<Rightarrow> int list \<Rightarrow> int list" where
  "note_request r ds = (if kind r = Device_ready \<and> \<not> is_scan r then set_insert (device_id r) ds else ds)"

fun prefers :: "int \<Rightarrow> itask \<Rightarrow> bool" where
  "prefers d (Gpu_pipeline_task i (Some p)) = (p = d)"
| "prefers d t = False"

fun unbound :: "(int \<rightharpoonup> itask mpsc) \<Rightarrow> itask \<Rightarrow> bool" where
  "unbound exs (Gpu_pipeline_task i (Some p)) = (exs p = None)"
| "unbound exs t = True"

definition pick_for :: "(int \<rightharpoonup> itask mpsc) \<Rightarrow> int \<Rightarrow> itask mpsc \<Rightarrow> itask mpsc \<times> itask option" where
  "pick_for exs d q =
     (case pop_if (prefers d) True q of
        (q', Some t) \<Rightarrow> (q', Some t)
      | (q', None) \<Rightarrow> pop_if (unbound exs) True q')"

text \<open>The loop over the ready devices; it returns the devices that stay ready.\<close>

fun serve_devices :: "int list \<Rightarrow> itask mpsc \<Rightarrow> (int \<rightharpoonup> itask mpsc) \<Rightarrow> (int list \<times> itask mpsc \<times> (int \<rightharpoonup> itask mpsc)) result" where
  "serve_devices [] q exs = Inr ([], q, exs)"
| "serve_devices (d # ds) q exs =
     (case pick_for exs d q of
        (q', None) \<Rightarrow> bind_result (serve_devices ds q' exs) (\<lambda>(rem, r). Inr (d # rem, r))
      | (q', Some t) \<Rightarrow>
          (case exs d of
             None \<Rightarrow> Inl (Runtime_error ''map::at'')
           | Some e \<Rightarrow> serve_devices ds q' (exs(d \<mapsto> fst (push t e)))))"

text \<open>The messages that \<open>get\<close> and the \<open>try_get\<close> loop take out of the channel.\<close>

inductive takes :: "('q \<Rightarrow> ('a \<times> 'q) option) \<Rightarrow> 'q \<Rightarrow> 'a list \<Rightarrow> 'q \<Rightarrow> bool" for deq where
  takes_none: "takes deq q [] q"
| takes_one: "deq q = Some (x, q1) \<Longrightarrow> takes deq q1 xs q' \<Longrightarrow> takes deq q (x # xs) q'"

definition manage_round :: "task_request list \<Rightarrow> 'q \<Rightarrow> 'q scheduler \<Rightarrow> 'q scheduler result" where
  "manage_round requests q s =
     bind_result (serve_devices (fold note_request requests (ready_devices s)) (waiting_tasks s) (gpu_executors s))
       (\<lambda>(rem, tasks, exs).
          Inr (s\<lparr>waiting_tasks := tasks, request_channel := (request_channel s)\<lparr>chan_queue := q\<rparr>,
                 ready_devices := rem, gpu_executors := exs\<rparr>))"

inductive sched_step :: "(task_request \<Rightarrow> 'q \<Rightarrow> 'q) \<Rightarrow> ('q \<Rightarrow> (task_request \<times> 'q) option) \<Rightarrow> 'q scheduler \<Rightarrow> 'q scheduler \<Rightarrow> bool"
  for enq deq where
  step_schedule: "sched_step enq deq s (schedule_task t s)"
| step_wake: "0 < wakes_owed s \<Longrightarrow> sched_step enq deq s (send_wake enq s)"
| step_ready: "d \<in> dom (gpu_executors s) \<Longrightarrow> sched_step enq deq s (send_ready enq d s)"
| step_manage: "chan_active (request_channel s) \<Longrightarrow> takes deq (chan_queue (request_channel s)) (r # rs) q \<Longrightarrow>
     deq q = None \<Longrightarrow> manage_round (r # rs) q s = Inr s' \<Longrightarrow> sched_step enq deq s s'"
| step_execute: "gpu_executors s d = Some e \<Longrightarrow>
     sched_step enq deq s (s\<lparr>gpu_executors := (gpu_executors s)(d \<mapsto> fst (try_pop e))\<rparr>)"
| step_stop: "sched_step enq deq s (stop_scheduler s)"

section \<open>What one round does\<close>

lemma pick_for_pref: "pick_for exs d q = mq.pick_pref (prefers d) (unbound exs) q"
  by (simp add: pick_for_def mq.pick_pref_def)

lemma set_set_insert [simp]: "set (set_insert x ys) = insert x (set ys)"
  by (induction ys) auto

lemma note_requests_set:
  "set (fold note_request rs ds) = set ds \<union> {device_id r | r. r \<in> set rs \<and> kind r = Device_ready \<and> \<not> is_scan r}"
  by (induction rs arbitrary: ds) (auto simp: note_request_def)

lemma unbound_dom: "dom exs = dom exs' \<Longrightarrow> unbound exs t = unbound exs' t"
  by (cases "(exs, t)" rule: unbound.cases) (simp_all, metis domIff)

text \<open>The preference of a task is binding: it waits in the queue of a device only if it may run there.\<close>

definition bound_ok :: "(int \<rightharpoonup> itask mpsc) \<Rightarrow> bool" where
  "bound_ok exs \<longleftrightarrow> (\<forall>d e t. exs d = Some e \<longrightarrow> t \<in> set (items e) \<longrightarrow> prefers d t \<or> unbound exs t)"

lemma bound_ok_update:
  assumes "bound_ok exs" "exs d = Some e" "\<forall>t \<in> set (items e'). t \<in> set (items e) \<or> prefers d t \<or> unbound exs t"
  shows "bound_ok (exs(d \<mapsto> e'))"
proof -
  have "dom (exs(d \<mapsto> e')) = dom exs" using assms(2) by auto
  note u = unbound_dom [OF this]
  have "prefers x t \<or> unbound exs t" if "(exs(d \<mapsto> e')) x = Some y" "t \<in> set (items y)" for x y t
    using that assms by (cases "x = d") (auto simp: bound_ok_def)
  with u show ?thesis by (simp add: bound_ok_def)
qed

lemma serve_devices_ok:
  assumes "set ds \<subseteq> dom exs" and "bound_ok exs"
  shows "\<exists>rem q' exs'. serve_devices ds q exs = Inr (rem, q', exs') \<and> set rem \<subseteq> set ds \<and> dom exs' = dom exs \<and>
    bound_ok exs' \<and> open_flag q' = open_flag q \<and> set (items q') \<subseteq> set (items q) \<and>
    (\<forall>d \<in> set rem. \<forall>t \<in> set (items q'). \<not> prefers d t \<and> \<not> unbound exs t)"
  using assms
proof (induction ds arbitrary: q exs)
  case (Cons d ds)
  obtain q1 o1 where p: "pick_for exs d q = (q1, o1)" by (cases "pick_for exs d q")
  show ?case
  proof (cases o1)
    case None
    then have n: "q1 = q" "\<forall>t \<in> set (items q). \<not> prefers d t \<and> \<not> unbound exs t"
      using mq.pick_pref_none [of "prefers d" "unbound exs" q q1] p by (auto simp: pick_for_pref)
    obtain rem q' exs' where r: "serve_devices ds q exs = Inr (rem, q', exs')" "set rem \<subseteq> set ds" "dom exs' = dom exs"
      "bound_ok exs'" "open_flag q' = open_flag q" "set (items q') \<subseteq> set (items q)"
      "\<forall>d \<in> set rem. \<forall>t \<in> set (items q'). \<not> prefers d t \<and> \<not> unbound exs t"
      using Cons.IH [of exs q] Cons.prems by auto
    have "serve_devices (d # ds) q exs = Inr (d # rem, q', exs')" using p None n(1) r(1) by simp
    with r n(2) show ?thesis by (intro exI [of _ "d # rem"] exI [of _ q'] exI [of _ exs']) auto
  next
    case (Some t)
    have s: "open_flag q1 = open_flag q" "\<exists>ys zs. items q = ys @ t # zs \<and> items q1 = ys @ zs" "prefers d t \<or> unbound exs t"
      using mq.pick_pref_some [of "prefers d" "unbound exs" q q1 t] p Some by (auto simp: pick_for_pref)
    obtain e where e: "exs d = Some e" using Cons.prems(1) by auto
    define exs1 where "exs1 = exs(d \<mapsto> fst (push t e))"
    have dom: "dom exs1 = dom exs" using e by (auto simp: exs1_def)
    have "bound_ok exs1"
      unfolding exs1_def using bound_ok_update [OF Cons.prems(2) e] s(3) by (auto simp: push_def split: if_splits)
    then obtain rem q' exs' where r: "serve_devices ds q1 exs1 = Inr (rem, q', exs')" "set rem \<subseteq> set ds" "dom exs' = dom exs1"
      "bound_ok exs'" "open_flag q' = open_flag q1" "set (items q') \<subseteq> set (items q1)"
      "\<forall>d \<in> set rem. \<forall>t \<in> set (items q'). \<not> prefers d t \<and> \<not> unbound exs1 t"
      using Cons.IH [of exs1 q1] Cons.prems(1) dom by auto
    have "serve_devices (d # ds) q exs = Inr (rem, q', exs')" using p Some e r(1) by (simp add: exs1_def)
    with r s(1,2) dom unbound_dom [OF dom] show ?thesis by (intro exI [of _ rem] exI [of _ q'] exI [of _ exs']) auto
  qed
qed simp

section \<open>The invariant\<close>

text \<open>
  What the scheduler relies on of the library's queue: it holds a finite bag of messages, and it fails
  to deliver only when it is empty.
\<close>

definition library_queue :: "('a \<Rightarrow> 'q \<Rightarrow> 'q) \<Rightarrow> ('q \<Rightarrow> ('a \<times> 'q) option) \<Rightarrow> ('q \<Rightarrow> 'a multiset) \<Rightarrow> bool" where
  "library_queue enq deq bag \<longleftrightarrow> (\<forall>x q. bag (enq x q) = add_mset x (bag q)) \<and>
     (\<forall>q x q'. deq q = Some (x, q') \<longrightarrow> bag q = add_mset x (bag q')) \<and> (\<forall>q. deq q = None \<longrightarrow> bag q = {#})"

lemma takes_bag: "takes deq q xs q' \<Longrightarrow> library_queue enq deq bag \<Longrightarrow> bag q = mset xs + bag q'"
  by (induction rule: takes.induct) (auto simp: library_queue_def)

lemma takes_all:
  assumes "library_queue enq deq bag"
  shows "\<exists>xs q'. takes deq q xs q' \<and> deq q' = None"
proof (induction "size (bag q)" arbitrary: q rule: less_induct)
  case less
  show ?case
  proof (cases "deq q")
    case None
    then show ?thesis by (intro exI [of _ "[]"] exI [of _ q]) (simp add: takes_none)
  next
    case (Some p)
    then obtain x q1 where p: "deq q = Some (x, q1)" by (cases p) simp
    then have "size (bag q1) < size (bag q)" using assms by (simp add: library_queue_def)
    from less [OF this] obtain xs q' where "takes deq q1 xs q'" "deq q' = None" by blast
    with takes_one [of deq q x q1, OF p] show ?thesis by blast
  qed
qed

definition dispatchable :: "'q scheduler \<Rightarrow> int \<Rightarrow> itask \<Rightarrow> bool" where
  "dispatchable s d t \<longleftrightarrow> prefers d t \<or> unbound (gpu_executors s) t"

definition matched :: "'q scheduler \<Rightarrow> bool" where
  "matched s \<longleftrightarrow> (\<forall>d \<in> set (ready_devices s). \<forall>t \<in> set (items (waiting_tasks s)). \<not> dispatchable s d t)"

definition sched_inv :: "('q \<Rightarrow> task_request multiset) \<Rightarrow> 'q scheduler \<Rightarrow> bool" where
  "sched_inv bag s \<longleftrightarrow> set (ready_devices s) \<subseteq> dom (gpu_executors s) \<and>
     (\<forall>r. r \<in># bag (chan_queue (request_channel s)) \<longrightarrow> kind r = Device_ready \<longrightarrow> \<not> is_scan r \<longrightarrow> device_id r \<in> dom (gpu_executors s)) \<and>
     bound_ok (gpu_executors s) \<and>
     (chan_active (request_channel s) \<longrightarrow> matched s \<or> 0 < wakes_owed s \<or> bag (chan_queue (request_channel s)) \<noteq> {#})"

lemma manage_round_ok:
  assumes "sched_inv bag s" "library_queue enq deq bag" "takes deq (chan_queue (request_channel s)) rs q"
  shows "\<exists>s'. manage_round rs q s = Inr s' \<and> matched s' \<and> set (ready_devices s') \<subseteq> dom (gpu_executors s') \<and>
    dom (gpu_executors s') = dom (gpu_executors s) \<and> bound_ok (gpu_executors s') \<and>
    request_channel s' = (request_channel s)\<lparr>chan_queue := q\<rparr> \<and> wakes_owed s' = wakes_owed s"
proof -
  let ?ds = "fold note_request rs (ready_devices s)"
  have "set ?ds \<subseteq> dom (gpu_executors s)"
    using assms(1) takes_bag [OF assms(3,2)] by (auto simp: note_requests_set sched_inv_def)
  with serve_devices_ok [of ?ds "gpu_executors s" "waiting_tasks s"] assms(1)
  obtain rem q' exs' where r: "serve_devices ?ds (waiting_tasks s) (gpu_executors s) = Inr (rem, q', exs')"
    "set rem \<subseteq> set ?ds" "dom exs' = dom (gpu_executors s)" "bound_ok exs'"
    "\<forall>d \<in> set rem. \<forall>t \<in> set (items q'). \<not> prefers d t \<and> \<not> unbound (gpu_executors s) t"
    by (auto simp: sched_inv_def)
  let ?s = "s\<lparr>waiting_tasks := q', request_channel := (request_channel s)\<lparr>chan_queue := q\<rparr>, ready_devices := rem, gpu_executors := exs'\<rparr>"
  have "manage_round rs q s = Inr ?s" using r(1) by (simp add: manage_round_def)
  moreover have "matched ?s" using r(5) unbound_dom [OF r(3)] by (simp add: matched_def dispatchable_def)
  moreover have "set rem \<subseteq> dom exs'" using r(2,3) \<open>set ?ds \<subseteq> dom (gpu_executors s)\<close> by blast
  ultimately show ?thesis using r(3,4) by (intro exI [of _ ?s]) simp
qed

lemma sched_inv_execute:
  assumes "sched_inv bag s" "gpu_executors s d = Some e"
  shows "sched_inv bag (s\<lparr>gpu_executors := (gpu_executors s)(d \<mapsto> fst (try_pop e))\<rparr>)"
proof -
  define exs where "exs = (gpu_executors s)(d \<mapsto> fst (try_pop e))"
  have dom: "dom exs = dom (gpu_executors s)" using assms(2) by (auto simp: exs_def)
  have "set (items (fst (try_pop e))) \<subseteq> set (items e)" by (auto simp: try_pop_def split: list.splits)
  then have "bound_ok exs"
    unfolding exs_def using assms by (intro bound_ok_update [of _ _ e]) (auto simp: sched_inv_def)
  then show ?thesis
    unfolding exs_def [symmetric] using assms(1) dom unbound_dom [OF dom] by (simp add: sched_inv_def matched_def dispatchable_def)
qed

lemma sched_step_inv:
  assumes "sched_step enq deq s s'" "library_queue enq deq bag" "sched_inv bag s"
  shows "sched_inv bag s'"
  using assms
proof (induction rule: sched_step.induct)
  case (step_manage s r rs q s')
  from manage_round_ok [OF step_manage(6,5,2)] step_manage(4)
  have m: "matched s'" "set (ready_devices s') \<subseteq> dom (gpu_executors s')" "dom (gpu_executors s') = dom (gpu_executors s)"
    "bound_ok (gpu_executors s')" "request_channel s' = (request_channel s)\<lparr>chan_queue := q\<rparr>" by auto
  then show ?case using step_manage takes_bag [OF step_manage(2,5)] by (auto simp: sched_inv_def)
next
  case (step_execute s d e)
  then show ?case using sched_inv_execute by blast
qed (auto simp: sched_inv_def matched_def dispatchable_def schedule_task_def send_wake_def send_ready_def channel_send_def
  stop_scheduler_def channel_close_def library_queue_def)

lemma sched_inv_start: "library_queue enq deq bag \<Longrightarrow> bag q = {#} \<Longrightarrow> sched_inv bag (make_scheduler q devices)"
  by (auto simp: sched_inv_def make_scheduler_def bound_ok_def matched_def make_mpsc_def dest!: map_of_SomeD)

lemma sched_reachable_inv:
  assumes "(sched_step enq deq)\<^sup>*\<^sup>* (make_scheduler q devices) s" "library_queue enq deq bag" "bag q = {#}"
  shows "sched_inv bag s"
  using assms(1) by (induction rule: rtranclp_induct) (auto intro: sched_inv_start sched_step_inv assms)

section \<open>Properties\<close>

text \<open>A list as the library's queue, and a run in which device \<open>d\<close> reports while a task that prefers device 1 waits.\<close>

definition list_enq :: "'a \<Rightarrow> 'a list \<Rightarrow> 'a list" where
  "list_enq x q = q @ [x]"

definition list_deq :: "'a list \<Rightarrow> ('a \<times> 'a list) option" where
  "list_deq q = (case q of [] \<Rightarrow> None | x # xs \<Rightarrow> Some (x, xs))"

lemma list_library_queue: "library_queue list_enq list_deq mset"
  by (auto simp: library_queue_def list_enq_def list_deq_def split: list.splits)

definition example_start :: "int \<Rightarrow> task_request list scheduler" where
  "example_start d = send_ready list_enq d (send_wake list_enq (schedule_task (Gpu_pipeline_task 7 (Some 1)) (make_scheduler [] [0, 1])))"

definition example_round :: "int \<Rightarrow> task_request list scheduler" where
  "example_round d = (example_start d)\<lparr>request_channel := \<lparr>chan_queue = [], chan_active = True\<rparr>,
     waiting_tasks := \<lparr>items = (if d = 1 then [] else [Gpu_pipeline_task 7 (Some 1)]), open_flag = True\<rparr>,
     ready_devices := (if d = 1 then [] else [d]),
     gpu_executors := (gpu_executors (example_start d))(1 \<mapsto> \<lparr>items = (if d = 1 then [Gpu_pipeline_task 7 (Some 1)] else []), open_flag = True\<rparr>)\<rparr>"

lemmas example_defs = example_start_def example_round_def send_ready_def send_wake_def schedule_task_def make_scheduler_def
  channel_send_def list_enq_def push_def make_mpsc_def

lemma example_start_reachable:
  assumes "d = 0 \<or> d = 1"
  shows "(sched_step list_enq list_deq)\<^sup>*\<^sup>* (make_scheduler [] [0, 1]) (example_start d)"
proof -
  let ?t = "Gpu_pipeline_task 7 (Some 1)" and ?s = "make_scheduler [] [0, 1] :: task_request list scheduler"
  have "sched_step list_enq list_deq ?s (schedule_task ?t ?s)" by (rule step_schedule)
  moreover have "sched_step list_enq list_deq (schedule_task ?t ?s) (send_wake list_enq (schedule_task ?t ?s))"
    by (rule step_wake) (simp add: schedule_task_def)
  moreover have "sched_step list_enq list_deq (send_wake list_enq (schedule_task ?t ?s)) (example_start d)"
    unfolding example_start_def by (rule step_ready) (use assms in \<open>auto simp: example_defs\<close>)
  ultimately show ?thesis by (meson r_into_rtranclp rtranclp_trans)
qed

lemma example_round_step:
  assumes "d = 0 \<or> d = 1"
  shows "sched_step list_enq list_deq (example_start d) (example_round d)"
proof (rule step_manage)
  let ?w = "\<lparr>device_id = 0, is_scan = False, kind = Task_available\<rparr>" and ?r = "\<lparr>device_id = d, is_scan = False, kind = Device_ready\<rparr>"
  show "takes list_deq (chan_queue (request_channel (example_start d))) (?w # [?r]) []"
    by (auto simp: example_defs list_deq_def intro!: takes.intros)
  show "manage_round (?w # [?r]) [] (example_start d) = Inr (example_round d)"
    using assms by (auto simp: manage_round_def note_request_def pick_for_def pop_if_def example_defs)
qed (simp_all add: example_defs list_deq_def)

lemma example_round_reachable:
  "d = 0 \<or> d = 1 \<Longrightarrow> (sched_step list_enq list_deq)\<^sup>*\<^sup>* (make_scheduler [] [0, 1]) (example_round d)"
  by (rule rtranclp.rtrancl_into_rtrancl [OF example_start_reachable example_round_step])



text \<open>
  C26: a preference for a device is binding. A task that prefers a device which has an executor is never
  put into the queue of another device.
\<close>

theorem preference_is_binding:
  assumes "library_queue enq deq bag" and "bag q = {#}" and "(sched_step enq deq)\<^sup>*\<^sup>* (make_scheduler q devices) s"
    and "gpu_executors s d = Some e" and "Gpu_pipeline_task i (Some p) \<in> set (items e)" and "p \<in> dom (gpu_executors s)"
  shows "p = d"
  using sched_reachable_inv [OF assms(3,1,2)] assms(4-6) by (fastforce simp: sched_inv_def bound_ok_def)

theorem preference_is_binding_witness:
  "\<exists>e. gpu_executors (example_round 1) 1 = Some e \<and> Gpu_pipeline_task 7 (Some 1) \<in> set (items e) \<and> (1 :: int) = 1"
proof -
  obtain e where e: "gpu_executors (example_round 1) 1 = Some e" "Gpu_pipeline_task 7 (Some 1) \<in> set (items e)"
    by (simp add: example_defs)
  have "(1 :: int) = 1"
    by (rule preference_is_binding [OF list_library_queue _ example_round_reachable e]) (use e in auto)
  with e show ?thesis by blast
qed



end
