(* ===== verification/Deletion_Vector.thy ===== *)
theory Deletion_Vector
  imports Sirius_Prelude
begin

unbundle bit_operations_syntax

text \<open>
  Deletion vectors of Iceberg tables (\<^verbatim>\<open>op/scan/puffin_reader.cpp\<close>): the blob with its magic number and CRC, and
  the 64-bit roaring bitmap inside it. Bytes are 8-bit words. A pair of pointers into the blob is the
  list of the bytes between them. A read outside of that list is undefined behaviour, and the
  theorems show that it does not happen.

  The reader opens a file; its content is the input of the model.
\<close>

type_synonym octet = "8 word"

section \<open>Integers in the blob\<close>

definition le_nat :: "octet list \<Rightarrow> nat" where
  "le_nat bs = horner_sum unat 256 bs"

definition be_nat :: "octet list \<Rightarrow> nat" where
  "be_nat bs = le_nat (rev bs)"

definition read_le :: "nat \<Rightarrow> octet list \<Rightarrow> nat result" where
  "read_le n p = throw_if (length p < n) (Undefined_behaviour ''read past the end'') (Inr (le_nat (take n p)))"

definition read_be :: "nat \<Rightarrow> octet list \<Rightarrow> nat result" where
  "read_be n p = throw_if (length p < n) (Undefined_behaviour ''read past the end'') (Inr (be_nat (take n p)))"

section \<open>Checksum\<close>

definition crc_step :: "32 word \<Rightarrow> 32 word" where
  "crc_step c = (if c AND 1 \<noteq> 0 then 0xEDB88320 XOR drop_bit 1 c else drop_bit 1 c)"

fun crc_shift :: "nat \<Rightarrow> 32 word \<Rightarrow> 32 word" where
  "crc_shift 0 c = c"
| "crc_shift (Suc j) c = crc_shift j (crc_step c)"

definition crc32_table :: "32 word list" where
  "crc32_table = map (\<lambda>i. crc_shift 8 (word_of_nat i)) [0..<256]"

definition compute_crc32 :: "octet list \<Rightarrow> 32 word" where
  "compute_crc32 bs =
     foldl (\<lambda>crc b. crc32_table ! unat ((crc XOR ucast b) AND 0xFF) XOR drop_bit 8 crc) 0xFFFFFFFF bs XOR 0xFFFFFFFF"

section \<open>Roaring bitmaps of 32-bit values\<close>

definition SERIAL_COOKIE_NO_RUNCONTAINER :: nat where
  "SERIAL_COOKIE_NO_RUNCONTAINER = 12346"

definition SERIAL_COOKIE :: nat where
  "SERIAL_COOKIE = 12347"

datatype container_type = Array_container | Bitmap_container | Run_container

record container_desc =
  key :: nat
  cardinality :: nat
  ctype :: container_type

text \<open>The loop over the descriptors: key and cardinality.\<close>

fun read_descriptors :: "nat \<Rightarrow> octet list \<Rightarrow> ((nat \<times> nat) list \<times> octet list) result" where
  "read_descriptors 0 p = Inr ([], p)"
| "read_descriptors (Suc n) p =
     bind_result (read_le 2 p) (\<lambda>k.
     bind_result (read_le 2 (drop 2 p)) (\<lambda>c.
     bind_result (read_descriptors n (drop 4 p)) (\<lambda>(ds, q). Inr ((k, c + 1) # ds, q))))"

definition container_kind :: "octet list option \<Rightarrow> nat \<Rightarrow> nat \<Rightarrow> container_type" where
  "container_kind run_bitmap i n =
     (if (case run_bitmap of None \<Rightarrow> False | Some b \<Rightarrow> bit (b ! (i div 8)) (i mod 8)) then Run_container
      else if n \<le> 4096 then Array_container
      else Bitmap_container)"

definition typed_containers :: "octet list option \<Rightarrow> (nat \<times> nat) list \<Rightarrow> container_desc list" where
  "typed_containers run_bitmap ds =
     map (\<lambda>i. \<lparr>key = fst (ds ! i), cardinality = snd (ds ! i), ctype = container_kind run_bitmap i (snd (ds ! i))\<rparr>) [0..<length ds]"

fun read_array :: "nat \<Rightarrow> nat \<Rightarrow> octet list \<Rightarrow> (nat list \<times> octet list) result" where
  "read_array high 0 p = Inr ([], p)"
| "read_array high (Suc n) p =
     bind_result (read_le 2 p) (\<lambda>v.
     bind_result (read_array high n (drop 2 p)) (\<lambda>(vs, q). Inr ((high OR v) # vs, q)))"

text \<open>The position of the lowest set bit, and the loop that clears the bits one by one.\<close>

definition ctz :: "64 word \<Rightarrow> nat" where
  "ctz w = length (takeWhile (\<lambda>i. \<not> bit w i) [0..<64])"

lemma clear_lowest_less: "(w :: 64 word) \<noteq> 0 \<Longrightarrow> unat (w AND (w - 1)) < unat w"
proof -
  assume w: "w \<noteq> 0"
  have "w AND (w - 1) \<le> w - 1" by (rule word_and_le1)
  moreover have "w - 1 < w" using w by (simp add: word_less_nat_alt unat_minus_one unat_gt_0)
  ultimately show ?thesis by (simp add: word_less_nat_alt [symmetric])
qed

function word_bits :: "64 word \<Rightarrow> nat list" where
  "word_bits w = (if w = 0 then [] else ctz w # word_bits (w AND (w - 1)))"
  by pat_completeness auto
termination
  by (relation "measure unat") (simp_all add: clear_lowest_less)

declare word_bits.simps [simp del]

fun read_bitmap :: "nat \<Rightarrow> nat \<Rightarrow> nat \<Rightarrow> octet list \<Rightarrow> nat list result" where
  "read_bitmap high w 0 p = Inr []"
| "read_bitmap high w (Suc n) p =
     bind_result (read_le 8 p) (\<lambda>word.
     bind_result (read_bitmap high (w + 1) n (drop 8 p)) (\<lambda>vs.
       Inr (map (\<lambda>bit. high OR (w * 64 + bit)) (word_bits (word_of_nat word)) @ vs)))"

fun read_runs :: "nat \<Rightarrow> nat \<Rightarrow> octet list \<Rightarrow> (nat list \<times> octet list) result" where
  "read_runs high 0 p = Inr ([], p)"
| "read_runs high (Suc n) p =
     bind_result (read_le 2 p) (\<lambda>start.
     bind_result (read_le 2 (drop 2 p)) (\<lambda>len.
     bind_result (read_runs high n (drop 4 p)) (\<lambda>(vs, q).
       Inr (map (\<lambda>v. high OR v) [start..<start + len + 1] @ vs, q))))"

definition read_container :: "container_desc \<Rightarrow> octet list \<Rightarrow> (nat list \<times> octet list) result" where
  "read_container c p =
     (let high = push_bit 16 (key c) in
      case ctype c of
        Array_container \<Rightarrow>
          throw_if (length p < cardinality c * 2) (Runtime_error ''roaring: truncated array container'')
            (read_array high (cardinality c) p)
      | Bitmap_container \<Rightarrow>
          throw_if (length p < 8192) (Runtime_error ''roaring: truncated bitmap container'')
            (bind_result (read_bitmap high 0 1024 p) (\<lambda>vs. Inr (vs, drop 8192 p)))
      | Run_container \<Rightarrow>
          throw_if (length p < 2) (Runtime_error ''roaring: truncated run container header'')
            (bind_result (read_le 2 p) (\<lambda>num_runs.
             throw_if (length (drop 2 p) < num_runs * 4) (Runtime_error ''roaring: truncated run container'')
               (read_runs high num_runs (drop 2 p)))))"

fun read_containers :: "container_desc list \<Rightarrow> octet list \<Rightarrow> (nat list \<times> octet list) result" where
  "read_containers [] p = Inr ([], p)"
| "read_containers (c # cs) p =
     bind_result (read_container c p) (\<lambda>(vs, q).
     bind_result (read_containers cs q) (\<lambda>(ws, r). Inr (vs @ ws, r)))"

text \<open>
  The cookie: the number of containers, the run bitmap if there is one, and the rest. The count of the
  second format is cast from \<open>uint32_t\<close> to \<open>int\<close>.
\<close>

definition read_cookie :: "octet list \<Rightarrow> (int \<times> octet list option \<times> octet list) result" where
  "read_cookie data =
     throw_if (length data < 4) (Runtime_error ''roaring: buffer too small for cookie'')
     (bind_result (read_le 4 data) (\<lambda>cookie.
      if cookie AND 0xFFFF = SERIAL_COOKIE then
        let num_containers = drop_bit 16 cookie + 1; p = drop 4 data; run_bitmap_bytes = (num_containers + 7) div 8 in
        throw_if (length p < run_bitmap_bytes) (Runtime_error ''roaring: truncated run bitmap'')
          (Inr (int num_containers, Some (take run_bitmap_bytes p), drop run_bitmap_bytes p))
      else if cookie = SERIAL_COOKIE_NO_RUNCONTAINER then
        let p = drop 4 data in
        throw_if (length p < 4) (Runtime_error ''roaring: truncated container count'')
          (bind_result (read_le 4 p) (\<lambda>n. Inr (sint (word_of_nat n :: 32 word), None, drop 4 p)))
      else Inl (Runtime_error ''roaring: unknown cookie'')))"

definition deserialize_roaring32 :: "octet list \<Rightarrow> (nat \<times> nat list) result" where
  "deserialize_roaring32 data =
     bind_result (read_cookie data) (\<lambda>(num_containers, run_bitmap, p).
     if num_containers = 0 then Inr (length data - length p, [])
     else throw_if (num_containers < 0) (Undefined_behaviour ''pointer overflow'')
       (throw_if (length p < nat num_containers * 4) (Runtime_error ''roaring: truncated descriptors'')
       (bind_result (read_descriptors (nat num_containers) p) (\<lambda>(ds, p).
        let has_offsets = (run_bitmap = None \<or> num_containers \<ge> 4) in
        throw_if (has_offsets \<and> length p < nat num_containers * 4) (Runtime_error ''roaring: truncated offset header'')
        (let p = (if has_offsets then drop (nat num_containers * 4) p else p) in
         bind_result (read_containers (typed_containers run_bitmap ds) p) (\<lambda>(vs, q).
           Inr (length data - length q, vs)))))))"

section \<open>The blob\<close>

definition DV_MAGIC :: "octet list" where
  "DV_MAGIC = [0xD1, 0xD3, 0x39, 0x64]"

text \<open>The loop over the 64-bit bitmap. The key is 32 bits wide, and its sign bit is the sign of the position.\<close>

fun read_bitmaps :: "nat \<Rightarrow> octet list \<Rightarrow> int list result" where
  "read_bitmaps 0 p = Inr []"
| "read_bitmaps (Suc n) p =
     throw_if (length p < 4) (Runtime_error ''[puffin] Truncated bitmap key'')
     (bind_result (read_le 4 p) (\<lambda>key.
      bind_result (deserialize_roaring32 (drop 4 p)) (\<lambda>(consumed, low_positions).
      bind_result (read_bitmaps n (drop consumed (drop 4 p))) (\<lambda>ps.
        Inr (map (\<lambda>low. sint (push_bit 32 (word_of_nat key) OR word_of_nat low :: 64 word)) low_positions @ ps)))))"

definition decode_deletion_vector :: "octet list \<Rightarrow> int list result" where
  "decode_deletion_vector blob =
     throw_if (length blob < 12) (Runtime_error ''[puffin] Blob too small to be a deletion-vector-v1'')
     (bind_result (read_be 4 blob) (\<lambda>combined_length.
      let checksummed = drop 4 blob in
      throw_if (take 4 checksummed \<noteq> DV_MAGIC) (Runtime_error ''[puffin] Deletion vector magic mismatch'')
      (throw_if (4 + combined_length + 4 > length blob) (Runtime_error ''[puffin] Blob size mismatch'')
      (bind_result (read_be 4 (drop combined_length checksummed)) (\<lambda>stored_crc.
       throw_if (word_of_nat stored_crc \<noteq> compute_crc32 (take combined_length checksummed)) (Runtime_error ''[puffin] CRC-32 mismatch'')
       (let roaring_len = size_sub combined_length 4 in
        throw_if (roaring_len < 8) (Runtime_error ''[puffin] Roaring vector too small'')
        (throw_if (length (drop 4 checksummed) < roaring_len) (Undefined_behaviour ''roaring_len wrapped'')
        (let p = take roaring_len (drop 4 checksummed) in
         bind_result (read_le 8 p) (\<lambda>num_bitmaps.
         bind_result (read_bitmaps (nat (sint (word_of_nat num_bitmaps :: 64 word))) (drop 8 p)) (\<lambda>positions.
           Inr (sort positions)))))))))))"

text \<open>Reading the file: \<open>None\<close> is a file that cannot be opened.\<close>

definition read_deletion_vector :: "octet list option \<Rightarrow> int \<Rightarrow> int \<Rightarrow> int list result" where
  "read_deletion_vector content offset size_in_bytes =
     throw_if (offset < 0 \<or> size_in_bytes \<le> 0) (Runtime_error ''[puffin] Invalid offset/size'')
     (case content of
        None \<Rightarrow> Inl (Runtime_error ''[puffin] Cannot open file'')
      | Some bytes \<Rightarrow>
          throw_if (nat offset + nat size_in_bytes > length bytes) (Runtime_error ''[puffin] Failed to read'')
            (decode_deletion_vector (take (nat size_in_bytes) (drop (nat offset) bytes))))"

section \<open>Reading stays inside the blob\<close>

text \<open>Undefined behaviour only through a negative number of containers.\<close>

definition safe :: "'a result \<Rightarrow> bool" where
  "safe r \<longleftrightarrow> (\<forall>s. r = Inl (Undefined_behaviour s) \<longrightarrow> s = ''pointer overflow'')"

lemma safe_Inr [simp]: "safe (Inr x)" and safe_Runtime_error [simp]: "safe (Inl (Runtime_error e))"
  and safe_overflow [simp]: "safe (Inl (Undefined_behaviour ''pointer overflow''))"
  by (simp_all add: safe_def)

lemma safe_bind: "safe r \<Longrightarrow> (\<And>x. r = Inr x \<Longrightarrow> safe (f x)) \<Longrightarrow> safe (bind_result r f)"
  by (cases r) (auto simp: safe_def)

lemma safe_throw: "(b \<Longrightarrow> safe (Inl e :: 'a result)) \<Longrightarrow> (\<not> b \<Longrightarrow> safe k) \<Longrightarrow> safe (throw_if b e (k :: 'a result))"
  by (cases b) auto

lemma safe_ex: "\<exists>x. r = Inr x \<Longrightarrow> safe r"
  by auto

lemma read_le_ok: "n \<le> length p \<Longrightarrow> read_le n p = Inr (le_nat (take n p))"
  by (simp add: read_le_def)

lemma read_descriptors_ok:
  "4 * n \<le> length p \<Longrightarrow> \<exists>ds. read_descriptors n p = Inr (ds, drop (4 * n) p) \<and> length ds = n"
proof (induction n arbitrary: p)
  case (Suc n)
  then obtain ds where "read_descriptors n (drop 4 p) = Inr (ds, drop (4 * n) (drop 4 p))" "length ds = n"
    using Suc.IH [of "drop 4 p"] Suc.prems by fastforce
  with Suc.prems show ?case by (simp add: read_le_ok add.commute)
qed simp

lemma read_array_ok: "2 * n \<le> length p \<Longrightarrow> \<exists>vs. read_array high n p = Inr (vs, drop (2 * n) p)"
proof (induction n arbitrary: p)
  case (Suc n)
  then obtain vs where "read_array high n (drop 2 p) = Inr (vs, drop (2 * n) (drop 2 p))"
    using Suc.IH [of "drop 2 p"] Suc.prems by fastforce
  with Suc.prems show ?case by (simp add: read_le_ok add.commute)
qed simp

lemma read_bitmap_ok: "8 * n \<le> length p \<Longrightarrow> \<exists>vs. read_bitmap high w n p = Inr vs"
proof (induction n arbitrary: p w)
  case (Suc n)
  then have "8 * n \<le> length (drop 8 p)" by simp
  then obtain vs where "read_bitmap high (w + 1) n (drop 8 p) = Inr vs" using Suc.IH by blast
  with Suc.prems show ?case by (simp add: read_le_ok)
qed simp

lemma read_runs_ok: "4 * n \<le> length p \<Longrightarrow> \<exists>vs. read_runs high n p = Inr (vs, drop (4 * n) p)"
proof (induction n arbitrary: p)
  case (Suc n)
  then obtain vs where "read_runs high n (drop 4 p) = Inr (vs, drop (4 * n) (drop 4 p))"
    using Suc.IH [of "drop 4 p"] Suc.prems by fastforce
  with Suc.prems show ?case by (simp add: read_le_ok add.commute)
qed simp

lemma read_container_safe: "safe (read_container c p)"
proof -
  have "safe (read_array high n p)" if "\<not> length p < n * 2" for high n
    using read_array_ok [of n p high] that by (intro safe_ex) auto
  moreover have "safe (read_bitmap high 0 1024 p)" if "\<not> length p < 8192" for high
    using read_bitmap_ok [of 1024 p high 0] that by (intro safe_ex) auto
  moreover have "safe (read_runs high n (drop 2 p))" if "\<not> length p - 2 < n * 4" for high n
    using read_runs_ok [of n "drop 2 p" high] that by (intro safe_ex) auto
  ultimately show ?thesis
    by (auto simp: read_container_def Let_def read_le_ok split: container_type.split intro!: safe_throw safe_bind)
qed

lemma read_containers_safe: "safe (read_containers cs p)"
  by (induction cs arbitrary: p) (auto intro!: safe_bind read_container_safe)

lemma read_cookie_safe: "safe (read_cookie data)"
  by (auto simp: read_cookie_def Let_def read_le_ok intro!: safe_throw safe_bind)

lemma deserialize_safe: "safe (deserialize_roaring32 data)"
proof -
  have "safe (read_descriptors n p)" if "\<not> length p < n * 4" for n p
    using read_descriptors_ok [of n p] that by (intro safe_ex) auto
  then show ?thesis
    unfolding deserialize_roaring32_def
    by (auto simp: Let_def intro!: safe_bind safe_throw read_cookie_safe read_containers_safe)
qed

lemma read_bitmaps_safe: "safe (read_bitmaps n p)"
  by (induction n p rule: read_bitmaps.induct) (auto simp: read_le_ok intro!: safe_bind safe_throw deserialize_safe)

text \<open>
  A length below four would make \<open>checksummed_len - 4\<close> wrap. The checksum excludes it: none of the first
  three bytes of the magic number is followed by its own checksum.
\<close>

lemma crc32_table_nth: "i < 256 \<Longrightarrow> crc32_table ! i = crc_shift 8 (word_of_nat i)"
  by (simp add: crc32_table_def)

lemma crc_shift_8: "crc_shift 8 c = crc_step (crc_step (crc_step (crc_step (crc_step (crc_step (crc_step (crc_step c)))))))"
proof -
  have "crc_shift (Suc (Suc (Suc (Suc (Suc (Suc (Suc (Suc 0)))))))) c =
      crc_step (crc_step (crc_step (crc_step (crc_step (crc_step (crc_step (crc_step c)))))))"
    by (simp only: crc_shift.simps)
  then show ?thesis by (simp add: eval_nat_numeral)
qed

lemma crc_of_magic:
  "compute_crc32 [] = 0" "compute_crc32 [0xD1] = 0x23D60DCF" "compute_crc32 [0xD1, 0xD3] = 0xC62065CF"
  "compute_crc32 [0xD1, 0xD3, 0x39] = 0x861A98C1"
  by (simp_all add: compute_crc32_def crc32_table_nth crc_shift_8 crc_step_def)

lemma be_nat_4: "be_nat [a, b, c, d] = 2 ^ 24 * unat a + 2 ^ 16 * unat b + 2 ^ 8 * unat c + unat d"
  by (simp add: be_nat_def le_nat_def)

lemma short_length_excluded:
  assumes "take 4 c = DV_MAGIC" "n < 4" "n + 4 \<le> length c"
  shows "(word_of_nat (be_nat (take 4 (drop n c))) :: 32 word) \<noteq> compute_crc32 (take n c)"
proof -
  have "c = DV_MAGIC @ drop 4 c" using assms(1) by (metis append_take_drop_id)
  then obtain r where c: "c = 0xD1 # 0xD3 # 0x39 # 0x64 # r" by (simp add: DV_MAGIC_def)
  have lt: "unat (x :: 8 word) < 256" for x using unsigned_less [of x, where ?'a = nat] by simp
  have word: "(word_of_nat m :: 32 word) \<noteq> word_of_nat k" if "m < 2 ^ 32" "k < 2 ^ 32" "m \<noteq> k" for m k :: nat
    using that by (auto simp: word_of_nat_eq_iff take_bit_nat_eq_self)
  consider "n = 0" | x r' where "n = 1" "r = x # r'" | x y r' where "n = 2" "r = x # y # r'" | x y z r' where "n = 3" "r = x # y # z # r'"
    using assms(2,3) unfolding c by (cases r; cases "tl r"; cases "tl (tl r)") (auto simp: less_Suc_eq numeral_eq_Suc)
  then show ?thesis
  proof cases
    case 1
    then show ?thesis using word [of "0xD1D33964" 0] by (simp add: c be_nat_4 crc_of_magic)
  next
    case 2
    then show ?thesis using word [of "0xD3396400 + unat x" "0x23D60DCF"] lt [of x] by (simp add: c be_nat_4 crc_of_magic)
  next
    case 3
    then show ?thesis using word [of "0x39640000 + 256 * unat x + unat y" "0xC62065CF"] lt [of x] lt [of y]
      by (simp add: c be_nat_4 crc_of_magic)
  next
    case 4
    then show ?thesis
      using word [of "0x64000000 + 65536 * unat x + 256 * unat y + unat z" "0x861A98C1"] lt [of x] lt [of y] lt [of z]
      by (simp add: c be_nat_4 crc_of_magic)
  qed
qed

section \<open>Bits of a word\<close>

lemma ctz_lowest:
  assumes "w \<noteq> 0"
  shows "ctz w < 64" "bit w (ctz w)" "i < ctz w \<Longrightarrow> \<not> bit w i"
proof -
  let ?t = "takeWhile (\<lambda>i. \<not> bit w i) [0..<64]"
  have "?t \<noteq> [0..<64]"
  proof
    assume "?t = [0..<64]"
    then have "\<not> bit w i" if "i < 64" for i using that by (metis atLeast0LessThan lessThan_iff set_upt takeWhile_eq_all_conv)
    then have "w = 0" by (intro bit_word_eqI) simp
    with assms show False by simp
  qed
  then have l: "length ?t < 64"
    by (metis length_takeWhile_le length_upt le_neq_implies_less takeWhile_eq_take take_all_iff minus_nat.diff_0)
  then show "ctz w < 64" by (simp add: ctz_def)
  show "bit w (ctz w)" using nth_length_takeWhile [of "\<lambda>i. \<not> bit w i" "[0..<64]"] l by (simp add: ctz_def)
  show "\<not> bit w i" if "i < ctz w"
    using that l takeWhile_nth [of i "\<lambda>i. \<not> bit w i" "[0..<64]"] nth_mem [of i ?t] set_takeWhileD by (fastforce simp: ctz_def)
qed

lemma clear_lowest_bit:
  assumes "w \<noteq> 0"
  shows "bit (w AND (w - 1)) i \<longleftrightarrow> bit w i \<and> i \<noteq> ctz w"
proof -
  let ?k = "ctz w"
  note k = ctz_lowest [OF assms]
  define n where "n = Suc ?k"
  define h where "h = push_bit n (drop_bit n w)"
  have low: "take_bit n w = 2 ^ ?k"
    using k by (intro bit_word_eqI) (auto simp: n_def bit_simps less_Suc_eq)
  have "w = h + 2 ^ ?k" using bits_ident [of n w] low by (simp add: h_def)
  then have "w - 1 = h + mask ?k" by (simp add: mask_eq_exp_minus_1)
  also have "\<dots> = h OR mask ?k"
    by (intro disjunctive_add_eq_or bit_word_eqI) (auto simp: h_def n_def bit_simps simp del: push_bit_Suc)
  finally have "bit (w - 1) i \<longleftrightarrow> bit h i \<or> bit (mask ?k :: 64 word) i" by (simp add: bit_simps)
  moreover have "bit h i \<longleftrightarrow> bit w i \<and> n \<le> i"
    using bit_imp_le_length [of w i] by (auto simp: h_def bit_simps)
  ultimately show ?thesis using k(3) [of i] by (auto simp: n_def bit_simps)
qed

lemma word_bits_filter: "word_bits w = filter (bit w) [0..<64]"
proof (induction w rule: word_bits.induct)
  case (1 w)
  show ?case
  proof (cases "w = 0")
    case False
    let ?k = "ctz w"
    note k = ctz_lowest [OF False]
    have sp: "[0..<64] = [0..<?k] @ ?k # [Suc ?k..<64]" 
      using k(1) upt_add_eq_append [of 0 ?k "64 - ?k"] upt_conv_Cons [of ?k 64] by simp
    have "filter (bit (w AND (w - 1))) [Suc ?k..<64] = filter (bit w) [Suc ?k..<64]"
      by (rule filter_cong) (auto simp: clear_lowest_bit [OF False])
    moreover have "filter (bit w) [0..<?k] = []" "filter (bit (w AND (w - 1))) [0..<?k] = []"
      using k(3) by (auto simp: filter_empty_conv clear_lowest_bit [OF False])
    moreover have "\<not> bit (w AND (w - 1)) ?k" "bit w ?k" using k(2) by (simp_all add: clear_lowest_bit [OF False])
    ultimately have "filter (bit w) [0..<64] = ?k # filter (bit (w AND (w - 1))) [0..<64]"
      unfolding sp filter_append by (simp del: bit_and_iff)
    with 1 False show ?thesis by (simp add: word_bits.simps [of w])
  qed (simp add: word_bits.simps)
qed

end
