(* ===== verification/Roaring_Format.thy ===== *)
theory Roaring_Format
  imports Deletion_Vector
begin

unbundle bit_operations_syntax

text \<open>
  The format of a deletion vector from the side of its writer, and that the reader
  (\<^verbatim>\<open>op/scan/puffin_reader.cpp\<close>) returns exactly the positions that were written. A bitmap is a list of
  containers, each an array, a bitmap or a list of runs, under a 16-bit key.
\<close>

section \<open>Containers\<close>

fun enc_le :: "nat \<Rightarrow> nat \<Rightarrow> octet list" where
  "enc_le 0 v = []"
| "enc_le (Suc n) v = word_of_nat v # enc_le n (v div 256)"

lemma length_enc_le [simp]: "length (enc_le n v) = n"
  by (induction n arbitrary: v) simp_all

lemma le_nat_Cons: "le_nat (b # bs) = unat b + 256 * le_nat bs"
  by (simp add: le_nat_def)

lemma le_nat_enc_le: "v < 256 ^ n \<Longrightarrow> le_nat (enc_le n v) = v"
proof (induction n arbitrary: v)
  case 0
  then show ?case by (simp add: le_nat_def)
next
  case (Suc n)
  then have "v div 256 < 256 ^ n" by (simp add: less_mult_imp_div_less mult.commute)
  with Suc.IH show ?case by (simp add: le_nat_Cons unsigned_of_nat take_bit_eq_mod)
qed

lemma read_le_enc [simp]: "v < 256 ^ n \<Longrightarrow> read_le n (enc_le n v @ r) = Inr v"
  by (simp add: read_le_def le_nat_enc_le)

lemma read_be_enc: "v < 256 ^ n \<Longrightarrow> read_be n (rev (enc_le n v) @ r) = Inr v"
  by (simp add: read_be_def be_nat_def le_nat_enc_le)

datatype container =
    Array_of "nat list"
  | Bitmap_of "64 word list"
  | Runs_of "(nat \<times> nat) list"

fun bitmap_values :: "nat \<Rightarrow> 64 word list \<Rightarrow> nat list" where
  "bitmap_values w [] = []"
| "bitmap_values w (x # xs) = map (\<lambda>b. w * 64 + b) (filter (bit x) [0..<64]) @ bitmap_values (w + 1) xs"

fun container_values :: "container \<Rightarrow> nat list" where
  "container_values (Array_of xs) = xs"
| "container_values (Bitmap_of ws) = bitmap_values 0 ws"
| "container_values (Runs_of rs) = concat (map (\<lambda>(s, l). [s..<s + l + 1]) rs)"

fun container_bytes :: "container \<Rightarrow> octet list" where
  "container_bytes (Array_of xs) = concat (map (enc_le 2) xs)"
| "container_bytes (Bitmap_of ws) = concat (map (\<lambda>w. enc_le 8 (unat w)) ws)"
| "container_bytes (Runs_of rs) = enc_le 2 (length rs) @ concat (map (\<lambda>(s, l). enc_le 2 s @ enc_le 2 l) rs)"

fun is_runs :: "container \<Rightarrow> bool" where
  "is_runs (Runs_of rs) = True"
| "is_runs c = False"

fun wf_body :: "container \<Rightarrow> bool" where
  "wf_body (Array_of xs) = (length xs \<le> 4096)"
| "wf_body (Bitmap_of ws) = (length ws = 1024 \<and> 4096 < length (bitmap_values 0 ws))"
| "wf_body (Runs_of rs) = (length rs < 65536 \<and> list_all (\<lambda>(s, l). l < 65536 \<and> s < 65536) rs)"

definition wf_container :: "container \<Rightarrow> bool" where
  "wf_container c \<longleftrightarrow> wf_body c \<and> list_all (\<lambda>v. v < 65536) (container_values c) \<and>
     0 < length (container_values c) \<and> length (container_values c) \<le> 65536"

fun kind_of :: "container \<Rightarrow> container_type" where
  "kind_of (Array_of xs) = Array_container"
| "kind_of (Bitmap_of ws) = Bitmap_container"
| "kind_of (Runs_of rs) = Run_container"

lemma length_array_bytes: "length (concat (map (enc_le 2) xs)) = 2 * length xs"
  by (induction xs) simp_all

lemma length_bitmap_bytes: "length (concat (map (\<lambda>w. enc_le 8 (unat w)) ws)) = 8 * length ws"
  by (induction ws) simp_all

lemma length_run_bytes: "length (concat (map (\<lambda>(s, l). enc_le 2 s @ enc_le 2 l) rs)) = 4 * length rs"
  by (induction rs) auto

lemma read_array_bytes:
  "list_all (\<lambda>v. v < 65536) xs \<Longrightarrow> read_array high (length xs) (concat (map (enc_le 2) xs) @ r) = Inr (map (\<lambda>v. high OR v) xs, r)"
  by (induction xs) simp_all

lemma read_bitmap_bytes:
  "read_bitmap high w (length ws) (concat (map (\<lambda>w. enc_le 8 (unat w)) ws) @ r) = Inr (map (\<lambda>v. high OR v) (bitmap_values w ws))"
proof (induction ws arbitrary: w)
  case (Cons x ws)
  have "unat x < 256 ^ 8" using unsigned_less [of x, where ?'a = nat] by simp
  with Cons show ?case by (simp add: word_bits_filter)
qed simp

lemma read_runs_bytes:
  "list_all (\<lambda>(s, l). l < 65536 \<and> s < 65536) rs \<Longrightarrow>
    read_runs high (length rs) (concat (map (\<lambda>(s, l). enc_le 2 s @ enc_le 2 l) rs) @ r) =
      Inr (map (\<lambda>v. high OR v) (concat (map (\<lambda>(s, l). [s..<s + l + 1]) rs)), r)"
proof (induction rs)
  case (Cons p rs)
  obtain a l where p: "p = (a, l)" by (cases p)
  let ?tail = "concat (map (\<lambda>(s, l). enc_le 2 s @ enc_le 2 l) rs) @ r"
  have "a < 65536" "l < 65536" using Cons.prems p by simp_all
  then have "read_le 2 (enc_le 2 a @ enc_le 2 l @ ?tail) = Inr a" "read_le 2 (drop 2 (enc_le 2 a @ enc_le 2 l @ ?tail)) = Inr l"
    "drop 4 (enc_le 2 a @ enc_le 2 l @ ?tail) = ?tail" by simp_all
  moreover have "read_runs high (length rs) ?tail = Inr (map (\<lambda>v. high OR v) (concat (map (\<lambda>(s, l). [s..<s + l + 1]) rs)), r)"
    using Cons by simp
  ultimately show ?case unfolding p by (simp del: upt_Suc)
qed simp

lemma read_container_bytes:
  assumes "wf_container c"
  shows "read_container \<lparr>key = k, cardinality = length (container_values c), ctype = kind_of c\<rparr> (container_bytes c @ r) =
    Inr (map (\<lambda>v. push_bit 16 k OR v) (container_values c), r)"
proof (cases c)
  case (Array_of xs)
  then show ?thesis using assms
    by (simp add: read_container_def wf_container_def read_array_bytes length_array_bytes)
next
  case (Bitmap_of ws)
  then have "length ws = 1024" using assms by (simp add: wf_container_def)
  then show ?thesis using Bitmap_of read_bitmap_bytes [of "push_bit 16 k" 0 ws r] length_bitmap_bytes [of ws]
    by (simp add: read_container_def)
next
  case (Runs_of rs)
  then have "length rs < 65536" "list_all (\<lambda>(s, l). l < 65536 \<and> s < 65536) rs" using assms by (simp_all add: wf_container_def)
  then show ?thesis using Runs_of read_runs_bytes [of rs "push_bit 16 k" r] length_run_bytes [of rs]
    by (simp add: read_container_def)
qed

section \<open>A bitmap of 32-bit values\<close>

text \<open>
  \<open>rb\<close> is the run bitmap of the format with runs, \<open>offs\<close> the offset header, which the reader skips.
\<close>

type_synonym roaring = "(nat \<times> container) list"

definition descriptor_bytes :: "roaring \<Rightarrow> octet list" where
  "descriptor_bytes cs = concat (map (\<lambda>(k, c). enc_le 2 k @ enc_le 2 (length (container_values c) - 1)) cs)"

definition body_bytes :: "roaring \<Rightarrow> octet list" where
  "body_bytes cs = concat (map (\<lambda>(k, c). container_bytes c) cs)"

definition serialize_roaring32 :: "octet list option \<Rightarrow> octet list \<Rightarrow> roaring \<Rightarrow> octet list" where
  "serialize_roaring32 rb offs cs =
     (case rb of
        None \<Rightarrow> enc_le 4 12346 @ enc_le 4 (length cs)
      | Some b \<Rightarrow> enc_le 4 (12347 + (length cs - 1) * 65536) @ b) @ descriptor_bytes cs @ offs @ body_bytes cs"

definition wf_roaring :: "octet list option \<Rightarrow> octet list \<Rightarrow> roaring \<Rightarrow> bool" where
  "wf_roaring rb offs cs \<longleftrightarrow>
     0 < length cs \<and> length cs \<le> 65536 \<and> list_all (\<lambda>(k, c). k < 65536 \<and> wf_container c) cs \<and>
     (case rb of
        None \<Rightarrow> list_all (\<lambda>(k, c). \<not> is_runs c) cs \<and> length offs = 4 * length cs
      | Some b \<Rightarrow> length b = (length cs + 7) div 8 \<and> length offs = (if length cs \<ge> 4 then 4 * length cs else 0) \<and>
          list_all (\<lambda>i. bit (b ! (i div 8)) (i mod 8) = is_runs (snd (cs ! i))) [0..<length cs])"

definition roaring_values :: "roaring \<Rightarrow> nat list" where
  "roaring_values cs = concat (map (\<lambda>(k, c). map (\<lambda>v. k * 65536 + v) (container_values c)) cs)"

lemma length_descriptor_bytes: "length (descriptor_bytes cs) = 4 * length cs"
  by (induction cs) (auto simp: descriptor_bytes_def)

lemma read_descriptors_bytes:
  "list_all (\<lambda>(k, c). k < 65536 \<and> wf_container c) cs \<Longrightarrow>
    read_descriptors (length cs) (descriptor_bytes cs @ r) = Inr (map (\<lambda>(k, c). (k, length (container_values c))) cs, r)"
proof (induction cs)
  case (Cons p cs)
  obtain k c where p: "p = (k, c)" by (cases p)
  let ?n = "length (container_values c)"
  have n: "k < 65536" "0 < ?n" "?n \<le> 65536" using Cons.prems p by (simp_all add: wf_container_def)
  then have kc: "k < 65536" "?n - 1 < 65536" "?n - 1 + 1 = ?n" by linarith+
  let ?tail = "descriptor_bytes cs @ r"
  have bytes: "descriptor_bytes (p # cs) @ r = enc_le 2 k @ enc_le 2 (?n - 1) @ ?tail" by (simp add: p descriptor_bytes_def)
  have "read_le 2 (enc_le 2 k @ enc_le 2 (?n - 1) @ ?tail) = Inr k"
    "read_le 2 (drop 2 (enc_le 2 k @ enc_le 2 (?n - 1) @ ?tail)) = Inr (?n - 1)"
    "drop 4 (enc_le 2 k @ enc_le 2 (?n - 1) @ ?tail) = ?tail" using kc by simp_all
  then show ?case unfolding bytes using Cons kc(3) by (simp add: p)
qed (simp add: descriptor_bytes_def)

lemma container_kind_of:
  assumes "wf_container c" "(case rb of None \<Rightarrow> False | Some b \<Rightarrow> bit (b ! (i div 8)) (i mod 8)) = is_runs c"
  shows "container_kind rb i (length (container_values c)) = kind_of c"
  using assms by (cases c) (simp_all add: container_kind_def wf_container_def)

lemma typed_containers_of:
  assumes "wf_roaring rb offs cs"
  shows "typed_containers rb (map (\<lambda>(k, c). (k, length (container_values c))) cs) =
    map (\<lambda>(k, c). \<lparr>key = k, cardinality = length (container_values c), ctype = kind_of c\<rparr>) cs"
proof (rule nth_equalityI)
  fix i assume "i < length (typed_containers rb (map (\<lambda>(k, c). (k, length (container_values c))) cs))"
  then have i: "i < length cs" by (simp add: typed_containers_def)
  obtain k c where c: "cs ! i = (k, c)" by (cases "cs ! i")
  have "wf_container c" using assms i c by (auto simp: wf_roaring_def list_all_length)
  moreover have "(case rb of None \<Rightarrow> False | Some b \<Rightarrow> bit (b ! (i div 8)) (i mod 8)) = is_runs c"
    using assms i c by (cases rb) (auto simp: wf_roaring_def list_all_length)
  ultimately have "container_kind rb i (length (container_values c)) = kind_of c" by (rule container_kind_of)
  then show "typed_containers rb (map (\<lambda>(k, c). (k, length (container_values c))) cs) ! i =
      map (\<lambda>(k, c). \<lparr>key = k, cardinality = length (container_values c), ctype = kind_of c\<rparr>) cs ! i"
    using i c by (simp add: typed_containers_def)
qed (simp add: typed_containers_def)

lemma read_containers_bytes:
  "list_all (\<lambda>(k, c). k < 65536 \<and> wf_container c) cs \<Longrightarrow>
    read_containers (map (\<lambda>(k, c). \<lparr>key = k, cardinality = length (container_values c), ctype = kind_of c\<rparr>) cs) (body_bytes cs @ r) =
      Inr (roaring_values cs, r)"
proof (induction cs)
  case (Cons p cs)
  obtain k c where p: "p = (k, c)" by (cases p)
  have wf: "wf_container c" using Cons.prems p by simp
  then have "map (\<lambda>v. push_bit 16 k OR v) (container_values c) = map (\<lambda>v. k * 65536 + v) (container_values c)"
    using push_bit_or_add [of _ 16 k] by (auto simp: wf_container_def list_all_iff)
  with Cons read_container_bytes [OF wf, of k "body_bytes cs @ r"] show ?case
    by (simp add: p body_bytes_def roaring_values_def)
qed (simp add: body_bytes_def roaring_values_def)

lemma read_cookie_bytes:
  assumes "wf_roaring rb offs cs"
  shows "read_cookie (serialize_roaring32 rb offs cs @ r) =
    Inr (int (length cs), rb, descriptor_bytes cs @ offs @ body_bytes cs @ r)"
proof (cases rb)
  case None
  have n: "length cs < 2 ^ 31" using assms by (simp add: wf_roaring_def)
  then have "sint (word_of_nat (length cs) :: 32 word) = int (length cs)"
    by (simp add: signed_of_nat signed_take_bit_int_eq_self)
  with None n show ?thesis
    by (simp add: read_cookie_def serialize_roaring32_def SERIAL_COOKIE_def SERIAL_COOKIE_NO_RUNCONTAINER_def)
next
  case (Some b)
  let ?m = "length cs - 1"
  have m: "?m < 65536" "length cs = ?m + 1" "length b = (?m + 1 + 7) div 8" using assms Some by (auto simp: wf_roaring_def)
  have "(12347 + ?m * 65536) AND 65535 = (12347 :: nat)"
    using take_bit_eq_mask [of 16 "12347 + ?m * 65536"] by (simp add: mask_eq_exp_minus_1 take_bit_eq_mod)
  moreover have "drop_bit 16 (12347 + ?m * 65536) = ?m" by (simp add: drop_bit_eq_div)
  moreover have "12347 + ?m * 65536 < 256 ^ 4" using m(1) by simp
  ultimately show ?thesis using Some m
    by (simp add: read_cookie_def serialize_roaring32_def SERIAL_COOKIE_def Let_def)
qed

lemma deserialize_serialize:
  assumes "wf_roaring rb offs cs"
  shows "deserialize_roaring32 (serialize_roaring32 rb offs cs @ r) =
    Inr (length (serialize_roaring32 rb offs cs), roaring_values cs)"
proof -
  have wf: "list_all (\<lambda>(k, c). k < 65536 \<and> wf_container c) cs" "0 < length cs" using assms by (simp_all add: wf_roaring_def)
  have offs: "length offs = (if rb = None \<or> int (length cs) \<ge> 4 then 4 * length cs else 0)"
    using assms by (cases rb) (auto simp: wf_roaring_def)
  show ?thesis
    unfolding deserialize_roaring32_def read_cookie_bytes [OF assms]
    using wf offs read_descriptors_bytes [OF wf(1)] typed_containers_of [OF assms] read_containers_bytes [OF wf(1)]
    by (cases rb; cases "4 \<le> length cs") (simp_all add: length_descriptor_bytes Let_def)
qed

section \<open>The blob\<close>

text \<open>A 64-bit bitmap: a list of 32-bit bitmaps, each under the high half of its values.\<close>

type_synonym roaring64 = "(nat \<times> octet list option \<times> octet list \<times> roaring) list"

definition roaring64_bytes :: "roaring64 \<Rightarrow> octet list" where
  "roaring64_bytes bs =
     enc_le 8 (length bs) @ concat (map (\<lambda>(k, rb, offs, cs). enc_le 4 k @ serialize_roaring32 rb offs cs) bs)"

definition roaring64_values :: "roaring64 \<Rightarrow> int list" where
  "roaring64_values bs = concat (map (\<lambda>(k, rb, offs, cs). map (\<lambda>v. int k * 2 ^ 32 + int v) (roaring_values cs)) bs)"

definition wf_roaring64 :: "roaring64 \<Rightarrow> bool" where
  "wf_roaring64 bs \<longleftrightarrow> length bs < 2 ^ 31 \<and> list_all (\<lambda>(k, rb, offs, cs). k < 2 ^ 31 \<and> wf_roaring rb offs cs) bs"

definition deletion_vector_blob :: "roaring64 \<Rightarrow> octet list" where
  "deletion_vector_blob bs =
     (let body = DV_MAGIC @ roaring64_bytes bs in
      rev (enc_le 4 (length body)) @ body @ rev (enc_le 4 (unat (compute_crc32 body))))"

lemma roaring_values_less:
  assumes "wf_roaring rb offs cs" "v \<in> set (roaring_values cs)"
  shows "v < 2 ^ 32"
proof -
  obtain k c w where "(k, c) \<in> set cs" "w \<in> set (container_values c)" "v = k * 65536 + w"
    using assms(2) by (auto simp: roaring_values_def)
  moreover then have "k < 65536" "w < 65536" using assms(1) by (auto simp: wf_roaring_def list_all_iff wf_container_def)
  ultimately show ?thesis by simp
qed

lemma sint_of_nat_64: "n < 2 ^ 63 \<Longrightarrow> sint (word_of_nat n :: 64 word) = int n"
  by (simp add: signed_of_nat signed_take_bit_int_eq_self)

lemma position_of:
  assumes "k < 2 ^ 31" "v < 2 ^ 32"
  shows "sint (push_bit 32 (word_of_nat k) OR word_of_nat v :: 64 word) = int k * 2 ^ 32 + int v"
proof -
  have "push_bit 32 (word_of_nat k) OR word_of_nat v = (word_of_nat (push_bit 32 k OR v) :: 64 word)"
    by (rule bit_word_eqI) (auto simp: bit_simps)
  also have "push_bit 32 k OR v = k * 2 ^ 32 + v" using push_bit_or_add [OF assms(2)] .
  finally have w: "push_bit 32 (word_of_nat k) OR word_of_nat v = (word_of_nat (k * 2 ^ 32 + v) :: 64 word)" .
  have "k * 2 ^ 32 + v < 2 ^ 63" using assms by simp
  then show ?thesis unfolding w by (simp add: sint_of_nat_64 del: of_nat_add of_nat_mult)
qed

lemma read_bitmaps_bytes:
  "list_all (\<lambda>(k, rb, offs, cs). k < 2 ^ 31 \<and> wf_roaring rb offs cs) bs \<Longrightarrow>
    read_bitmaps (length bs) (concat (map (\<lambda>(k, rb, offs, cs). enc_le 4 k @ serialize_roaring32 rb offs cs) bs) @ r) =
      Inr (roaring64_values bs)"
proof (induction bs)
  case (Cons b bs)
  obtain k rb offs cs where b: "b = (k, rb, offs, cs)" by (cases b)
  let ?rest = "concat (map (\<lambda>(k, rb, offs, cs). enc_le 4 k @ serialize_roaring32 rb offs cs) bs) @ r"
  have k: "k < 2 ^ 31" "wf_roaring rb offs cs" using Cons.prems b by simp_all
  have "map (\<lambda>low. sint (push_bit 32 (word_of_nat k) OR word_of_nat low :: 64 word)) (roaring_values cs) =
      map (\<lambda>v. int k * 2 ^ 32 + int v) (roaring_values cs)"
    using position_of [OF k(1)] roaring_values_less [OF k(2)] by simp
  moreover have "read_le 4 (enc_le 4 k @ serialize_roaring32 rb offs cs @ ?rest) = Inr k" using k(1) by simp
  ultimately show ?case
    using Cons deserialize_serialize [OF k(2), of ?rest] by (simp add: b roaring64_values_def)
qed (simp add: roaring64_values_def)

lemma decode_blob:
  assumes "wf_roaring64 bs" "length (roaring64_bytes bs) + 4 < 2 ^ 32"
  shows "decode_deletion_vector (deletion_vector_blob bs) = Inr (sort (roaring64_values bs))"
proof -
  let ?r = "roaring64_bytes bs"
  let ?body = "DV_MAGIC @ ?r"
  let ?crc = "rev (enc_le 4 (unat (compute_crc32 ?body)))"
  let ?n = "length ?body"
  have magic: "length DV_MAGIC = 4" by (simp add: DV_MAGIC_def)
  then have n: "?n < 256 ^ 4" "?n = length ?r + 4" using assms(2) by simp_all
  have r8: "8 \<le> length ?r" by (simp add: roaring64_bytes_def)
  have blob: "deletion_vector_blob bs = rev (enc_le 4 ?n) @ ?body @ ?crc" by (simp add: deletion_vector_blob_def Let_def)
  have len: "read_be 4 (deletion_vector_blob bs) = Inr ?n" using read_be_enc [OF n(1)] unfolding blob by simp
  have "unat (compute_crc32 ?body) < 256 ^ 4" using unsigned_less [of "compute_crc32 ?body", where ?'a = nat] by simp
  from read_be_enc [OF this, of "[]"] have crc: "read_be 4 ?crc = Inr (unat (compute_crc32 ?body))" by simp
  have sub: "size_sub ?n 4 = length ?r" using size_sub_eq [of 4 ?n] n by simp
  have b: "length bs < 2 ^ 31" "list_all (\<lambda>(k, rb, offs, cs). k < 2 ^ 31 \<and> wf_roaring rb offs cs) bs"
    using assms(1) by (simp_all add: wf_roaring64_def)
  then have "sint (word_of_nat (length bs) :: 64 word) = int (length bs)" by (simp add: sint_of_nat_64)
  moreover have "read_le 8 ?r = Inr (length bs)" using b(1) by (simp add: roaring64_bytes_def)
  moreover have "read_bitmaps (length bs) (drop 8 ?r) = Inr (roaring64_values bs)"
    using read_bitmaps_bytes [OF b(2), of "[]"] by (simp add: roaring64_bytes_def)
  ultimately show ?thesis
    unfolding decode_deletion_vector_def len using r8 n(2) magic sub crc by (simp add: blob)
qed

section \<open>Properties\<close>

lemma decode_safe: "safe (decode_deletion_vector blob)"
proof -
  have be: "safe (read_be n p)" if "\<not> length p < n" for n p using that by (simp add: read_be_def)
  have len: "be_nat (take 4 p) < 2 ^ 32" for p
  proof -
    have "le_nat bs < 256 ^ length bs" for bs
    proof (induction bs)
      case (Cons b bs)
      have "unat b < 256" using unsigned_less [of b, where ?'a = nat] by simp
      with Cons show ?case by (simp add: le_nat_Cons)
    qed (simp add: le_nat_def)
    from this [of "rev (take 4 p)"] have "be_nat (take 4 p) < 256 ^ min (length p) 4" by (simp add: be_nat_def)
    also have "\<dots> \<le> 256 ^ 4" by (rule power_increasing) simp_all
    finally show ?thesis by simp
  qed
  have enough: "\<not> length (drop 4 c) < size_sub n 4"
    if "take 4 c = DV_MAGIC" "n + 4 \<le> length c" "(word_of_nat (be_nat (take 4 (drop n c))) :: 32 word) = compute_crc32 (take n c)" "n < 2 ^ 32" for c n
  proof -
    have "4 \<le> n" using short_length_excluded [OF that(1) _ that(2)] that(3) not_less by blast
    then show ?thesis using that(2,4) size_sub_eq [of 4 n] by simp
  qed
  have body: "safe (let p = take k q in bind_result (read_le 8 p) (\<lambda>nb. bind_result
      (read_bitmaps (nat (sint (word_of_nat nb :: 64 word))) (drop 8 p)) (\<lambda>positions. Inr (sort positions))))"
    if "\<not> k < 8" "\<not> length q < k" for k and q :: "octet list"
    using that by (auto simp: read_le_ok intro!: safe_bind read_bitmaps_safe)
  let ?n = "be_nat (take 4 blob)" and ?c = "drop 4 blob"
  have throw: "safe (throw_if b e k) \<longleftrightarrow> (b \<longrightarrow> safe (Inl e :: 'b result)) \<and> (\<not> b \<longrightarrow> safe k)" for b e and k :: "'b result"
    by (cases b) simp_all
  show ?thesis
  proof (cases "length blob < 12 \<or> length blob < 4 + ?n + 4")
    case True
    then show ?thesis by (cases "length blob < 12") (simp_all add: decode_deletion_vector_def read_be_def throw)
  next
    case False
    then have l: "?n + 4 \<le> length ?c" "4 \<le> length blob" by auto
    have be_ok: "read_be k p = Inr (be_nat (take k p))" if "k \<le> length p" for k p using that by (simp add: read_be_def)
    have "4 \<le> length (drop ?n ?c)" unfolding length_drop using l(1) by (simp only: length_drop)
    with l(2) have r: "read_be 4 blob = Inr ?n" "read_be 4 (drop ?n ?c) = Inr (be_nat (take 4 (drop ?n ?c)))"
      by (simp_all only: be_ok)
    show ?thesis
      unfolding decode_deletion_vector_def r(1) Let_def bind_result_Inr r(2) throw
      using enough [OF _ l(1) _ len] body by (auto simp: Let_def)
  qed
qed

text \<open>
  C9: a deletion vector is read back exactly. If a file contains, anywhere in it, the blob of a
  well-formed 64-bit roaring bitmap, with arrays, bitmaps and runs in either of the two layouts, the reader
  returns the positions of the bitmap in ascending order.
\<close>

theorem deletion_vector_round_trip:
  assumes "wf_roaring64 bs" and "length (roaring64_bytes bs) + 4 < 2 ^ 32"
  shows "read_deletion_vector (Some (pre @ deletion_vector_blob bs @ post)) (int (length pre)) (int (length (deletion_vector_blob bs))) =
    Inr (sort (roaring64_values bs))"
proof -
  have "0 < length (deletion_vector_blob bs)" by (simp add: deletion_vector_blob_def Let_def)
  then show ?thesis using decode_blob [OF assms] by (simp add: read_deletion_vector_def)
qed

theorem deletion_vector_round_trip_witness:
  "\<exists>blob. read_deletion_vector (Some ([7] @ blob @ [9])) 1 (int (length blob)) = Inr [3, 65541, 65542, 65543]"
proof -
  let ?bs = "[(0, Some [2], [], [(0, Array_of [3]), (1, Runs_of [(5, 2)])])] :: roaring64"
  have "wf_roaring64 ?bs"
    by (simp add: wf_roaring64_def wf_roaring_def wf_container_def upt_conv_Cons)
  moreover have "length (roaring64_bytes ?bs) + 4 < 2 ^ 32"
    by (simp add: roaring64_bytes_def serialize_roaring32_def descriptor_bytes_def body_bytes_def)
  moreover have "sort (roaring64_values ?bs) = [3, 65541, 65542, 65543]"
    by (simp add: roaring64_values_def roaring_values_def upt_conv_Cons)
  ultimately show ?thesis
    using deletion_vector_round_trip [of ?bs "[7]" "[9]"] by (intro exI [of _ "deletion_vector_blob ?bs"]) simp
qed

lemma decode_sorted: "decode_deletion_vector blob = Inr ps \<Longrightarrow> sorted ps"
  unfolding decode_deletion_vector_def Let_def result_elims by (elim conjE exE) (simp only: sum.inject, elim subst, simp)

text \<open>
  C13: whatever the file contains, the reader stays inside of the blob. It returns an ascending list, throws
  a documented error, or runs into undefined behaviour in one way only: a bitmap whose container count
  has the sign bit set, which the reader does not check. In particular the subtraction of the magic
  number's length never wraps.
\<close>

theorem deletion_vector_reads_inside:
  "case read_deletion_vector content offset n of
     Inl (Undefined_behaviour e) \<Rightarrow> e = ''pointer overflow''
   | Inl e \<Rightarrow> True
   | Inr positions \<Rightarrow> sorted positions"
proof -
  have "safe (read_deletion_vector content offset n)"
    by (auto simp: read_deletion_vector_def split: option.split intro!: safe_throw decode_safe)
  moreover have "sorted ps" if r: "read_deletion_vector content offset n = Inr ps" for ps
  proof (cases content)
    case None
    then show ?thesis using r by (simp add: read_deletion_vector_def throw_if_eq_Inr)
  next
    case (Some bytes)
    then have "decode_deletion_vector (take (nat n) (drop (nat offset) bytes)) = Inr ps"
      using r by (simp add: read_deletion_vector_def throw_if_eq_Inr)
    then show ?thesis by (rule decode_sorted)
  qed
  ultimately show ?thesis
    by (cases "read_deletion_vector content offset n") (auto simp: safe_def split: sirius_error.split)
qed

end
