(* ===== verification/Gcs_Wire.thy ===== *)
theory Gcs_Wire
  imports Sirius_Prelude
begin

unbundle bit_operations_syntax

text \<open>
  The extraction of object bytes from storage responses (\<^verbatim>\<open>io/gcs/gcs_wire.cpp\<close>, \<^verbatim>\<open>include/io/gcs/gcs_wire.hpp\<close>): a
  walk over the protobuf wire format of a message that arrives as a sequence of slices. The cursor is
  modelled with its slice index, offset and logical position. 64-bit values are naturals with the truncation of
  shifts, casts and subtractions written out.
\<close>

type_synonym octet = "8 word"
type_synonym slice_seq = "octet list list"

section \<open>The cursor\<close>

record cursor =
  slices :: slice_seq
  si :: nat
  off :: nat
  pos :: nat
  total :: nat

definition make_cursor :: "slice_seq \<Rightarrow> cursor" where
  "make_cursor ss = \<lparr>slices = ss, si = 0, off = 0, pos = 0, total = sum_list (map length ss)\<rparr>"

function settle :: "cursor \<Rightarrow> cursor" where
  "settle c =
     (if si c < length (slices c) \<and> length (slices c ! si c) \<le> off c then settle (c\<lparr>si := si c + 1, off := 0\<rparr>) else c)"
  by pat_completeness auto
termination
  by (relation "measure (\<lambda>c. length (slices c) - si c)") auto

declare settle.simps [simp del]

definition read_byte :: "cursor \<Rightarrow> (octet \<times> cursor) option" where
  "read_byte c0 =
     (let c = settle c0 in
      if si c \<ge> length (slices c) then None
      else Some (slices c ! si c ! off c, c\<lparr>off := off c + 1, pos := pos c + 1\<rparr>))"

text \<open>The loop over the shifts.\<close>

fun read_varint_from :: "nat list \<Rightarrow> nat \<Rightarrow> cursor \<Rightarrow> (nat \<times> cursor) option" where
  "read_varint_from [] result c = None"
| "read_varint_from (shift # shifts) result c =
     (case read_byte c of
        None \<Rightarrow> None
      | Some (b, c') \<Rightarrow>
          let result = result OR take_bit 64 (push_bit shift (unat (b AND 0x7F))) in
          if b AND 0x80 = 0 then Some (result, c') else read_varint_from shifts result c')"

definition read_varint :: "cursor \<Rightarrow> (nat \<times> cursor) option" where
  "read_varint c = read_varint_from [0, 7, 14, 21, 28, 35, 42, 49, 56, 63] 0 c"

function skip_bytes :: "nat \<Rightarrow> cursor \<Rightarrow> cursor option" where
  "skip_bytes n c =
     (if n = 0 then Some c
      else if si c \<ge> length (slices c) then None
      else let avail = size_sub (length (slices c ! si c)) (off c) in
        if avail = 0 then skip_bytes n (c\<lparr>si := si c + 1, off := 0\<rparr>)
        else let t = (if avail < n then avail else n) in skip_bytes (n - t) (c\<lparr>off := off c + t\<rparr>))"
  by pat_completeness auto
termination
  by (relation "measures [\<lambda>(n, c). n, \<lambda>(n, c). length (slices c) - si c]") auto

declare skip_bytes.simps [simp del]

definition skip :: "nat \<Rightarrow> cursor \<Rightarrow> cursor option" where
  "skip n c = (if n > size_sub (total c) (pos c) then None else skip_bytes n (c\<lparr>pos := pos c + n\<rparr>))"

definition kWtVarint :: nat where "kWtVarint = 0"
definition kWt64Bit :: nat where "kWt64Bit = 1"
definition kWtLen :: nat where "kWtLen = 2"
definition kWt32Bit :: nat where "kWt32Bit = 5"

lemmas wire_types = kWtVarint_def kWt64Bit_def kWtLen_def kWt32Bit_def

definition skip_value :: "nat \<Rightarrow> cursor \<Rightarrow> cursor option" where
  "skip_value wt c =
     (if wt = kWtVarint then map_option snd (read_varint c)
      else if wt = kWt64Bit then skip 8 c
      else if wt = kWt32Bit then skip 4 c
      else if wt = kWtLen then (case read_varint c of None \<Rightarrow> None | Some (len, c') \<Rightarrow> skip len c')
      else None)"

definition read_tag :: "cursor \<Rightarrow> (nat \<times> nat \<times> cursor) option" where
  "read_tag c =
     (case read_varint c of
        None \<Rightarrow> None
      | Some (tag, c') \<Rightarrow>
          let field = take_bit 32 (drop_bit 3 tag); wt = tag AND 7 in
          if field = 0 then None else Some (field, wt, c'))"

section \<open>Every read makes progress\<close>

lemma pos_settle [simp]: "pos (settle c) = pos c"
  by (induction c rule: settle.induct) (subst settle.simps, simp)

lemma read_byte_pos: "read_byte c = Some (b, c') \<Longrightarrow> pos c' = pos c + 1"
  by (auto simp: read_byte_def Let_def split: if_splits)

lemma read_varint_from_pos: "read_varint_from shifts r c = Some (v, c') \<Longrightarrow> pos c < pos c'"
proof (induction shifts r c rule: read_varint_from.induct)
  case (2 shift shifts result c)
  from "2.prems" obtain b c1 where b: "read_byte c = Some (b, c1)" by (auto split: option.splits)
  show ?case
  proof (cases "b AND 0x80 = 0")
    case True
    then show ?thesis using "2.prems" b read_byte_pos [OF b] by simp
  next
    case False
    then have "pos c1 < pos c'" using 2 b by simp
    then show ?thesis using read_byte_pos [OF b] by simp
  qed
qed simp

lemma read_varint_pos: "read_varint c = Some (v, c') \<Longrightarrow> pos c < pos c'"
  unfolding read_varint_def by (rule read_varint_from_pos)

lemma skip_bytes_pos: "skip_bytes n c = Some c' \<Longrightarrow> pos c' = pos c"
  by (induction n c rule: skip_bytes.induct) (subst (asm) (2) skip_bytes.simps, auto simp: Let_def split: if_splits)

lemma skip_pos: "skip n c = Some c' \<Longrightarrow> pos c' = pos c + n"
  by (auto simp: skip_def dest: skip_bytes_pos split: if_splits)

lemma skip_value_pos: "skip_value wt c = Some c' \<Longrightarrow> pos c \<le> pos c'"
  by (auto simp: skip_value_def dest!: read_varint_pos skip_pos split: if_splits option.splits)

lemma read_tag_pos: "read_tag c = Some (f, wt, c') \<Longrightarrow> pos c < pos c'"
  by (auto simp: read_tag_def Let_def dest: read_varint_pos split: if_splits option.splits)

section \<open>The walks over messages\<close>

record content_extent =
  offset :: nat
  extent_length :: nat

record read_object_result =
  ok :: bool
  content :: "content_extent list"

record bidi_range_result =
  read_id :: int
  has_read_id :: bool
  range_end :: bool
  has_checksummed_data :: bool
  range_content :: "content_extent list"

record bidi_result =
  bidi_ok :: bool
  ranges :: "bidi_range_result list"

definition kReadObjectResponse_checksummed_data :: nat where "kReadObjectResponse_checksummed_data = 1"
definition kChecksummedData_content :: nat where "kChecksummedData_content = 1"
definition kBidiReadObjectResponse_ranges :: nat where "kBidiReadObjectResponse_ranges = 1"
definition kObjectRangeData_checksummed_data :: nat where "kObjectRangeData_checksummed_data = 1"
definition kObjectRangeData_read_range :: nat where "kObjectRangeData_read_range = 2"
definition kObjectRangeData_range_end :: nat where "kObjectRangeData_range_end = 3"
definition kReadRange_read_id :: nat where "kReadRange_read_id = 3"

lemmas field_numbers = kReadObjectResponse_checksummed_data_def kChecksummedData_content_def
  kBidiReadObjectResponse_ranges_def kObjectRangeData_checksummed_data_def kObjectRangeData_read_range_def
  kObjectRangeData_range_end_def kReadRange_read_id_def

text \<open>
  The walks return the collected data and the cursor, or no cursor when the code returns false; the cursor is not
  used after a failure. Positions beyond the end make the subtraction wrap, as in the code.
\<close>

function walk_checksummed :: "nat \<Rightarrow> cursor \<Rightarrow> content_extent list \<Rightarrow> content_extent list \<times> cursor option" where
  "walk_checksummed end_pos c out =
     (if pos c < end_pos then
        case read_tag c of
          None \<Rightarrow> (out, None)
        | Some (field, wt, c1) \<Rightarrow>
            if field = kChecksummedData_content \<and> wt = kWtLen then
              case read_varint c1 of
                None \<Rightarrow> (out, None)
              | Some (len, c2) \<Rightarrow>
                  let start = pos c2 in
                  if len > size_sub end_pos start then (out, None)
                  else
                    let out = out @ [\<lparr>offset = start, extent_length = len\<rparr>] in
                    (case skip len c2 of None \<Rightarrow> (out, None) | Some c3 \<Rightarrow> walk_checksummed end_pos c3 out)
            else (case skip_value wt c1 of None \<Rightarrow> (out, None) | Some c2 \<Rightarrow> walk_checksummed end_pos c2 out)
      else (out, if pos c = end_pos then Some c else None))"
  by pat_completeness auto
termination
  by (relation "measure (\<lambda>(e, c, out). e - pos c)") (auto dest!: read_tag_pos read_varint_pos skip_pos skip_value_pos)

function walk_read_range :: "nat \<Rightarrow> cursor \<Rightarrow> bidi_range_result \<Rightarrow> (bidi_range_result \<times> cursor) option" where
  "walk_read_range end_pos c rr =
     (if pos c < end_pos then
        case read_tag c of
          None \<Rightarrow> None
        | Some (field, wt, c1) \<Rightarrow>
            if field = kReadRange_read_id \<and> wt = kWtVarint then
              case read_varint c1 of
                None \<Rightarrow> None
              | Some (v, c2) \<Rightarrow>
                  walk_read_range end_pos c2 (rr\<lparr>read_id := signed_take_bit 63 (int v), has_read_id := True\<rparr>)
            else (case skip_value wt c1 of None \<Rightarrow> None | Some c2 \<Rightarrow> walk_read_range end_pos c2 rr)
      else if pos c = end_pos then Some (rr, c) else None)"
  by pat_completeness auto
termination
  by (relation "measure (\<lambda>(e, c, rr). e - pos c)") (auto dest!: read_tag_pos read_varint_pos skip_value_pos)

declare walk_checksummed.simps [simp del] walk_read_range.simps [simp del]

text \<open>The walk of a submessage: its end is computed before the length is checked against the enclosing message.\<close>

definition enter_message :: "nat \<Rightarrow> cursor \<Rightarrow> (nat \<times> cursor) option" where
  "enter_message end_pos c =
     (case read_varint c of
        None \<Rightarrow> None
      | Some (len, c1) \<Rightarrow>
          let sub_end = take_bit 64 (pos c1 + len) in
          if len > size_sub end_pos (pos c1) then None else Some (sub_end, c1))"

lemmas progress = read_tag_pos read_varint_pos skip_pos skip_value_pos

lemma enter_message_pos: "enter_message end_pos c = Some (sub_end, c') \<Longrightarrow> pos c < pos c'"
  by (auto simp: enter_message_def Let_def dest!: progress split: option.splits if_splits)

text \<open>A successful walk ends at the end of its message, and what it collected lies inside.\<close>

definition inside :: "nat \<Rightarrow> nat \<Rightarrow> content_extent list \<Rightarrow> bool" where
  "inside a b xs \<longleftrightarrow> (\<forall>x \<in> set xs. a \<le> offset x \<and> offset x + extent_length x \<le> b)"

lemma inside_simps [simp]:
  "inside a b []"
  "inside a b (x # xs) \<longleftrightarrow> a \<le> offset x \<and> offset x + extent_length x \<le> b \<and> inside a b xs"
  "inside a b (xs @ ys) \<longleftrightarrow> inside a b xs \<and> inside a b ys"
  by (auto simp: inside_def)

lemma inside_mono: "inside a b xs \<Longrightarrow> a' \<le> a \<Longrightarrow> b \<le> b' \<Longrightarrow> inside a' b' xs"
  by (fastforce simp: inside_def)

lemma walk_checksummed_inside:
  "walk_checksummed e c out = (out', Some c') \<Longrightarrow> pos c \<le> e \<and> pos c' = e \<and> (\<exists>xs. out' = out @ xs \<and> inside (pos c) e xs)"
proof (induction e c out rule: walk_checksummed.induct)
  case (1 e c out)
  show ?case
  proof (cases "pos c < e")
    case False
    then show ?thesis using "1.prems" by (subst (asm) walk_checksummed.simps) (auto split: if_splits)
  next
    case True
    with "1.prems" obtain f wt c1 where tag: "read_tag c = Some (f, wt, c1)"
      by (subst (asm) walk_checksummed.simps) (auto split: option.splits)
    show ?thesis
    proof (cases "f = kChecksummedData_content \<and> wt = kWtLen")
      case c: True
      with "1.prems" True tag obtain len c2 c3 where s: "read_varint c1 = Some (len, c2)" "\<not> len > size_sub e (pos c2)"
        "skip len c2 = Some c3" "walk_checksummed e c3 (out @ [\<lparr>offset = pos c2, extent_length = len\<rparr>]) = (out', Some c')"
        by (subst (asm) walk_checksummed.simps) (auto simp: Let_def split: option.splits if_splits)
      then have "pos c3 \<le> e \<and> pos c' = e \<and>
          (\<exists>xs. out' = (out @ [\<lparr>offset = pos c2, extent_length = len\<rparr>]) @ xs \<and> inside (pos c3) e xs)"
        using "1.IH" (1) [OF True tag refl refl c s(1) refl refl s(2) refl s(3)] by simp
      then show ?thesis
        using progress(1) [OF tag] progress(2) [OF s(1)] progress(3) [OF s(3)] by (auto elim!: inside_mono)
    next
      case c: False
      with "1.prems" True tag obtain c2 where s: "skip_value wt c1 = Some c2" "walk_checksummed e c2 out = (out', Some c')"
        by (subst (asm) walk_checksummed.simps) (auto split: option.splits)
      then have "pos c2 \<le> e \<and> pos c' = e \<and> (\<exists>xs. out' = out @ xs \<and> inside (pos c2) e xs)"
        using "1.IH" (2) [OF True tag refl refl c s(1)] by simp
      then show ?thesis
        using progress(1) [OF tag] progress(4) [OF s(1)] by (auto elim!: inside_mono)
    qed
  qed
qed

lemma walk_checksummed_pos: "(out', Some c') = walk_checksummed e c out \<Longrightarrow> pos c \<le> pos c'"
  using walk_checksummed_inside [of e c out out' c'] by simp

lemma walk_read_range_keeps:
  "walk_read_range e c rr = Some (rr', c') \<Longrightarrow> pos c \<le> e \<and> pos c' = e \<and> range_content rr' = range_content rr"
proof (induction e c rr rule: walk_read_range.induct)
  case (1 e c rr)
  show ?case
  proof (cases "pos c < e")
    case False
    then show ?thesis using "1.prems" by (subst (asm) walk_read_range.simps) (auto split: if_splits)
  next
    case True
    with "1.prems" obtain f wt c1 where tag: "read_tag c = Some (f, wt, c1)"
      by (subst (asm) walk_read_range.simps) (auto split: option.splits)
    show ?thesis
    proof (cases "f = kReadRange_read_id \<and> wt = kWtVarint")
      case c: True
      with "1.prems" True tag obtain v c2 where s: "read_varint c1 = Some (v, c2)"
        "walk_read_range e c2 (rr\<lparr>read_id := signed_take_bit 63 (int v), has_read_id := True\<rparr>) = Some (rr', c')"
        by (subst (asm) walk_read_range.simps) (auto split: option.splits)
      then show ?thesis using "1.IH" (1) [OF True tag refl refl c s(1) refl s(2)] progress(1) [OF tag] progress(2) [OF s(1)] by simp
    next
      case c: False
      with "1.prems" True tag obtain c2 where s: "skip_value wt c1 = Some c2" "walk_read_range e c2 rr = Some (rr', c')"
        by (subst (asm) walk_read_range.simps) (auto split: option.splits)
      then show ?thesis using "1.IH" (2) [OF True tag refl refl c s] progress(1) [OF tag] progress(4) [OF s(1)] by simp
    qed
  qed
qed

function walk_object_range :: "nat \<Rightarrow> cursor \<Rightarrow> bidi_range_result \<Rightarrow> (bidi_range_result \<times> cursor) option" where
  "walk_object_range end_pos c rr =
     (if pos c < end_pos then
        case read_tag c of
          None \<Rightarrow> None
        | Some (field, wt, c1) \<Rightarrow>
            if field = kObjectRangeData_checksummed_data \<and> wt = kWtLen then
              case enter_message end_pos c1 of
                None \<Rightarrow> None
              | Some (sub_end, c2) \<Rightarrow>
                  (case walk_checksummed sub_end c2 (range_content rr) of
                     (out, None) \<Rightarrow> None
                   | (out, Some c3) \<Rightarrow>
                       walk_object_range end_pos c3 (rr\<lparr>has_checksummed_data := True, range_content := out\<rparr>))
            else if field = kObjectRangeData_read_range \<and> wt = kWtLen then
              case enter_message end_pos c1 of
                None \<Rightarrow> None
              | Some (sub_end, c2) \<Rightarrow>
                  (case walk_read_range sub_end c2 rr of None \<Rightarrow> None | Some (rr, c3) \<Rightarrow> walk_object_range end_pos c3 rr)
            else if field = kObjectRangeData_range_end \<and> wt = kWtVarint then
              case read_varint c1 of
                None \<Rightarrow> None
              | Some (v, c2) \<Rightarrow> walk_object_range end_pos c2 (rr\<lparr>range_end := v \<noteq> 0\<rparr>)
            else (case skip_value wt c1 of None \<Rightarrow> None | Some c2 \<Rightarrow> walk_object_range end_pos c2 rr)
      else if pos c = end_pos then Some (rr, c) else None)"
  by pat_completeness auto
termination
  by (relation "measure (\<lambda>(e, c, rr). e - pos c)")
    (auto dest!: progress enter_message_pos walk_checksummed_pos walk_read_range_keeps)

declare walk_object_range.simps [simp del]

lemma walk_object_range_inside: "walk_object_range e c rr = Some (rr', c') \<Longrightarrow> pos c \<le> e \<and> pos c' = e \<and>
    (\<exists>xs. range_content rr' = range_content rr @ xs \<and> inside (pos c) e xs)"
proof (induction e c rr rule: walk_object_range.induct)
  case (1 e c rr)
  show ?case
  proof (cases "pos c < e")
    case False
    then show ?thesis using "1.prems" by (subst (asm) walk_object_range.simps) (auto split: if_splits)
  next
    case True
    with "1.prems" obtain f wt c1 where tag: "read_tag c = Some (f, wt, c1)"
      by (subst (asm) walk_object_range.simps) (auto split: option.splits)
    note IH = "1.IH" [OF True tag refl refl]
    from True tag "1.prems" consider
      (data) sub c2 out c3 where "f = kObjectRangeData_checksummed_data \<and> wt = kWtLen" "enter_message e c1 = Some (sub, c2)"
        "walk_checksummed sub c2 (range_content rr) = (out, Some c3)"
        "walk_object_range e c3 (rr\<lparr>has_checksummed_data := True, range_content := out\<rparr>) = Some (rr', c')"
    | (range) sub c2 rr2 c3 where "\<not> (f = kObjectRangeData_checksummed_data \<and> wt = kWtLen)"
        "f = kObjectRangeData_read_range \<and> wt = kWtLen" "enter_message e c1 = Some (sub, c2)"
        "walk_read_range sub c2 rr = Some (rr2, c3)" "walk_object_range e c3 rr2 = Some (rr', c')"
    | (eof) v c2 where "\<not> (f = kObjectRangeData_checksummed_data \<and> wt = kWtLen)"
        "\<not> (f = kObjectRangeData_read_range \<and> wt = kWtLen)"
        "f = kObjectRangeData_range_end \<and> wt = kWtVarint" "read_varint c1 = Some (v, c2)"
        "walk_object_range e c2 (rr\<lparr>range_end := v \<noteq> 0\<rparr>) = Some (rr', c')"
    | (other) c2 where "\<not> (f = kObjectRangeData_checksummed_data \<and> wt = kWtLen)"
        "\<not> (f = kObjectRangeData_read_range \<and> wt = kWtLen)" "\<not> (f = kObjectRangeData_range_end \<and> wt = kWtVarint)"
        "skip_value wt c1 = Some c2" "walk_object_range e c2 rr = Some (rr', c')"
      by (subst (asm) walk_object_range.simps) (auto split: option.splits if_splits prod.splits)
    then show ?thesis
    proof cases
      case data
      then show ?thesis
        using IH(1) [OF data(1,2) refl data(3) [symmetric] refl data(4)] progress(1) [OF tag]
          enter_message_pos [OF data(2)] walk_checksummed_inside [OF data(3)]
        by (auto elim!: inside_mono)
    next
      case range
      then show ?thesis
        using IH(2) [OF range(1-3) refl range(4) refl range(5)] progress(1) [OF tag]
          enter_message_pos [OF range(3)] walk_read_range_keeps [OF range(4)]
        by (auto elim!: inside_mono)
    next
      case eof
      then show ?thesis
        using IH(3) [OF eof(1-4) refl eof(5)] progress(1) [OF tag] progress(2) [OF eof(4)] by (auto elim!: inside_mono)
    next
      case other
      then show ?thesis
        using IH(4) [OF other] progress(1) [OF tag] progress(4) [OF other(4)] by (auto elim!: inside_mono)
    qed
  qed
qed

text \<open>The loops of the two extractors.\<close>

function read_object_loop :: "nat \<Rightarrow> cursor \<Rightarrow> content_extent list \<Rightarrow> content_extent list \<times> cursor option" where
  "read_object_loop end_pos c out =
     (if pos c < end_pos then
        case read_tag c of
          None \<Rightarrow> (out, None)
        | Some (field, wt, c1) \<Rightarrow>
            if field = kReadObjectResponse_checksummed_data \<and> wt = kWtLen then
              case enter_message end_pos c1 of
                None \<Rightarrow> (out, None)
              | Some (sub_end, c2) \<Rightarrow>
                  (case walk_checksummed sub_end c2 out of
                     (out, None) \<Rightarrow> (out, None)
                   | (out, Some c3) \<Rightarrow> read_object_loop end_pos c3 out)
            else (case skip_value wt c1 of None \<Rightarrow> (out, None) | Some c2 \<Rightarrow> read_object_loop end_pos c2 out)
      else (out, Some c))"
  by pat_completeness auto
termination
  by (relation "measure (\<lambda>(e, c, out). e - pos c)") (auto dest!: progress enter_message_pos walk_checksummed_pos)

definition extract_read_object_response :: "slice_seq \<Rightarrow> read_object_result" where
  "extract_read_object_response ss =
     (let c = make_cursor ss; end_pos = total c in
      case read_object_loop end_pos c [] of
        (out, None) \<Rightarrow> \<lparr>ok = False, content = out\<rparr>
      | (out, Some c') \<Rightarrow> \<lparr>ok = (pos c' = end_pos), content = out\<rparr>)"

definition new_range :: bidi_range_result where
  "new_range = \<lparr>read_id = 0, has_read_id = False, range_end = False, has_checksummed_data = False, range_content = []\<rparr>"

function bidi_loop :: "nat \<Rightarrow> cursor \<Rightarrow> bidi_range_result list \<Rightarrow> bidi_range_result list \<times> cursor option" where
  "bidi_loop end_pos c out =
     (if pos c < end_pos then
        case read_tag c of
          None \<Rightarrow> (out, None)
        | Some (field, wt, c1) \<Rightarrow>
            if field = kBidiReadObjectResponse_ranges \<and> wt = kWtLen then
              case enter_message end_pos c1 of
                None \<Rightarrow> (out, None)
              | Some (sub_end, c2) \<Rightarrow>
                  (case walk_object_range sub_end c2 new_range of
                     None \<Rightarrow> (out, None)
                   | Some (rr, c3) \<Rightarrow> bidi_loop end_pos c3 (out @ [rr]))
            else (case skip_value wt c1 of None \<Rightarrow> (out, None) | Some c2 \<Rightarrow> bidi_loop end_pos c2 out)
      else (out, Some c))"
  by pat_completeness auto
termination
  by (relation "measure (\<lambda>(e, c, out). e - pos c)") (auto dest!: progress enter_message_pos walk_object_range_inside)

declare read_object_loop.simps [simp del] bidi_loop.simps [simp del]

definition extract_bidi_read_object_response :: "slice_seq \<Rightarrow> bidi_result" where
  "extract_bidi_read_object_response ss =
     (let c = make_cursor ss; end_pos = total c in
      case bidi_loop end_pos c [] of
        (out, None) \<Rightarrow> \<lparr>bidi_ok = False, ranges = out\<rparr>
      | (out, Some c') \<Rightarrow> \<lparr>bidi_ok = (pos c' = end_pos), ranges = out\<rparr>)"

text \<open>The pieces of an extent, as they are passed to the sink, and the number of bytes visited.\<close>

fun for_each_span_loop :: "slice_seq \<Rightarrow> nat \<Rightarrow> nat \<Rightarrow> nat \<Rightarrow> octet list list \<times> nat" where
  "for_each_span_loop [] remaining skp visited = ([], visited)"
| "for_each_span_loop (s # ss) remaining skp visited =
     (if remaining = 0 then ([], visited)
      else if skp \<ge> length s then for_each_span_loop ss remaining (skp - length s) visited
      else
        let avail = length s - skp; n = (if avail < remaining then avail else remaining);
            (sunk, v) = for_each_span_loop ss (remaining - n) 0 (visited + n)
        in (take n (drop skp s) # sunk, v))"

definition for_each_span :: "slice_seq \<Rightarrow> content_extent \<Rightarrow> octet list list \<times> nat" where
  "for_each_span ss ext = for_each_span_loop ss (extent_length ext) (offset ext) 0"

section \<open>The extents lie inside of the message\<close>

definition extent_bytes :: "slice_seq \<Rightarrow> content_extent \<Rightarrow> octet list" where
  "extent_bytes ss x = take (extent_length x) (drop (offset x) (concat ss))"

lemma for_each_span_loop_eq:
  "concat (fst (for_each_span_loop ss n k v)) = take n (drop k (concat ss)) \<and>
   snd (for_each_span_loop ss n k v) = v + min n (length (concat ss) - k)"
proof (induction ss n k v rule: for_each_span_loop.induct)
  case (2 s ss n k v)
  then show ?case
    by (cases "n = 0"; cases "length s \<le> k")
      (auto simp: Let_def case_prod_beta min_def)
qed simp

lemma for_each_span_bytes:
  "concat (fst (for_each_span ss x)) = extent_bytes ss x"
  "snd (for_each_span ss x) = length (extent_bytes ss x)"
  using for_each_span_loop_eq [of ss "extent_length x" "offset x" 0]
  by (auto simp: for_each_span_def extent_bytes_def min.commute)

lemma read_object_loop_inside:
  "read_object_loop e c out = (out', Some c') \<Longrightarrow>
   pos c \<le> pos c' \<and> (\<exists>xs. out' = out @ xs \<and> inside (pos c) (pos c') xs)"
proof (induction e c out rule: read_object_loop.induct)
  case (1 e c out)
  show ?case
  proof (cases "pos c < e")
    case False
    then show ?thesis using "1.prems" by (subst (asm) read_object_loop.simps) auto
  next
    case True
    with "1.prems" obtain f wt c1 where tag: "read_tag c = Some (f, wt, c1)"
      by (subst (asm) read_object_loop.simps) (auto split: option.splits)
    note IH = "1.IH" [OF True tag refl refl]
    from True tag "1.prems" consider
      (data) sub c2 out2 c3 where "f = kReadObjectResponse_checksummed_data \<and> wt = kWtLen"
        "enter_message e c1 = Some (sub, c2)" "walk_checksummed sub c2 out = (out2, Some c3)"
        "read_object_loop e c3 out2 = (out', Some c')"
    | (other) c2 where "\<not> (f = kReadObjectResponse_checksummed_data \<and> wt = kWtLen)"
        "skip_value wt c1 = Some c2" "read_object_loop e c2 out = (out', Some c')"
      by (subst (asm) read_object_loop.simps) (auto split: option.splits if_splits prod.splits)
    then show ?thesis
    proof cases
      case data
      then show ?thesis
        using IH(1) [OF data(1,2) refl data(3) [symmetric] refl data(4)] progress(1) [OF tag]
          enter_message_pos [OF data(2)] walk_checksummed_inside [OF data(3)]
        by (auto elim!: inside_mono)
    next
      case other
      then show ?thesis
        using IH(2) [OF other] progress(1) [OF tag] progress(4) [OF other(2)] by (auto elim!: inside_mono)
    qed
  qed
qed

lemma bidi_loop_inside:
  "bidi_loop e c out = (out', Some c') \<Longrightarrow>
   pos c \<le> pos c' \<and> (\<exists>rs. out' = out @ rs \<and> (\<forall>r \<in> set rs. inside (pos c) (pos c') (range_content r)))"
proof (induction e c out rule: bidi_loop.induct)
  case (1 e c out)
  show ?case
  proof (cases "pos c < e")
    case False
    then show ?thesis using "1.prems" by (subst (asm) bidi_loop.simps) auto
  next
    case True
    with "1.prems" obtain f wt c1 where tag: "read_tag c = Some (f, wt, c1)"
      by (subst (asm) bidi_loop.simps) (auto split: option.splits)
    note IH = "1.IH" [OF True tag refl refl]
    from True tag "1.prems" consider
      (range) sub c2 rr c3 where "f = kBidiReadObjectResponse_ranges \<and> wt = kWtLen"
        "enter_message e c1 = Some (sub, c2)" "walk_object_range sub c2 new_range = Some (rr, c3)"
        "bidi_loop e c3 (out @ [rr]) = (out', Some c')"
    | (other) c2 where "\<not> (f = kBidiReadObjectResponse_ranges \<and> wt = kWtLen)"
        "skip_value wt c1 = Some c2" "bidi_loop e c2 out = (out', Some c')"
      by (subst (asm) bidi_loop.simps) (auto split: option.splits if_splits prod.splits)
    then show ?thesis
    proof cases
      case range
      have n: "range_content new_range = []" by (simp add: new_range_def)
      show ?thesis
        using IH(1) [OF range(1,2) refl range(3) refl range(4)] progress(1) [OF tag] n
          enter_message_pos [OF range(2)] walk_object_range_inside [OF range(3)]
        by (fastforce elim!: inside_mono)
    next
      case other
      then show ?thesis
        using IH(2) [OF other] progress(1) [OF tag] progress(4) [OF other(2)] by (fastforce elim!: inside_mono)
    qed
  qed
qed

lemma total_make_cursor [simp]: "total (make_cursor ss) = length (concat ss)" "pos (make_cursor ss) = 0"
  by (simp_all add: make_cursor_def length_concat)

end
