(* ===== verification/Gcs_Message.thy ===== *)
theory Gcs_Message
  imports Gcs_Wire
begin

unbundle bit_operations_syntax

text \<open>
  The messages that a storage server sends, as trees with their protobuf encoding, and the proof that the walks of
  \<open>Gcs_Wire\<close> find the object bytes in every encoding, however it is cut into slices. The encoder is the
  specification of the wire format; it has no counterpart in the sources.
\<close>

section \<open>The cursor reads the concatenated slices\<close>

definition reads :: "slice_seq \<Rightarrow> cursor \<Rightarrow> octet list \<Rightarrow> bool" where
  "reads ss c bs \<longleftrightarrow> slices c = ss \<and> total c = length (concat ss) \<and> length (concat ss) < 2 ^ 64 \<and>
     si c \<le> length ss \<and> off c \<le> (if si c < length ss then length (ss ! si c) else 0) \<and>
     pos c = length (concat (take (si c) ss)) + off c \<and> drop (pos c) (concat ss) = bs"

lemma concat_take_Suc: "i < length ss \<Longrightarrow> length (concat (take (Suc i) ss)) = length (concat (take i ss)) + length (ss ! i)"
  by (simp add: take_Suc_conv_app_nth)

lemma reads_pos: "reads ss c bs \<Longrightarrow> pos c + length bs = length (concat ss)"
proof -
  assume r: "reads ss c bs"
  have "pos c \<le> length (concat ss)"
  proof (cases "si c < length ss")
    case True
    then show ?thesis using r arg_cong [OF concat_split_at [OF True], of length] by (simp add: reads_def)
  next
    case False
    then show ?thesis using r by (simp add: reads_def)
  qed
  then show ?thesis using r by (auto simp: reads_def)
qed

lemma reads_make_cursor: "length (concat ss) < 2 ^ 64 \<Longrightarrow> reads ss (make_cursor ss) (concat ss)"
  by (simp add: reads_def make_cursor_def length_concat)

lemma reads_next_slice:
  "reads ss c bs \<Longrightarrow> si c < length ss \<Longrightarrow> length (ss ! si c) \<le> off c \<Longrightarrow> reads ss (c\<lparr>si := si c + 1, off := 0\<rparr>) bs"
  by (auto simp: reads_def concat_take_Suc)

lemma reads_settle:
  "reads ss c bs \<Longrightarrow> reads ss (settle c) bs \<and> (si (settle c) < length ss \<longrightarrow> off (settle c) < length (ss ! si (settle c)))"
proof (induction c rule: settle.induct)
  case (1 c)
  have sl: "slices c = ss" using "1.prems" by (simp add: reads_def)
  show ?case
  proof (cases "si c < length ss \<and> length (ss ! si c) \<le> off c")
    case True
    then show ?thesis using 1 sl reads_next_slice [OF "1.prems"] by (subst (1 2 3 4) settle.simps) simp
  next
    case False
    then have "settle c = c" using sl by (subst settle.simps) auto
    then show ?thesis using False 1 by auto
  qed
qed

lemma reads_drop:
  assumes "reads ss c bs" and "si c < length ss" and "off c + n \<le> length (ss ! si c)"
  shows "take n bs = take n (drop (off c) (ss ! si c))" and "reads ss (c\<lparr>off := off c + n, pos := pos c + n\<rparr>) (drop n bs)"
  using assms arg_cong [OF concat_split_at [OF assms(2)], of "drop (pos c)"]
  by (auto simp: reads_def add.commute simp flip: drop_drop)

lemma reads_byte:
  assumes "reads ss c (b # bs)"
  shows "\<exists>c'. read_byte c = Some (b, c') \<and> reads ss c' bs"
proof -
  let ?c = "settle c"
  note s = reads_settle [OF assms]
  have sl: "slices ?c = ss" using s by (simp add: reads_def)
  have i: "si ?c < length ss"
    using s reads_pos [of ss ?c] by (auto simp: reads_def not_less split: if_splits)
  then have o: "off ?c + 1 \<le> length (ss ! si ?c)" using s by simp
  have "take 1 (b # bs) = take 1 (drop (off ?c) (ss ! si ?c))" by (rule reads_drop(1)) (use s i o in auto)
  then have "b = ss ! si ?c ! off ?c" using o by (simp add: take_Suc_conv_app_nth hd_drop_conv_nth take_Suc)
  moreover have "reads ss (?c\<lparr>off := off ?c + 1, pos := pos ?c + 1\<rparr>) bs"
    using reads_drop(2) [of ss ?c "b # bs" 1] s i o by simp
  ultimately show ?thesis using i sl by (simp add: read_byte_def Let_def)
qed

lemma reads_skip_bytes:
  "reads ss (c\<lparr>pos := pos c - n\<rparr>) bs \<Longrightarrow> n \<le> pos c \<Longrightarrow> n \<le> length bs \<Longrightarrow>
   \<exists>c'. skip_bytes n c = Some c' \<and> reads ss c' (drop n bs)"
proof (induction n c arbitrary: bs rule: skip_bytes.induct)
  case (1 n c)
  show ?case
  proof (cases "n = 0")
    case True
    then show ?thesis using 1 by (subst skip_bytes.simps) simp
  next
    case False
    let ?c = "c\<lparr>pos := pos c - n\<rparr>"
    have r: "slices c = ss" "off c \<le> (if si c < length ss then length (ss ! si c) else 0)" "length (concat ss) < 2 ^ 64"
      using "1.prems"(1) by (auto simp: reads_def split: if_splits)
    have i: "si c < length ss"
      using "1.prems" False reads_pos [OF "1.prems"(1)] by (auto simp: reads_def not_less split: if_splits)
    have av: "size_sub (length (ss ! si c)) (off c) = length (ss ! si c) - off c"
      using r i arg_cong [OF concat_split_at [OF i], of length] by (subst size_sub_eq) auto
    show ?thesis
    proof (cases "length (ss ! si c) - off c = 0")
      case True
      have "reads ss (c\<lparr>si := si c + 1, off := 0, pos := pos c - n\<rparr>) bs"
        using reads_next_slice [OF "1.prems"(1)] i True by (auto simp: reads_def)
      then show ?thesis
        using "1.IH"(1) [of "size_sub (length (ss ! si c)) (off c)" bs] False i av True r "1.prems"
        by (subst skip_bytes.simps) simp
    next
      case ne: False
      let ?a = "size_sub (length (slices c ! si c)) (off c)"
      define t where "t = (if ?a < n then ?a else n)"
      have t: "off c + t \<le> length (ss ! si c)" "t \<le> n" using ne r(1,2) i av by (auto simp: t_def)
      have "reads ss (c\<lparr>off := off c + t, pos := pos c - n + t\<rparr>) (drop t bs)"
        using reads_drop(2) [OF "1.prems"(1), of t] i t by (auto simp: reads_def)
      then have "\<exists>c'. skip_bytes (n - t) (c\<lparr>off := off c + t\<rparr>) = Some c' \<and> reads ss c' (drop (n - t) (drop t bs))"
        using "1.IH"(2) [OF False _ refl _ t_def, of "drop t bs"] i av ne r(1) "1.prems"(2,3) t by simp
      moreover have "skip_bytes n c = skip_bytes (n - t) (c\<lparr>off := off c + t\<rparr>)"
        using False i av ne r(1) by (subst skip_bytes.simps) (simp add: t_def Let_def)
      ultimately show ?thesis using t(2) by simp
    qed
  qed
qed

lemma reads_skip:
  assumes "reads ss c (xs @ bs)"
  shows "\<exists>c'. skip (length xs) c = Some c' \<and> reads ss c' bs"
proof -
  have "pos c + length (xs @ bs) = length (concat ss)" using assms by (rule reads_pos)
  moreover from this have "size_sub (total c) (pos c) = length (xs @ bs)"
    using assms by (subst size_sub_eq) (auto simp: reads_def)
  ultimately show ?thesis
    using reads_skip_bytes [of ss "c\<lparr>pos := pos c + length xs\<rparr>" "length xs" "xs @ bs"] assms by (simp add: skip_def)
qed

section \<open>The wire format\<close>

fun enc_varint :: "nat \<Rightarrow> octet list" where
  "enc_varint v = (if v < 128 then [of_nat v] else of_nat (128 + v mod 128) # enc_varint (v div 128))"

declare enc_varint.simps [simp del]

lemma octet_fields:
  fixes w :: nat
  assumes "w < 256"
  shows "unat ((of_nat w :: octet) AND 0x7F) = w mod 128" and "(of_nat w :: octet) AND 0x80 = 0 \<longleftrightarrow> w < 128"
proof -
  have m: "(0x7F :: octet) = mask 7" by (simp add: mask_eq_exp_minus_1)
  show "unat ((of_nat w :: octet) AND 0x7F) = w mod 128"
    unfolding m take_bit_eq_mask [symmetric] unsigned_take_bit_eq using assms by (simp add: unat_of_nat take_bit_eq_mod)
  have a: "(of_nat w :: octet) AND 2 ^ 7 = 0 \<longleftrightarrow> \<not> bit (of_nat w :: octet) 7" by (rule and_exp_eq_0_iff_not_bit)
  have "bit (unat (of_nat w :: octet)) 7 \<longleftrightarrow> odd (w div 128)" using assms by (simp add: unat_of_nat bit_iff_odd)
  then have b: "bit (of_nat w :: octet) 7 \<longleftrightarrow> odd (w div 128)" by (simp add: bit_unsigned_iff)
  moreover have "odd (w div 128) \<longleftrightarrow> 128 \<le> w"
  proof -
    have "w div 128 < 2" using assms by (simp add: less_mult_imp_div_less)
    then show ?thesis by (cases "w div 128 = 0") (auto simp: div_eq_0_iff)
  qed
  ultimately show "(of_nat w :: octet) AND 0x80 = 0 \<longleftrightarrow> w < 128" using a by (simp add: not_le)
qed

text \<open>Each byte adds seven bits above the bits that are already there.\<close>

lemma varint_step:
  assumes "r < 2 ^ s" and "x < 128" and "r + x * 2 ^ s < 2 ^ 64"
  shows "r OR take_bit 64 (push_bit s x) = r + x * (2 :: nat) ^ s"
proof -
  have "take_bit 64 (push_bit s x) = push_bit s x"
    using assms(3) by (simp add: take_bit_nat_eq_self push_bit_eq_mult)
  then show ?thesis using push_bit_or_add [OF assms(1), of x] by (simp add: or.commute)
qed

lemma reads_varint_from:
  "reads ss c (enc_varint v @ bs) \<Longrightarrow> r < 2 ^ s \<Longrightarrow> r + v * 2 ^ s < 2 ^ 64 \<Longrightarrow> s \<le> 63 \<Longrightarrow>
   shifts = map (\<lambda>i. s + 7 * i) [0..<(70 - s) div 7] \<Longrightarrow>
   \<exists>c'. read_varint_from shifts r c = Some (r + v * 2 ^ s, c') \<and> reads ss c' bs"
proof (induction v arbitrary: c r s shifts rule: enc_varint.induct)
  case (1 v)
  have sh: "shifts = s # map (\<lambda>i. s + 7 + 7 * i) [0..<(70 - (s + 7)) div 7]"
  proof -
    have "70 - s = (70 - (s + 7)) + 7" using "1.prems"(4) by simp
    then have "(70 - s) div 7 = Suc ((70 - (s + 7)) div 7)" by (simp only: div_add_self2)
    then show ?thesis using "1.prems"(5) by (simp add: upt_conv_Cons o_def flip: map_Suc_upt del: upt_Suc)
  qed
  show ?case
  proof (cases "v < 128")
    case True
    then obtain c' where "read_byte c = Some (of_nat v, c')" "reads ss c' bs"
      using reads_byte [of ss c "of_nat v" bs] "1.prems"(1) by (subst (asm) enc_varint.simps) auto
    then show ?thesis
      using True sh octet_fields [of v] varint_step [OF "1.prems"(2) True "1.prems"(3)] by (simp add: Let_def)
  next
    case False
    let ?r = "r + v mod 128 * 2 ^ s"
    obtain c1 where b: "read_byte c = Some (of_nat (128 + v mod 128), c1)" "reads ss c1 (enc_varint (v div 128) @ bs)"
      using reads_byte [of ss c "of_nat (128 + v mod 128)" "enc_varint (v div 128) @ bs"] "1.prems"(1) False
      by (subst (asm) enc_varint.simps) auto
    have split: "?r + v div 128 * 2 ^ (s + 7) = r + v * 2 ^ s"
    proof -
      have "v * 2 ^ s = (v mod 128 + v div 128 * 128) * 2 ^ s" by simp
      then show ?thesis by (simp only: add_mult_distrib power_add) simp
    qed
    have lt: "?r < 2 ^ (s + 7)"
    proof -
      have "?r < 2 ^ s + v mod 128 * 2 ^ s" using "1.prems"(2) by simp
      also have "\<dots> = Suc (v mod 128) * 2 ^ s" by simp
      also have "\<dots> \<le> 128 * 2 ^ s" by (intro mult_right_mono) (simp_all add: Suc_le_eq)
      finally show ?thesis by (simp add: power_add)
    qed
    have s7: "s + 7 \<le> 63"
    proof (rule ccontr)
      assume "\<not> s + 7 \<le> 63"
      then have "(2 :: nat) ^ 57 \<le> 2 ^ s" by (intro power_increasing) auto
      then have "128 * 2 ^ 57 \<le> v * 2 ^ s" using False by (intro mult_mono) auto
      then show False using "1.prems"(3) by simp
    qed
    have lt64: "?r < 2 ^ 64" using split "1.prems"(3) by linarith
    from "1.IH" [OF False b(2) lt _ s7 refl] split "1.prems"(3) obtain c' where
      "read_varint_from (map (\<lambda>i. s + 7 + 7 * i) [0..<(70 - (s + 7)) div 7]) ?r c1 = Some (r + v * 2 ^ s, c')" "reads ss c' bs"
      by auto
    then show ?thesis
      using b sh octet_fields [of "128 + v mod 128"] varint_step [OF "1.prems"(2) _ lt64] by (simp add: Let_def)
  qed
qed

lemma reads_varint:
  assumes "reads ss c (enc_varint v @ bs)" and "v < 2 ^ 64"
  shows "\<exists>c'. read_varint c = Some (v, c') \<and> reads ss c' bs"
  using reads_varint_from [OF assms(1), of 0 0 "[0, 7, 14, 21, 28, 35, 42, 49, 56, 63]"] assms(2)
  by (simp add: read_varint_def upt_rec)

datatype wire_value = Varint nat | Fixed64 "octet list" | Len "octet list" | Fixed32 "octet list"

type_synonym wire_field = "nat \<times> wire_value"

fun wire_type :: "wire_value \<Rightarrow> nat" where
  "wire_type (Varint v) = kWtVarint"
| "wire_type (Fixed64 b) = kWt64Bit"
| "wire_type (Len b) = kWtLen"
| "wire_type (Fixed32 b) = kWt32Bit"

fun payload :: "wire_value \<Rightarrow> octet list" where
  "payload (Varint v) = enc_varint v"
| "payload (Fixed64 b) = b"
| "payload (Len b) = enc_varint (length b) @ b"
| "payload (Fixed32 b) = b"

definition enc_field :: "wire_field \<Rightarrow> octet list" where
  "enc_field f = enc_varint (fst f * 8 + wire_type (snd f)) @ payload (snd f)"

definition enc_fields :: "wire_field list \<Rightarrow> octet list" where
  "enc_fields fs = concat (map enc_field fs)"

fun wf_value :: "wire_value \<Rightarrow> bool" where
  "wf_value (Varint v) \<longleftrightarrow> v < 2 ^ 64"
| "wf_value (Fixed64 b) \<longleftrightarrow> length b = 8"
| "wf_value (Len b) \<longleftrightarrow> True"
| "wf_value (Fixed32 b) \<longleftrightarrow> length b = 4"

definition wf_field :: "wire_field \<Rightarrow> bool" where
  "wf_field f \<longleftrightarrow> 0 < fst f \<and> fst f < 2 ^ 29 \<and> wf_value (snd f)"

lemma enc_fields_simps [simp]:
  "enc_fields [] = []" "enc_fields (f # fs) = enc_field f @ enc_fields fs"
  by (simp_all add: enc_fields_def)

lemma enc_field_not_empty: "0 < length (enc_field f)"
  by (simp add: enc_field_def enc_varint.simps [of "fst f * 8 + wire_type (snd f)"])

lemma before_end:
  assumes "reads ss c (enc_field f @ r @ bs)" and "e + length bs = length (concat ss)"
  shows "pos c < e"
  using reads_pos [OF assms(1)] assms(2) enc_field_not_empty [of f] by (simp del: length_greater_0_conv)

lemma reads_tag:
  assumes "reads ss c (enc_field f @ bs)" and "wf_field f"
  shows "\<exists>c'. read_tag c = Some (fst f, wire_type (snd f), c') \<and> reads ss c' (payload (snd f) @ bs)"
proof -
  let ?t = "fst f * 8 + wire_type (snd f)"
  have w: "wire_type (snd f) < 8" by (cases "snd f") (simp_all add: wire_types)
  have f: "0 < fst f" "fst f < 2 ^ 29" using assms(2) by (simp_all add: wf_field_def)
  have "drop_bit 3 ?t = fst f" using w by (simp add: drop_bit_eq_div)
  then have "take_bit 32 (drop_bit 3 ?t) = fst f" using f by (simp add: take_bit_nat_eq_self)
  moreover have "?t AND 7 = wire_type (snd f)"
  proof -
    have "?t AND 7 = take_bit 3 ?t" by (simp add: take_bit_eq_mask mask_eq_exp_minus_1)
    then show ?thesis using w by (simp add: take_bit_eq_mod)
  qed
  moreover have "?t < 2 ^ 64" using f w by simp
  ultimately show ?thesis
    using reads_varint [of ss c ?t "payload (snd f) @ bs"] assms(1) f by (auto simp: read_tag_def enc_field_def Let_def)
qed

lemma reads_length:
  assumes "reads ss c (payload (Len b) @ bs)"
  shows "\<exists>c'. read_varint c = Some (length b, c') \<and> reads ss c' (b @ bs)"
proof -
  have "length b < 2 ^ 64" using reads_pos [OF assms] assms by (simp add: reads_def)
  then show ?thesis using reads_varint [of ss c "length b" "b @ bs"] assms by simp
qed

lemma reads_skip_value:
  assumes "reads ss c (payload v @ bs)" and "wf_value v"
  shows "\<exists>c'. skip_value (wire_type v) c = Some c' \<and> reads ss c' bs"
proof (cases v)
  case (Varint n)
  then show ?thesis using reads_varint [of ss c n bs] assms by (auto simp: skip_value_def wire_types)
next
  case (Fixed64 b)
  then show ?thesis using reads_skip [of ss c b bs] assms by (auto simp: skip_value_def wire_types)
next
  case (Len b)
  then obtain c1 where "read_varint c = Some (length b, c1)" "reads ss c1 (b @ bs)" using reads_length assms(1) by blast
  then show ?thesis using reads_skip [of ss c1 b bs] Len by (auto simp: skip_value_def wire_types)
next
  case (Fixed32 b)
  then show ?thesis using reads_skip [of ss c b bs] assms by (auto simp: skip_value_def wire_types)
qed

lemma reads_enter:
  assumes "reads ss c (payload (Len b) @ bs)" and "e + k = length (concat ss)" and "k \<le> length bs"
  shows "\<exists>c'. enter_message e c = Some (pos c' + length b, c') \<and> reads ss c' (b @ bs)"
proof -
  obtain c' where c: "read_varint c = Some (length b, c')" "reads ss c' (b @ bs)" using reads_length [OF assms(1)] by blast
  have p: "pos c' + length (b @ bs) = length (concat ss)" "length (concat ss) < 2 ^ 64"
    using reads_pos [OF c(2)] c(2) by (simp_all add: reads_def)
  then have "size_sub e (pos c') = e - pos c'" using assms(2,3) by (subst size_sub_eq) simp_all
  moreover have "length b \<le> e - pos c'" using p assms(2,3) by simp
  ultimately show ?thesis using c p by (simp add: enter_message_def Let_def take_bit_nat_eq_self)
qed

section \<open>Responses of the storage server\<close>

text \<open>A \<^verbatim>\<open>ChecksummedData\<close> message is a list of fields; its contents are the values of field 1.\<close>

fun field_content :: "wire_field \<Rightarrow> octet list list" where
  "field_content (n, Len b) = (if n = kChecksummedData_content then [b] else [])"
| "field_content f = []"

definition contents :: "wire_field list \<Rightarrow> octet list list" where
  "contents fs = concat (map field_content fs)"

lemma contents_simps [simp]: "contents [] = []" "contents (f # fs) = field_content f @ contents fs"
  by (simp_all add: contents_def)

lemma field_content_cases:
  "fst f = kChecksummedData_content \<and> wire_type (snd f) = kWtLen \<Longrightarrow> \<exists>b. f = (kChecksummedData_content, Len b)"
  "\<not> (fst f = kChecksummedData_content \<and> wire_type (snd f) = kWtLen) \<Longrightarrow> field_content f = []"
  by (cases f rule: field_content.cases; simp add: wire_types; cases "snd f"; simp add: wire_types)+

lemma extent_bytes_here:
  assumes "reads ss c (b @ bs)"
  shows "extent_bytes ss \<lparr>offset = pos c, extent_length = length b\<rparr> = b"
  using assms by (auto simp: extent_bytes_def reads_def)

lemma walk_checksummed_reads:
  "reads ss c (enc_fields fs @ bs) \<Longrightarrow> list_all wf_field fs \<Longrightarrow> e + length bs = length (concat ss) \<Longrightarrow>
   \<exists>c' xs. walk_checksummed e c out = (out @ xs, Some c') \<and> reads ss c' bs \<and> map (extent_bytes ss) xs = contents fs"
proof (induction fs arbitrary: c out)
  case Nil
  then have "pos c = e" using reads_pos [of ss c bs] by simp
  then show ?case using Nil by (subst walk_checksummed.simps) simp
next
  case (Cons f fs)
  have lt: "pos c < e" using before_end [of ss c f "enc_fields fs" bs] Cons.prems by simp
  have wf: "wf_field f" "wf_value (snd f)" "list_all wf_field fs" using Cons.prems(2) by (auto simp: wf_field_def [of f])
  obtain c1 where tag: "read_tag c = Some (fst f, wire_type (snd f), c1)" "reads ss c1 (payload (snd f) @ enc_fields fs @ bs)"
    using reads_tag [of ss c f "enc_fields fs @ bs"] Cons.prems(1) wf by auto
  show ?case
  proof (cases "fst f = kChecksummedData_content \<and> wire_type (snd f) = kWtLen")
    case True
    then obtain b where f: "f = (kChecksummedData_content, Len b)" using field_content_cases(1) by blast
    obtain c2 where c2: "read_varint c1 = Some (length b, c2)" "reads ss c2 (b @ enc_fields fs @ bs)"
      using reads_length [of ss c1 b] tag(2) f by auto
    obtain c3 where c3: "skip (length b) c2 = Some c3" "reads ss c3 (enc_fields fs @ bs)"
      using reads_skip [OF c2(2)] by blast
    let ?x = "\<lparr>offset = pos c2, extent_length = length b\<rparr>"
    obtain c' xs where w: "walk_checksummed e c3 (out @ [?x]) = ((out @ [?x]) @ xs, Some c')" "reads ss c' bs"
      "map (extent_bytes ss) xs = contents fs"
      using Cons.IH [OF c3(2) wf(3) Cons.prems(3)] by blast
    have "size_sub e (pos c2) = e - pos c2" "length b \<le> e - pos c2"
      using reads_pos [OF c2(2)] c2(2) Cons.prems(3) by (auto simp: reads_def size_sub_eq)
    then have "walk_checksummed e c out = (out @ ?x # xs, Some c')"
      using lt tag(1) True c2(1) c3(1) w(1) by (subst walk_checksummed.simps) (simp add: Let_def)
    then show ?thesis using w extent_bytes_here [OF c2(2)] f by auto
  next
    case False
    obtain c2 where c2: "skip_value (wire_type (snd f)) c1 = Some c2" "reads ss c2 (enc_fields fs @ bs)"
      using reads_skip_value [OF tag(2) wf(2)] by blast
    then show ?thesis
      using Cons.IH [OF c2(2) wf(3) Cons.prems(3), of out] lt tag(1) False field_content_cases(2) [OF False]
      by (subst walk_checksummed.simps) auto
  qed
qed

text \<open>A \<^verbatim>\<open>ReadObjectResponse\<close>.\<close>

datatype read_object_item = Checksummed "wire_field list" | Plain_field wire_field

fun item_field :: "read_object_item \<Rightarrow> wire_field" where
  "item_field (Checksummed fs) = (kReadObjectResponse_checksummed_data, Len (enc_fields fs))"
| "item_field (Plain_field f) = f"

fun wf_item :: "read_object_item \<Rightarrow> bool" where
  "wf_item (Checksummed fs) \<longleftrightarrow> list_all wf_field fs"
| "wf_item (Plain_field f) \<longleftrightarrow> wf_field f \<and> \<not> (fst f = kReadObjectResponse_checksummed_data \<and> wire_type (snd f) = kWtLen)"

fun item_contents :: "read_object_item \<Rightarrow> octet list list" where
  "item_contents (Checksummed fs) = contents fs"
| "item_contents (Plain_field f) = []"

lemma read_object_loop_reads:
  "reads ss c (enc_fields (map item_field is)) \<Longrightarrow> list_all wf_item is \<Longrightarrow> e = length (concat ss) \<Longrightarrow>
   \<exists>c' xs. read_object_loop e c out = (out @ xs, Some c') \<and> pos c' = e \<and>
     map (extent_bytes ss) xs = concat (map item_contents is)"
proof (induction "is" arbitrary: c out)
  case Nil
  then have "pos c = e" using reads_pos [of ss c "[]"] by simp
  then show ?case by (subst read_object_loop.simps) simp
next
  case (Cons i "is")
  let ?f = "item_field i" and ?r = "enc_fields (map item_field is)"
  have lt: "pos c < e" using before_end [of ss c ?f ?r "[]"] Cons.prems by simp
  have wf: "wf_field ?f" "list_all wf_item is"
    using Cons.prems(2) by (cases i; simp add: wf_field_def field_numbers)+
  obtain c1 where tag: "read_tag c = Some (fst ?f, wire_type (snd ?f), c1)" "reads ss c1 (payload (snd ?f) @ ?r)"
    using reads_tag [of ss c ?f ?r] Cons.prems(1) wf by auto
  show ?case
  proof (cases i)
    case (Checksummed fs)
    obtain c2 where c2: "enter_message e c1 = Some (pos c2 + length (enc_fields fs), c2)" "reads ss c2 (enc_fields fs @ ?r)"
      using reads_enter [of ss c1 "enc_fields fs" ?r e 0] tag(2) Cons.prems(3) Checksummed by auto
    obtain c3 xs where c3: "walk_checksummed (pos c2 + length (enc_fields fs)) c2 out = (out @ xs, Some c3)" "reads ss c3 ?r"
      "map (extent_bytes ss) xs = contents fs"
      using walk_checksummed_reads [OF c2(2), of "pos c2 + length (enc_fields fs)" out] reads_pos [OF c2(2)]
        Cons.prems(2) Checksummed by auto
    then show ?thesis
      using Cons.IH [OF c3(2) wf(2) Cons.prems(3), of "out @ xs"] lt tag(1) c2(1) Checksummed
      by (subst read_object_loop.simps) (auto simp: wire_types)
  next
    case (Plain_field f)
    obtain c2 where c2: "skip_value (wire_type (snd f)) c1 = Some c2" "reads ss c2 ?r"
      using reads_skip_value [OF tag(2)] wf(1) Plain_field by (auto simp: wf_field_def)
    then show ?thesis
      using Cons.IH [OF c2(2) wf(2) Cons.prems(3), of out] lt tag(1) Plain_field Cons.prems(2)
      by (subst read_object_loop.simps) auto
  qed
qed

lemma extract_read_object_reads:
  assumes "list_all wf_item is" and "concat ss = enc_fields (map item_field is)" and "length (concat ss) < 2 ^ 64"
  shows "ok (extract_read_object_response ss)"
    and "map (extent_bytes ss) (content (extract_read_object_response ss)) = concat (map item_contents is)"
  using read_object_loop_reads [of ss "make_cursor ss" "is" "length (concat ss)" "[]"] reads_make_cursor [OF assms(3)] assms(1,2)
  by (auto simp: extract_read_object_response_def Let_def)

text \<open>A \<^verbatim>\<open>BidiReadObjectResponse\<close>: what the result of a range means, and what each field contributes to it.\<close>

record range_view =
  view_id :: int
  view_has_id :: bool
  view_end :: bool
  view_has_data :: bool
  view_contents :: "octet list list"

definition view :: "slice_seq \<Rightarrow> bidi_range_result \<Rightarrow> range_view" where
  "view ss rr = \<lparr>view_id = read_id rr, view_has_id = has_read_id rr, view_end = range_end rr,
     view_has_data = has_checksummed_data rr, view_contents = map (\<lambda>x. concat (fst (for_each_span ss x))) (range_content rr)\<rparr>"

definition empty_view :: range_view where
  "empty_view = \<lparr>view_id = 0, view_has_id = False, view_end = False, view_has_data = False, view_contents = []\<rparr>"

fun apply_read_field :: "wire_field \<Rightarrow> range_view \<Rightarrow> range_view" where
  "apply_read_field (n, Varint v) rv =
     (if n = kReadRange_read_id then rv\<lparr>view_id := signed_take_bit 63 (int v), view_has_id := True\<rparr> else rv)"
| "apply_read_field f rv = rv"

datatype range_item = Range_data "wire_field list" | Range_read "wire_field list" | Range_end nat | Range_plain wire_field

fun range_field :: "range_item \<Rightarrow> wire_field" where
  "range_field (Range_data fs) = (kObjectRangeData_checksummed_data, Len (enc_fields fs))"
| "range_field (Range_read fs) = (kObjectRangeData_read_range, Len (enc_fields fs))"
| "range_field (Range_end v) = (kObjectRangeData_range_end, Varint v)"
| "range_field (Range_plain f) = f"

fun wf_range_item :: "range_item \<Rightarrow> bool" where
  "wf_range_item (Range_data fs) \<longleftrightarrow> list_all wf_field fs"
| "wf_range_item (Range_read fs) \<longleftrightarrow> list_all wf_field fs"
| "wf_range_item (Range_end v) \<longleftrightarrow> v < 2 ^ 64"
| "wf_range_item (Range_plain f) \<longleftrightarrow> wf_field f \<and>
     (fst f, wire_type (snd f)) \<notin> {(kObjectRangeData_checksummed_data, kWtLen), (kObjectRangeData_read_range, kWtLen),
       (kObjectRangeData_range_end, kWtVarint)}"

fun apply_item :: "range_item \<Rightarrow> range_view \<Rightarrow> range_view" where
  "apply_item (Range_data fs) rv = rv\<lparr>view_has_data := True, view_contents := view_contents rv @ contents fs\<rparr>"
| "apply_item (Range_read fs) rv = fold apply_read_field fs rv"
| "apply_item (Range_end v) rv = rv\<lparr>view_end := v \<noteq> 0\<rparr>"
| "apply_item (Range_plain f) rv = rv"

datatype bidi_item = Bidi_range "range_item list" | Bidi_plain wire_field

fun bidi_field :: "bidi_item \<Rightarrow> wire_field" where
  "bidi_field (Bidi_range is) = (kBidiReadObjectResponse_ranges, Len (enc_fields (map range_field is)))"
| "bidi_field (Bidi_plain f) = f"

fun wf_bidi_item :: "bidi_item \<Rightarrow> bool" where
  "wf_bidi_item (Bidi_range is) \<longleftrightarrow> list_all wf_range_item is"
| "wf_bidi_item (Bidi_plain f) \<longleftrightarrow> wf_field f \<and> \<not> (fst f = kBidiReadObjectResponse_ranges \<and> wire_type (snd f) = kWtLen)"

fun bidi_views :: "bidi_item \<Rightarrow> range_view list" where
  "bidi_views (Bidi_range is) = [fold apply_item is empty_view]"
| "bidi_views (Bidi_plain f) = []"

lemma apply_read_field_cases:
  "fst f = kReadRange_read_id \<and> wire_type (snd f) = kWtVarint \<Longrightarrow> \<exists>v. f = (kReadRange_read_id, Varint v)"
  "\<not> (fst f = kReadRange_read_id \<and> wire_type (snd f) = kWtVarint) \<Longrightarrow> apply_read_field f rv = rv"
  by (cases f; cases "snd f"; simp add: wire_types)+

lemma walk_read_range_reads:
  "reads ss c (enc_fields fs @ bs) \<Longrightarrow> list_all wf_field fs \<Longrightarrow> e + length bs = length (concat ss) \<Longrightarrow>
   \<exists>c' rr'. walk_read_range e c rr = Some (rr', c') \<and> reads ss c' bs \<and> view ss rr' = fold apply_read_field fs (view ss rr)"
proof (induction fs arbitrary: c rr)
  case Nil
  then have "pos c = e" using reads_pos [of ss c bs] by simp
  then show ?case using Nil by (subst walk_read_range.simps) simp
next
  case (Cons f fs)
  have lt: "pos c < e" using before_end [of ss c f "enc_fields fs" bs] Cons.prems by simp
  have wf: "wf_field f" "wf_value (snd f)" "list_all wf_field fs" using Cons.prems(2) by (auto simp: wf_field_def [of f])
  obtain c1 where tag: "read_tag c = Some (fst f, wire_type (snd f), c1)" "reads ss c1 (payload (snd f) @ enc_fields fs @ bs)"
    using reads_tag [of ss c f "enc_fields fs @ bs"] Cons.prems(1) wf by auto
  show ?case
  proof (cases "fst f = kReadRange_read_id \<and> wire_type (snd f) = kWtVarint")
    case True
    then obtain v where f: "f = (kReadRange_read_id, Varint v)" using apply_read_field_cases(1) by blast
    obtain c2 where c2: "read_varint c1 = Some (v, c2)" "reads ss c2 (enc_fields fs @ bs)"
      using reads_varint [of ss c1 v] tag(2) f wf(2) by auto
    let ?rr = "rr\<lparr>read_id := signed_take_bit 63 (int v), has_read_id := True\<rparr>"
    have "view ss ?rr = apply_read_field f (view ss rr)" using f by (simp add: view_def)
    then show ?thesis
      using Cons.IH [OF c2(2) wf(3) Cons.prems(3), of ?rr] lt tag(1) True c2(1)
      by (subst walk_read_range.simps) auto
  next
    case False
    obtain c2 where c2: "skip_value (wire_type (snd f)) c1 = Some c2" "reads ss c2 (enc_fields fs @ bs)"
      using reads_skip_value [OF tag(2) wf(2)] by blast
    then show ?thesis
      using Cons.IH [OF c2(2) wf(3) Cons.prems(3), of rr] lt tag(1) False apply_read_field_cases(2) [OF False]
      by (subst walk_read_range.simps) auto
  qed
qed

lemma range_item_tag: "wf_range_item i \<Longrightarrow> wf_field (range_field i)"
  by (cases i) (auto simp: wf_field_def field_numbers)

lemma walk_object_range_reads:
  "reads ss c (enc_fields (map range_field is) @ bs) \<Longrightarrow> list_all wf_range_item is \<Longrightarrow> e + length bs = length (concat ss) \<Longrightarrow>
   \<exists>c' rr'. walk_object_range e c rr = Some (rr', c') \<and> reads ss c' bs \<and> view ss rr' = fold apply_item is (view ss rr)"
proof (induction "is" arbitrary: c rr)
  case Nil
  then have "pos c = e" using reads_pos [of ss c bs] by simp
  then show ?case using Nil by (subst walk_object_range.simps) simp
next
  case (Cons i "is")
  let ?f = "range_field i" and ?r = "enc_fields (map range_field is) @ bs"
  have lt: "pos c < e" using before_end [of ss c ?f "enc_fields (map range_field is)" bs] Cons.prems by simp
  have wf: "wf_field ?f" "list_all wf_range_item is" using Cons.prems(2) range_item_tag by simp_all
  obtain c1 where tag: "read_tag c = Some (fst ?f, wire_type (snd ?f), c1)" "reads ss c1 (payload (snd ?f) @ ?r)"
    using reads_tag [of ss c ?f ?r] Cons.prems(1) wf by auto
  note IH = Cons.IH [OF _ wf(2) Cons.prems(3)]
  show ?case
  proof (cases i)
    case (Range_data fs)
    obtain c2 where c2: "enter_message e c1 = Some (pos c2 + length (enc_fields fs), c2)" "reads ss c2 (enc_fields fs @ ?r)"
      using reads_enter [of ss c1 "enc_fields fs" ?r e "length bs"] tag(2) Cons.prems(3) Range_data by auto
    obtain c3 xs where c3: "walk_checksummed (pos c2 + length (enc_fields fs)) c2 (range_content rr) = (range_content rr @ xs, Some c3)"
      "reads ss c3 ?r" "map (extent_bytes ss) xs = contents fs"
      using walk_checksummed_reads [OF c2(2), of "pos c2 + length (enc_fields fs)" "range_content rr"] reads_pos [OF c2(2)]
        Cons.prems(2) Range_data by auto
    let ?rr = "rr\<lparr>has_checksummed_data := True, range_content := range_content rr @ xs\<rparr>"
    have "view ss ?rr = apply_item i (view ss rr)" using Range_data c3(3) by (simp add: view_def for_each_span_bytes)
    then show ?thesis
      using IH [OF c3(2), of ?rr] lt tag(1) c2(1) c3(1) Range_data
      by (subst walk_object_range.simps) (auto simp: wire_types)
  next
    case (Range_read fs)
    obtain c2 where c2: "enter_message e c1 = Some (pos c2 + length (enc_fields fs), c2)" "reads ss c2 (enc_fields fs @ ?r)"
      using reads_enter [of ss c1 "enc_fields fs" ?r e "length bs"] tag(2) Cons.prems(3) Range_read by auto
    obtain c3 rr2 where c3: "walk_read_range (pos c2 + length (enc_fields fs)) c2 rr = Some (rr2, c3)"
      "reads ss c3 ?r" "view ss rr2 = fold apply_read_field fs (view ss rr)"
      using walk_read_range_reads [OF c2(2), of "pos c2 + length (enc_fields fs)" rr] reads_pos [OF c2(2)]
        Cons.prems(2) Range_read by auto
    then show ?thesis
      using IH [OF c3(2), of rr2] lt tag(1) c2(1) Range_read
      by (subst walk_object_range.simps) (auto simp: wire_types field_numbers)
  next
    case (Range_end v)
    obtain c2 where c2: "read_varint c1 = Some (v, c2)" "reads ss c2 ?r"
      using reads_varint [of ss c1 v ?r] tag(2) Cons.prems(2) Range_end by auto
    have "view ss (rr\<lparr>range_end := v \<noteq> 0\<rparr>) = apply_item i (view ss rr)" using Range_end by (simp add: view_def)
    then show ?thesis
      using IH [OF c2(2), of "rr\<lparr>range_end := v \<noteq> 0\<rparr>"] lt tag(1) c2(1) Range_end
      by (subst walk_object_range.simps) (auto simp: wire_types field_numbers)
  next
    case (Range_plain f)
    obtain c2 where c2: "skip_value (wire_type (snd f)) c1 = Some c2" "reads ss c2 ?r"
      using reads_skip_value [OF tag(2)] wf(1) Range_plain by (auto simp: wf_field_def)
    then show ?thesis
      using IH [OF c2(2), of rr] lt tag(1) Range_plain Cons.prems(2)
      by (subst walk_object_range.simps) auto
  qed
qed

lemma view_new_range [simp]: "view ss new_range = empty_view"
  by (simp add: view_def new_range_def empty_view_def)

lemma bidi_loop_reads:
  "reads ss c (enc_fields (map bidi_field is)) \<Longrightarrow> list_all wf_bidi_item is \<Longrightarrow> e = length (concat ss) \<Longrightarrow>
   \<exists>c' rs. bidi_loop e c out = (out @ rs, Some c') \<and> pos c' = e \<and> map (view ss) rs = concat (map bidi_views is)"
proof (induction "is" arbitrary: c out)
  case Nil
  then have "pos c = e" using reads_pos [of ss c "[]"] by simp
  then show ?case by (subst bidi_loop.simps) simp
next
  case (Cons i "is")
  let ?f = "bidi_field i" and ?r = "enc_fields (map bidi_field is)"
  have lt: "pos c < e" using before_end [of ss c ?f ?r "[]"] Cons.prems by simp
  have wf: "wf_field ?f" "list_all wf_bidi_item is"
    using Cons.prems(2) by (cases i; simp add: wf_field_def field_numbers)+
  obtain c1 where tag: "read_tag c = Some (fst ?f, wire_type (snd ?f), c1)" "reads ss c1 (payload (snd ?f) @ ?r)"
    using reads_tag [of ss c ?f ?r] Cons.prems(1) wf by auto
  show ?case
  proof (cases i)
    case (Bidi_range js)
    let ?b = "enc_fields (map range_field js)"
    obtain c2 where c2: "enter_message e c1 = Some (pos c2 + length ?b, c2)" "reads ss c2 (?b @ ?r)"
      using reads_enter [of ss c1 ?b ?r e 0] tag(2) Cons.prems(3) Bidi_range by auto
    obtain c3 rr where c3: "walk_object_range (pos c2 + length ?b) c2 new_range = Some (rr, c3)" "reads ss c3 ?r"
      "view ss rr = fold apply_item js empty_view"
      using walk_object_range_reads [OF c2(2), of "pos c2 + length ?b" new_range] reads_pos [OF c2(2)]
        Cons.prems(2) Bidi_range by auto
    then show ?thesis
      using Cons.IH [OF c3(2) wf(2) Cons.prems(3), of "out @ [rr]"] lt tag(1) c2(1) Bidi_range
      by (subst bidi_loop.simps) (auto simp: wire_types)
  next
    case (Bidi_plain f)
    obtain c2 where c2: "skip_value (wire_type (snd f)) c1 = Some c2" "reads ss c2 ?r"
      using reads_skip_value [OF tag(2)] wf(1) Bidi_plain by (auto simp: wf_field_def)
    then show ?thesis
      using Cons.IH [OF c2(2) wf(2) Cons.prems(3), of out] lt tag(1) Bidi_plain Cons.prems(2)
      by (subst bidi_loop.simps) auto
  qed
qed

lemma extract_bidi_reads:
  assumes "list_all wf_bidi_item is" and "concat ss = enc_fields (map bidi_field is)" and "length (concat ss) < 2 ^ 64"
  shows "bidi_ok (extract_bidi_read_object_response ss)"
    and "map (view ss) (ranges (extract_bidi_read_object_response ss)) = concat (map bidi_views is)"
  using bidi_loop_reads [of ss "make_cursor ss" "is" "length (concat ss)" "[]"] reads_make_cursor [OF assms(3)] assms(1,2)
  by (auto simp: extract_bidi_read_object_response_def Let_def)

section \<open>Two messages\<close>

definition demo_items :: "read_object_item list" where
  "demo_items = [Checksummed [(1, Len [7, 8]), (2, Fixed32 [1, 2, 3, 4])], Plain_field (3, Varint 300)]"

definition demo_slices :: slice_seq where
  "demo_slices = [[10, 9, 10], [2, 7], [], [8, 21, 1, 2, 3, 4, 24, 172], [2]]"

definition demo_bidi_items :: "bidi_item list" where
  "demo_bidi_items =
     [Bidi_range [Range_data [(1, Len [7, 8])], Range_read [(3, Varint 5)], Range_end 1], Bidi_range [Range_data [(1, Len [9])]]]"

definition demo_bidi_slices :: slice_seq where
  "demo_bidi_slices = [[10, 12, 10, 4, 10, 2, 7], [8, 18, 2, 24, 5, 24, 1, 10], [5, 10, 3, 10, 1, 9]]"

lemmas demo_simps = wf_field_def wire_types field_numbers enc_field_def enc_varint.simps

lemma demo_encodes:
  "list_all wf_item demo_items" "concat demo_slices = enc_fields (map item_field demo_items)"
  "length (concat demo_slices) < 2 ^ 64"
  by (simp_all add: demo_items_def demo_slices_def demo_simps)

lemma demo_bidi_encodes:
  "list_all wf_bidi_item demo_bidi_items" "concat demo_bidi_slices = enc_fields (map bidi_field demo_bidi_items)"
  "length (concat demo_bidi_slices) < 2 ^ 64"
  by (simp_all add: demo_bidi_items_def demo_bidi_slices_def demo_simps)

text \<open>
  A result without success may contain an extent behind the end of the message: the tag of the inner message uses up all of its
  bytes, the subtraction wraps, and the extent is recorded before its length is rejected.
\<close>

definition torn_message :: slice_seq where
  "torn_message = [[10, 1, 10, 5]]"

definition torn_cursor :: "nat \<Rightarrow> cursor" where
  "torn_cursor p = \<lparr>slices = torn_message, si = 0, off = p, pos = p, total = 4\<rparr>"

lemma torn_pos [simp]: "pos (torn_cursor p) = p" "total (torn_cursor p) = 4"
  by (simp_all add: torn_cursor_def)

lemma torn_byte: "p < 4 \<Longrightarrow> read_byte (torn_cursor p) = Some ([10, 1, 10, 5] ! p, torn_cursor (p + 1))"
proof -
  assume "p < 4"
  then have "settle (torn_cursor p) = torn_cursor p" by (subst settle.simps) (simp add: torn_cursor_def torn_message_def)
  then show ?thesis using \<open>p < 4\<close> by (simp add: read_byte_def torn_cursor_def torn_message_def)
qed

lemma torn_varint: "p < 4 \<Longrightarrow> read_varint (torn_cursor p) = Some ([10, 1, 10, 5] ! p, torn_cursor (p + 1))"
proof -
  assume p: "p < 4"
  then have "p \<in> {0, 1, 2, 3}" by auto
  then have "unat (([10, 1, 10, 5] ! p :: octet) AND 0x7F) = [10, 1, 10, 5] ! p" "([10, 1, 10, 5] ! p :: octet) AND 0x80 = 0"
    "take_bit 64 ([10, 1, 10, 5] ! p :: nat) = [10, 1, 10, 5] ! p"
    by auto
  then show ?thesis using torn_byte [OF p] by (simp add: read_varint_def)
qed

lemma failed_extent_overruns:
  "extract_read_object_response torn_message = \<lparr>ok = False, content = [\<lparr>offset = 4, extent_length = 5\<rparr>]\<rparr>"
proof -
  have tag: "read_tag (torn_cursor p) = Some (1, kWtLen, torn_cursor (p + 1))" if "p \<in> {0, 2}" for p
    using that torn_varint [of p] by (auto simp: read_tag_def wire_types)
  have "enter_message 4 (torn_cursor 1) = Some (3, torn_cursor 2)"
    using torn_varint [of 1] by (simp add: enter_message_def size_sub_def flip: numeral_2_eq_2 numeral_3_eq_3)
  moreover have "walk_checksummed 3 (torn_cursor 2) [] = ([\<lparr>offset = 4, extent_length = 5\<rparr>], None)"
    using tag [of 2] torn_varint [of 3]
    by (subst walk_checksummed.simps) (simp add: field_numbers size_sub_def skip_def)
  moreover have "make_cursor torn_message = torn_cursor 0"
    by (simp add: make_cursor_def torn_cursor_def torn_message_def)
  ultimately show ?thesis
    using tag [of 0]
    by (simp add: extract_read_object_response_def read_object_loop.simps [of 4 "torn_cursor 0"] field_numbers)
qed

section \<open>The extractors\<close>

text \<open>
  C14: every \<^verbatim>\<open>ReadObjectResponse\<close>, with any fields besides the object data and cut into slices in any way, is
  accepted, and the pieces of the extents that are found are the object bytes of the message in order.
\<close>

theorem gcs_read_object_round_trip:
  assumes "list_all wf_item is" and "concat ss = enc_fields (map item_field is)" and "length (concat ss) < 2 ^ 64"
  shows "ok (extract_read_object_response ss) \<and>
    map (\<lambda>x. concat (fst (for_each_span ss x))) (content (extract_read_object_response ss)) = concat (map item_contents is)"
  using extract_read_object_reads [OF assms] by (simp add: for_each_span_bytes)

theorem gcs_read_object_round_trip_witness:
  "ok (extract_read_object_response demo_slices) \<and>
   map (\<lambda>x. concat (fst (for_each_span demo_slices x))) (content (extract_read_object_response demo_slices)) = [[7, 8]]"
  using gcs_read_object_round_trip [OF demo_encodes] by (simp add: demo_items_def field_numbers)

text \<open>
  C15: every \<^verbatim>\<open>BidiReadObjectResponse\<close> is accepted however it is cut into slices, and the results are its ranges
  in order, each with its read id, its end flag and its object bytes; repeated fields act as in a sequential parse.
\<close>

theorem gcs_bidi_round_trip:
  assumes "list_all wf_bidi_item is" and "concat ss = enc_fields (map bidi_field is)" and "length (concat ss) < 2 ^ 64"
  shows "bidi_ok (extract_bidi_read_object_response ss) \<and>
    map (view ss) (ranges (extract_bidi_read_object_response ss)) = concat (map bidi_views is)"
  using extract_bidi_reads [OF assms] by simp

theorem gcs_bidi_round_trip_witness:
  "bidi_ok (extract_bidi_read_object_response demo_bidi_slices) \<and>
   map (view demo_bidi_slices) (ranges (extract_bidi_read_object_response demo_bidi_slices)) =
     [\<lparr>view_id = 5, view_has_id = True, view_end = True, view_has_data = True, view_contents = [[7, 8]]\<rparr>,
      \<lparr>view_id = 0, view_has_id = False, view_end = False, view_has_data = True, view_contents = [[9]]\<rparr>]"
  using gcs_bidi_round_trip [OF demo_bidi_encodes] by (simp add: demo_bidi_items_def field_numbers empty_view_def)

text \<open>
  C20: for every sequence of slices, whatever bytes they contain: if an extractor reports success, every extent lies inside
  of the message, and walking its pieces visits exactly as many bytes as the extent has.
\<close>

theorem gcs_extents_inside:
  "(ok (extract_read_object_response ss) \<longrightarrow>
      (\<forall>x \<in> set (content (extract_read_object_response ss)).
        offset x + extent_length x \<le> length (concat ss) \<and> snd (for_each_span ss x) = extent_length x)) \<and>
   (bidi_ok (extract_bidi_read_object_response ss) \<longrightarrow>
      (\<forall>r \<in> set (ranges (extract_bidi_read_object_response ss)). \<forall>x \<in> set (range_content r).
        offset x + extent_length x \<le> length (concat ss) \<and> snd (for_each_span ss x) = extent_length x))"
proof -
  have v: "snd (for_each_span ss x) = extent_length x" if "offset x + extent_length x \<le> length (concat ss)" for x
    using that by (simp add: for_each_span_bytes extent_bytes_def)
  show ?thesis
    using v read_object_loop_inside [of "length (concat ss)" "make_cursor ss" "[]"]
      bidi_loop_inside [of "length (concat ss)" "make_cursor ss" "[]"]
    by (fastforce simp: extract_read_object_response_def extract_bidi_read_object_response_def Let_def inside_def
        split: prod.splits option.splits)
qed

theorem gcs_extents_inside_witness:
  "ok (extract_read_object_response demo_slices) \<and> content (extract_read_object_response demo_slices) \<noteq> [] \<and>
   list_all (\<lambda>x. offset x + extent_length x \<le> 14 \<and> snd (for_each_span demo_slices x) = extent_length x)
     (content (extract_read_object_response demo_slices))"
proof -
  have "ok (extract_read_object_response demo_slices)" by (rule extract_read_object_reads(1) [OF demo_encodes])
  moreover have "content (extract_read_object_response demo_slices) \<noteq> []"
    using extract_read_object_reads(2) [OF demo_encodes] by (auto simp: demo_items_def field_numbers)
  moreover have "length (concat demo_slices) = 14" by (simp add: demo_slices_def)
  ultimately show ?thesis using gcs_extents_inside [of demo_slices] by (simp add: list_all_iff)
qed

end
