(* ===== verification/Uri.thy ===== *)
theory Uri
  imports Sirius_Prelude "HOL-Library.Char_ord"
begin

text \<open>
  The parser of data source URIs (\<^verbatim>\<open>io/uri_parser.cpp\<close>). Strings are lists of characters; every
  rejection is an \<open>invalid_argument\<close> with the message of the code. \<open>std::isspace\<close> and \<open>std::tolower\<close> are those of
  the C locale.
\<close>

section \<open>The parser\<close>

record parsed_uri =
  scheme :: string
  host :: string
  path :: string
  query :: "string \<rightharpoonup> string"

definition fail :: "string \<Rightarrow> string \<Rightarrow> 'a result" where
  "fail reason uri = Inl (Invalid_argument (''uri_parser: '' @ reason @ '' (uri='' @ uri @ '')''))"

definition hex_value :: "char \<Rightarrow> int" where
  "hex_value c =
     (if CHR ''0'' \<le> c \<and> c \<le> CHR ''9'' then int (of_char c) - int (of_char CHR ''0'')
      else if CHR ''a'' \<le> c \<and> c \<le> CHR ''f'' then 10 + (int (of_char c) - int (of_char CHR ''a''))
      else if CHR ''A'' \<le> c \<and> c \<le> CHR ''F'' then 10 + (int (of_char c) - int (of_char CHR ''A''))
      else -1)"

fun percent_decode :: "string \<Rightarrow> string \<Rightarrow> string result" where
  "percent_decode uri [] = Inr []"
| "percent_decode uri (c # cs) =
     (if c \<noteq> CHR ''%'' then bind_result (percent_decode uri cs) (\<lambda>out. Inr (c # out))
      else (case cs of
          h # l # rest \<Rightarrow>
            if hex_value h < 0 \<or> hex_value l < 0 then fail ''malformed percent-encoding'' uri
            else bind_result (percent_decode uri rest) (\<lambda>out. Inr (char_of (nat (hex_value h * 16 + hex_value l)) # out))
        | _ \<Rightarrow> fail ''truncated percent-encoding'' uri))"

text \<open>\<open>find\<close> of a character and the two \<open>substr\<close> around it; the second part is missing if there is none.\<close>

definition split_at :: "char \<Rightarrow> string \<Rightarrow> string \<times> string option" where
  "split_at c s =
     (takeWhile (\<lambda>x. x \<noteq> c) s, case dropWhile (\<lambda>x. x \<noteq> c) s of [] \<Rightarrow> None | _ # rest \<Rightarrow> Some rest)"

lemma split_at_less: "split_at c s = (a, Some r) \<Longrightarrow> length r < length s"
proof -
  assume "split_at c s = (a, Some r)"
  then have "length (dropWhile (\<lambda>x. x \<noteq> c) s) = Suc (length r)" by (auto simp: split_at_def split: list.splits)
  then show ?thesis using length_dropWhile_le [of "\<lambda>x. x \<noteq> c" s] by simp
qed

definition parse_segment :: "string \<Rightarrow> string \<Rightarrow> (string \<rightharpoonup> string) \<Rightarrow> (string \<rightharpoonup> string) result" where
  "parse_segment uri seg out =
     (if seg = [] then Inr out
      else let (key_sv, val) = split_at CHR ''='' seg; val_sv = (case val of None \<Rightarrow> [] | Some v \<Rightarrow> v) in
        if key_sv = [] then fail ''empty query key'' uri
        else bind_result (percent_decode uri key_sv) (\<lambda>key.
             bind_result (percent_decode uri val_sv) (\<lambda>val. Inr (out(key \<mapsto> val)))))"

function parse_query :: "string \<Rightarrow> string \<Rightarrow> (string \<rightharpoonup> string) \<Rightarrow> (string \<rightharpoonup> string) result" where
  "parse_query uri q out =
     (if q = [] then Inr out
      else case split_at CHR ''&'' q of
          (seg, None) \<Rightarrow> parse_segment uri seg out
        | (seg, Some rest) \<Rightarrow> bind_result (parse_segment uri seg out) (\<lambda>out. parse_query uri rest out))"
  by pat_completeness auto
termination
  by (relation "measure (\<lambda>(_, q, _). length q)") (auto dest: split_at_less [OF sym])

declare parse_query.simps [simp del]

definition is_space :: "char \<Rightarrow> bool" where
  "is_space c \<longleftrightarrow> c = CHR '' '' \<or> (9 \<le> (of_char c :: nat) \<and> (of_char c :: nat) \<le> 13)"

definition is_valid_scheme :: "string \<Rightarrow> bool" where
  "is_valid_scheme s \<longleftrightarrow> s \<noteq> [] \<and>
     list_all (\<lambda>c. \<not> (is_space c \<or> c = CHR ''/'' \<or> c = CHR ''?'' \<or> c = CHR ''#'' \<or> c = CHR ''&'' \<or> c = CHR ''='')) s"

definition lower_char :: "char \<Rightarrow> char" where
  "lower_char c = (if CHR ''A'' \<le> c \<and> c \<le> CHR ''Z'' then char_of (of_char c + 32 :: nat) else c)"

definition to_lower :: "string \<Rightarrow> string" where
  "to_lower s = map lower_char s"

text \<open>\<open>find\<close> of the delimiter: what is before it and what is after it.\<close>

fun split_scheme :: "string \<Rightarrow> (string \<times> string) option" where
  "split_scheme [] = None"
| "split_scheme (c # cs) =
     (if take 3 (c # cs) = ''://'' then Some ([], drop 3 (c # cs))
      else map_option (\<lambda>(a, r). (c # a, r)) (split_scheme cs))"

definition finish_query :: "string \<Rightarrow> string option \<Rightarrow> parsed_uri \<Rightarrow> parsed_uri result" where
  "finish_query uri query_part u =
     (case query_part of
        None \<Rightarrow> Inr u
      | Some q \<Rightarrow> if q = [] then Inr u else bind_result (parse_query uri q Map.empty) (\<lambda>m. Inr (u\<lparr>query := m\<rparr>)))"

definition parse_local :: "string \<Rightarrow> parsed_uri result" where
  "parse_local uri =
     (let (path_part, query_part) = split_at CHR ''?'' uri in
      bind_result (percent_decode uri path_part) (\<lambda>p.
        finish_query uri query_part \<lparr>scheme = ''file'', host = [], path = p, query = Map.empty\<rparr>))"

definition parse_remote :: "string \<Rightarrow> string \<Rightarrow> string \<Rightarrow> parsed_uri result" where
  "parse_remote uri scheme_sv rest =
     (let sch = to_lower scheme_sv; (authpath, query_part) = split_at CHR ''?'' rest in
      if sch = ''file'' then
        (case authpath of
           CHR ''/'' # _ \<Rightarrow>
             bind_result (percent_decode uri authpath) (\<lambda>p.
               finish_query uri query_part \<lparr>scheme = sch, host = [], path = p, query = Map.empty\<rparr>)
         | _ \<Rightarrow> fail ''file:// URI must have absolute path (file:///abs/...)'' uri)
      else
        (let (host_sv, key) = split_at CHR ''/'' authpath; key_sv = (case key of None \<Rightarrow> [] | Some k \<Rightarrow> k) in
         if host_sv = [] then fail ''empty host'' uri
         else if key_sv = [] then fail ''empty object key'' uri
         else bind_result (percent_decode uri key_sv) (\<lambda>p.
           finish_query uri query_part \<lparr>scheme = sch, host = host_sv, path = p, query = Map.empty\<rparr>)))"

definition parse :: "string \<Rightarrow> parsed_uri result" where
  "parse uri0 =
     (if uri0 = [] then fail ''empty URI'' uri0
      else let uri = fst (split_at CHR ''#'' uri0) in
        if uri = [] then fail ''empty URI after fragment strip'' uri
        else if hd uri = CHR ''/'' then parse_local uri
        else case split_scheme uri of
            None \<Rightarrow> fail ''relative path not allowed; use absolute or scheme://'' uri
          | Some (scheme_sv, rest) \<Rightarrow>
              if scheme_sv = [] then fail ''empty scheme'' uri
              else if \<not> is_valid_scheme scheme_sv then fail ''invalid scheme syntax'' uri
              else parse_remote uri scheme_sv rest)"

section \<open>Writing a URI\<close>

text \<open>The inverse: letters, digits and slashes as they are, everything else as two hexadecimal digits.\<close>

definition plain :: "char \<Rightarrow> bool" where
  "plain c \<longleftrightarrow> c = CHR ''/'' \<or>
     list_ex (\<lambda>(lo, hi). lo \<le> c \<and> c \<le> hi) [(CHR ''0'', CHR ''9''), (CHR ''A'', CHR ''Z''), (CHR ''a'', CHR ''z'')]"

definition hex_digit :: "nat \<Rightarrow> char" where
  "hex_digit n = ''0123456789ABCDEF'' ! n"

definition encode_char :: "char \<Rightarrow> string" where
  "encode_char c = (if plain c then [c] else [CHR ''%'', hex_digit (of_char c div 16), hex_digit (of_char c mod 16)])"

definition percent_encode :: "string \<Rightarrow> string" where
  "percent_encode s = concat (map encode_char s)"

fun write_query :: "(string \<times> string) list \<Rightarrow> string" where
  "write_query [] = []"
| "write_query [(k, v)] = percent_encode k @ ''='' @ percent_encode v"
| "write_query ((k, v) # kvs) = percent_encode k @ ''='' @ percent_encode v @ ''&'' @ write_query kvs"

definition write_uri :: "string \<Rightarrow> string \<Rightarrow> string \<Rightarrow> (string \<times> string) list \<Rightarrow> string" where
  "write_uri sch h key kvs =
     sch @ ''://'' @ h @ ''/'' @ percent_encode key @ (if kvs = [] then [] else ''?'' @ write_query kvs)"

lemma hex_digit_value: "n < 16 \<Longrightarrow> hex_value (hex_digit n) = int n"
proof -
  assume "n < 16"
  then have "n \<in> set [0..<16]" by simp
  moreover have "\<forall>n \<in> set [0..<16]. hex_value (hex_digit n) = int n" by code_simp
  ultimately show ?thesis by blast
qed

lemma plain_chars: "plain c \<Longrightarrow> c \<notin> set ''%#?&=''"
  by (auto simp: plain_def)

lemma hex_digit_plain: "n < 16 \<Longrightarrow> plain (hex_digit n)"
proof -
  assume "n < 16"
  then have "n \<in> set [0..<16]" by simp
  moreover have "\<forall>n \<in> set [0..<16]. plain (hex_digit n)" by code_simp
  ultimately show ?thesis by blast
qed

lemma decode_encode_char: "percent_decode uri (encode_char c @ s) = bind_result (percent_decode uri s) (\<lambda>out. Inr (c # out))"
proof (cases "plain c")
  case True
  then show ?thesis using plain_chars [OF True] by (simp add: encode_char_def)
next
  case False
  let ?n = "of_char c :: nat"
  have n: "?n div 16 < 16" "?n mod 16 < 16" using nat_of_char_less_256 [of c] by (simp_all add: less_mult_imp_div_less)
  have "int (?n div 16) * 16 + int (?n mod 16) = int ?n" by (metis of_nat_add of_nat_mult of_nat_numeral div_mult_mod_eq)
  then have "nat (hex_value (hex_digit (?n div 16)) * 16 + hex_value (hex_digit (?n mod 16))) = ?n"
    using n by (simp only: hex_digit_value nat_int)
  moreover have "\<not> hex_value (hex_digit (?n div 16)) < 0" "\<not> hex_value (hex_digit (?n mod 16)) < 0"
    using n by (simp_all add: hex_digit_value)
  ultimately show ?thesis using False by (simp add: encode_char_def)
qed

lemma decode_encode: "percent_decode uri (percent_encode s) = Inr s"
  by (induction s) (simp_all add: percent_encode_def decode_encode_char)

lemma encode_chars: "c \<in> set (percent_encode s) \<Longrightarrow> plain c \<or> c = CHR ''%''"
proof -
  assume "c \<in> set (percent_encode s)"
  then obtain d where "c \<in> set (encode_char d)" by (auto simp: percent_encode_def)
  moreover have "(of_char d :: nat) div 16 < 16" using nat_of_char_less_256 [of d] by (simp add: less_mult_imp_div_less)
  ultimately show ?thesis by (auto simp: encode_char_def hex_digit_plain split: if_splits)
qed

lemma encode_no_delim: "set (percent_encode s) \<inter> set ''#?&='' = {}"
  using encode_chars [of _ s] plain_chars by fastforce

lemma percent_encode_empty [simp]: "percent_encode s = [] \<longleftrightarrow> s = []"
  by (cases s) (simp_all add: percent_encode_def encode_char_def)

section \<open>Reading back\<close>

lemma split_at_none: "c \<notin> set s \<Longrightarrow> split_at c s = (s, None)"
  by (induction s) (auto simp: split_at_def)

lemma split_at_some: "c \<notin> set s \<Longrightarrow> split_at c (s @ c # r) = (s, Some r)"
  by (induction s) (auto simp: split_at_def)

lemma parse_segment_written:
  assumes "k \<noteq> []"
  shows "parse_segment uri (percent_encode k @ CHR ''='' # percent_encode v) out = Inr (out(k \<mapsto> v))"
proof -
  have "CHR ''='' \<notin> set (percent_encode k)" using encode_no_delim [of k] by auto
  then show ?thesis using assms by (simp add: parse_segment_def split_at_some decode_encode)
qed

lemma write_query_no_amp: "CHR ''&'' \<notin> set (percent_encode k @ CHR ''='' # percent_encode v)"
  using encode_no_delim [of k] encode_no_delim [of v] by auto

lemma parse_query_written:
  assumes "list_all (\<lambda>(k, v). k \<noteq> []) kvs" "kvs \<noteq> []"
  shows "parse_query uri (write_query kvs) out = Inr (fold (\<lambda>(k, v) m. m(k \<mapsto> v)) kvs out)"
  using assms
proof (induction kvs arbitrary: out rule: write_query.induct)
  case (2 k v)
  then show ?case
    using split_at_none [OF write_query_no_amp [of k v]]
    by (simp add: parse_query.simps [of _ "percent_encode k @ CHR ''='' # percent_encode v"] parse_segment_written fun_upd_def)
next
  case (3 k v kv kvs)
  let ?s = "percent_encode k @ CHR ''='' # percent_encode v" and ?r = "write_query (kv # kvs)"
  have q: "write_query ((k, v) # kv # kvs) = ?s @ CHR ''&'' # ?r" by simp
  have sp: "split_at CHR ''&'' (?s @ CHR ''&'' # ?r) = (?s, Some ?r)"
    by (rule split_at_some) (rule write_query_no_amp)
  have "parse_query uri (?s @ CHR ''&'' # ?r) out = bind_result (parse_segment uri ?s out) (\<lambda>out. parse_query uri ?r out)"
    by (subst parse_query.simps) (simp only: sp, simp)
  also have "\<dots> = parse_query uri ?r (out(k \<mapsto> v))" using 3(2) by (simp add: parse_segment_written del: fun_upd_apply)
  finally show ?case unfolding q using 3 by (simp del: write_query.simps fun_upd_apply)
qed simp

lemma split_scheme_written: "CHR ''/'' \<notin> set a \<Longrightarrow> split_scheme (a @ ''://'' @ r) = Some (a, r)"
proof (induction a)
  case (Cons c a)
  have "take 3 (c # a @ ''://'' @ r) \<noteq> ''://''" using Cons.prems by (cases a; cases "tl a") auto
  with Cons show ?case by simp
qed simp

lemma write_query_chars: "set (write_query kvs) \<inter> set ''#?'' = {}"
  by (induction kvs rule: write_query.induct) (use encode_no_delim in fastforce)+

section \<open>Properties\<close>

text \<open>
  C28: a URI with arbitrary object key and query values is read back exactly. For a valid lower-case scheme
  other than \<open>file\<close>, a host without delimiters, a non-empty key and non-empty query keys, the URI that
  percent-encodes the key and the query parses to the scheme, the host, the key, and the query in
  which the last of several equal keys wins.
\<close>

theorem uri_round_trip:
  assumes "is_valid_scheme sch" "to_lower sch = sch" "sch \<noteq> ''file''"
    and "h \<noteq> []" "set h \<inter> set ''/?#'' = {}" and "key \<noteq> []" and "list_all (\<lambda>(k, v). k \<noteq> []) kvs"
  shows "parse (write_uri sch h key kvs) =
    Inr \<lparr>scheme = sch, host = h, path = key, query = fold (\<lambda>(k, v) m. m(k \<mapsto> v)) kvs Map.empty\<rparr>"
proof -
  define q where "q = (if kvs = [] then [] else CHR ''?'' # write_query kvs)"
  define authpath where "authpath = h @ CHR ''/'' # percent_encode key"
  define uri where "uri = sch @ ''://'' @ authpath @ q"
  have sch: "sch \<noteq> []" "CHR ''/'' \<notin> set sch" "CHR ''#'' \<notin> set sch" using assms(1) by (auto simp: is_valid_scheme_def list_all_iff)
  have key: "CHR ''#'' \<notin> set (percent_encode key)" "CHR ''?'' \<notin> set (percent_encode key)" using encode_no_delim [of key] by auto
  have h: "CHR ''/'' \<notin> set h" "CHR ''?'' \<notin> set h" "CHR ''#'' \<notin> set h" using assms(5) by auto
  have u: "write_uri sch h key kvs = uri" by (simp add: write_uri_def uri_def q_def authpath_def)
  have "CHR ''#'' \<notin> set uri"
    using sch(3) h(3) key(1) write_query_chars [of kvs] by (auto simp: uri_def q_def authpath_def)
  then have frag: "split_at CHR ''#'' uri = (uri, None)" by (rule split_at_none)
  have "uri \<noteq> []" "hd uri \<noteq> CHR ''/''" using sch by (cases sch; auto simp: uri_def)+
  moreover have "split_scheme uri = Some (sch, authpath @ q)"
    unfolding uri_def by (rule split_scheme_written) (rule sch(2))
  ultimately have "parse uri = parse_remote uri sch (authpath @ q)"
    using frag sch(1) assms(1) by (simp add: parse_def)
  moreover have "split_at CHR ''?'' (authpath @ q) = (authpath, if kvs = [] then None else Some (write_query kvs))"
    using split_at_none [of "CHR ''?''" authpath] split_at_some [of "CHR ''?''" authpath "write_query kvs"] h(2) key(2)
    by (simp add: q_def authpath_def)
  moreover have "split_at CHR ''/'' authpath = (h, Some (percent_encode key))"
    unfolding authpath_def by (rule split_at_some) (rule h(1))
  moreover have "write_query kvs \<noteq> []" if "kvs \<noteq> []" using that by (cases kvs rule: write_query.cases) auto
  ultimately show ?thesis
    using assms(2-4,6) parse_query_written [OF assms(7)] unfolding u
    by (simp add: parse_remote_def decode_encode finish_query_def)
qed

theorem uri_round_trip_witness:
  "parse (write_uri ''s3'' ''bucket:9000'' ''/a b%'' [(''region'', ''us-west-2''), (''region'', ''eu?'')]) =
    Inr \<lparr>scheme = ''s3'', host = ''bucket:9000'', path = ''/a b%'', query = [''region'' \<mapsto> ''us-west-2'', ''region'' \<mapsto> ''eu?'']\<rparr>"
  using uri_round_trip [of "''s3''" "''bucket:9000''" "''/a b%''" "[(''region'', ''us-west-2''), (''region'', ''eu?'')]"]
  by (simp add: is_valid_scheme_def is_space_def to_lower_def lower_char_def)

end
