(* ===== verification/Sql_Rewrite.thy ===== *)
theory Sql_Rewrite
  imports Uri
begin

text \<open>
  The rewriting of remote table function calls in query texts (\<^verbatim>\<open>sirius_sql_rewrite.cpp\<close>). A position in the query is
  represented by the rest of the text from there; the look behind by one character is the flag \<open>after_ident\<close>.
\<close>

section \<open>The scanner\<close>

abbreviation quote :: char where "quote \<equiv> CHR 0x27"
abbreviation dquote :: char where "dquote \<equiv> CHR 0x22"

definition NATIVE_READ_PARQUET_FN :: string where
  "NATIVE_READ_PARQUET_FN = ''read_parquet''"

definition SIRIUS_READ_PARQUET_FN :: string where
  "SIRIUS_READ_PARQUET_FN = ''sirius_read_parquet''"

definition S3_URI_PREFIX :: string where
  "S3_URI_PREFIX = ''s3://''"

definition is_identifier_char :: "char \<Rightarrow> bool" where
  "is_identifier_char c \<longleftrightarrow>
     list_ex (\<lambda>(lo, hi). lo \<le> c \<and> c \<le> hi) [(CHR ''A'', CHR ''Z''), (CHR ''a'', CHR ''z''), (CHR ''0'', CHR ''9'')] \<or>
     c = CHR ''_''"

fun iequals_prefix :: "string \<Rightarrow> string \<Rightarrow> bool" where
  "iequals_prefix value [] \<longleftrightarrow> True"
| "iequals_prefix [] (p # prefix) \<longleftrightarrow> False"
| "iequals_prefix (v # value) (p # prefix) \<longleftrightarrow> lower_char v = lower_char p \<and> iequals_prefix value prefix"

definition skip_whitespace :: "string \<Rightarrow> string" where
  "skip_whitespace inp = dropWhile is_space inp"

fun literal_body :: "string \<Rightarrow> string \<Rightarrow> (string \<times> string) option" where
  "literal_body literal [] = None"
| "literal_body literal (c # cs) =
     (if c = quote then
        case cs of
          d # ds \<Rightarrow> if d = quote then literal_body (literal @ [quote]) ds else Some (literal, cs)
        | [] \<Rightarrow> Some (literal, cs)
      else literal_body (literal @ [c]) cs)"

definition parse_single_quoted_literal :: "string \<Rightarrow> (string \<times> string) option" where
  "parse_single_quoted_literal inp = (case inp of c # cs \<Rightarrow> if c = quote then literal_body [] cs else None | [] \<Rightarrow> None)"

definition should_rewrite_read_parquet_call :: "string \<Rightarrow> bool" where
  "should_rewrite_read_parquet_call inp =
     (case skip_whitespace (drop (length NATIVE_READ_PARQUET_FN) inp) of
        [] \<Rightarrow> False
      | c # cs \<Rightarrow>
          if c \<noteq> CHR ''('' then False
          else case parse_single_quoted_literal (skip_whitespace cs) of
              None \<Rightarrow> False
            | Some (literal, _) \<Rightarrow> iequals_prefix literal S3_URI_PREFIX)"

text \<open>The condition of lines 181 to 185.\<close>

definition owned_call :: "bool \<Rightarrow> string \<Rightarrow> bool" where
  "owned_call after_ident inp \<longleftrightarrow> \<not> after_ident \<and> iequals_prefix inp NATIVE_READ_PARQUET_FN \<and>
     (case drop (length NATIVE_READ_PARQUET_FN) inp of [] \<Rightarrow> True | c # _ \<Rightarrow> \<not> is_identifier_char c) \<and>
     should_rewrite_read_parquet_call inp"

datatype scan_mode = In_code | In_single_quote | In_double_quote | In_line_comment | In_block_comment

text \<open>Both quoted modes: a doubled quote stays inside, a single one ends the mode.\<close>

function rewrite_from :: "scan_mode \<Rightarrow> bool \<Rightarrow> string \<Rightarrow> string" where
  "rewrite_from m after_ident [] = []"
| "rewrite_from In_line_comment after_ident (c # cs) =
     c # rewrite_from (if c = CHR 0x0A then In_code else In_line_comment) (is_identifier_char c) cs"
| "rewrite_from In_block_comment after_ident (c # cs) =
     (if c = CHR ''*'' \<and> cs \<noteq> [] \<and> hd cs = CHR ''/'' then c # CHR ''/'' # rewrite_from In_code False (tl cs)
      else c # rewrite_from In_block_comment (is_identifier_char c) cs)"
| "rewrite_from In_single_quote after_ident (c # cs) =
     (if c = quote then
        if cs \<noteq> [] \<and> hd cs = quote then c # quote # rewrite_from In_single_quote False (tl cs)
        else c # rewrite_from In_code False cs
      else c # rewrite_from In_single_quote (is_identifier_char c) cs)"
| "rewrite_from In_double_quote after_ident (c # cs) =
     (if c = dquote then
        if cs \<noteq> [] \<and> hd cs = dquote then c # dquote # rewrite_from In_double_quote False (tl cs)
        else c # rewrite_from In_code False cs
      else c # rewrite_from In_double_quote (is_identifier_char c) cs)"
| "rewrite_from In_code after_ident (c # cs) =
     (if c = CHR ''-'' \<and> cs \<noteq> [] \<and> hd cs = CHR ''-'' then c # CHR ''-'' # rewrite_from In_line_comment False (tl cs)
      else if c = CHR ''/'' \<and> cs \<noteq> [] \<and> hd cs = CHR ''*'' then c # CHR ''*'' # rewrite_from In_block_comment False (tl cs)
      else if c = quote then c # rewrite_from In_single_quote False cs
      else if c = dquote then c # rewrite_from In_double_quote False cs
      else if owned_call after_ident (c # cs) then
        SIRIUS_READ_PARQUET_FN @ rewrite_from In_code True (drop (length NATIVE_READ_PARQUET_FN) (c # cs))
      else c # rewrite_from In_code (is_identifier_char c) cs)"
  by pat_completeness auto
termination
  by (relation "measure (\<lambda>(_, _, inp). length inp)") (auto simp: NATIVE_READ_PARQUET_FN_def)

definition rewrite_sirius_owned_remote_parquet_calls :: "string \<Rightarrow> string" where
  "rewrite_sirius_owned_remote_parquet_calls sql = rewrite_from In_code False sql"

definition references_sirius_owned_s3_parquet :: "string \<Rightarrow> bool" where
  "references_sirius_owned_s3_parquet sql \<longleftrightarrow> rewrite_sirius_owned_remote_parquet_calls sql \<noteq> sql"

section \<open>A second pass finds nothing\<close>

lemma ident_not_special:
  "is_identifier_char c \<Longrightarrow> c \<noteq> quote \<and> c \<noteq> dquote \<and> c \<noteq> CHR ''-'' \<and> c \<noteq> CHR ''/'' \<and> c \<noteq> CHR ''*''"
  by (auto simp: is_identifier_char_def)

lemma name_is_ident: "list_all is_identifier_char NATIVE_READ_PARQUET_FN" "list_all is_identifier_char SIRIUS_READ_PARQUET_FN"
  by code_simp+

text \<open>After an identifier character, identifier characters are copied.\<close>

lemma copy_ident:
  "list_all is_identifier_char w \<Longrightarrow> rewrite_from In_code True (w @ inp) = w @ rewrite_from In_code True inp"
  by (induction w) (auto simp: owned_call_def dest: ident_not_special)

lemma output_ident:
  assumes "rewrite_from In_code True inp = w @ out" and "list_all is_identifier_char w"
  shows "\<exists>inp'. inp = w @ inp' \<and> out = rewrite_from In_code True inp'"
  using assms
proof (induction w arbitrary: inp)
  case (Cons x w)
  then obtain c cs where t: "inp = c # cs" by (cases inp) auto
  with Cons.prems have "c = x" by (auto split: if_splits simp: owned_call_def)
  then have "rewrite_from In_code True cs = w @ out"
    using Cons.prems t ident_not_special [of x] by (auto split: if_splits simp: owned_call_def)
  then show ?case using Cons t \<open>c = x\<close> by auto
qed auto

lemma ident_lower: "is_identifier_char (lower_char c) = is_identifier_char c"
proof -
  have "\<forall>c. is_identifier_char (lower_char c) = is_identifier_char c" by code_simp
  then show ?thesis by blast
qed

lemma iequals_prefix_iff:
  "iequals_prefix v p \<longleftrightarrow> length p \<le> length v \<and> map lower_char (take (length p) v) = map lower_char p"
  by (induction v p rule: iequals_prefix.induct) auto

lemma prefix_ident:
  assumes "iequals_prefix v p" and "list_all is_identifier_char p"
  shows "list_all is_identifier_char (take (length p) v)"
  using assms
  by (induction v p rule: iequals_prefix.induct) (simp_all, metis ident_lower)

lemma owned_call_name:
  assumes "owned_call b inp"
  shows "list_all is_identifier_char (take (length NATIVE_READ_PARQUET_FN) inp)" "length NATIVE_READ_PARQUET_FN \<le> length inp"
  using assms prefix_ident [OF _ name_is_ident(1)] by (auto simp: owned_call_def iequals_prefix_iff)

lemma owned_call_ident: "owned_call b (c # cs) \<Longrightarrow> is_identifier_char c"
  using owned_call_name(1) [of b "c # cs"] by (simp add: NATIVE_READ_PARQUET_FN_def)

text \<open>What a first output character says about the input.\<close>

lemma output_head: "rewrite_from In_code b inp = x # out \<Longrightarrow> x \<noteq> CHR ''s'' \<Longrightarrow> \<exists>inp'. inp = x # inp'"
  by (cases inp) (auto split: if_splits simp: SIRIUS_READ_PARQUET_FN_def)

lemma output_starts:
  assumes "\<not> (inp \<noteq> [] \<and> hd inp = x)" and "x \<noteq> CHR ''s''"
  shows "\<not> (rewrite_from In_code b inp \<noteq> [] \<and> hd (rewrite_from In_code b inp) = x)"
  using output_head [of b inp x "tl (rewrite_from In_code b inp)"] assms by (cases "rewrite_from In_code b inp") auto

lemma output_char:
  assumes "rewrite_from In_code b inp = x # out" and "x \<notin> {CHR ''s'', quote, dquote, CHR ''-'', CHR ''/''}"
  shows "\<exists>inp'. inp = x # inp' \<and> out = rewrite_from In_code (is_identifier_char x) inp'"
  using assms by (cases inp) (auto split: if_splits simp: SIRIUS_READ_PARQUET_FN_def)

lemma space_special: "is_space c \<Longrightarrow> c \<notin> {CHR ''s'', quote, dquote, CHR ''-'', CHR ''/''} \<and> \<not> is_identifier_char c"
  by (auto simp: is_space_def is_identifier_char_def less_eq_char_def)

lemma output_after_space:
  "skip_whitespace (rewrite_from In_code b inp) = x # out \<Longrightarrow> x \<noteq> CHR ''s'' \<Longrightarrow>
   \<exists>inp' b'. skip_whitespace inp = x # inp' \<and> rewrite_from In_code b' (x # inp') = x # out"
proof (induction inp arbitrary: b)
  case (Cons c cs)
  show ?case
  proof (cases "is_space c")
    case True
    then have "rewrite_from In_code b (c # cs) = c # rewrite_from In_code False cs"
      using space_special [OF True] owned_call_ident by auto
    then show ?thesis using Cons True by (auto simp: skip_whitespace_def)
  next
    case False
    obtain d ds where d: "rewrite_from In_code b (c # cs) = d # ds" using Cons.prems(1) by (cases "rewrite_from In_code b (c # cs)") (auto simp: skip_whitespace_def)
    show ?thesis
    proof (cases "is_space d")
      case True
      then have "d = c" using output_head [OF d] space_special [OF True] by auto
      then show ?thesis using False True by simp
    next
      case ns: False
      then have "d = x" "ds = out" using Cons.prems(1) d by (auto simp: skip_whitespace_def)
      moreover have "c = x" using output_head [OF d] Cons.prems(2) \<open>d = x\<close> by auto
      ultimately show ?thesis using d False by (intro exI [of _ cs] exI [of _ b]) (simp add: skip_whitespace_def del: rewrite_from.simps)
    qed
  qed
qed (simp add: skip_whitespace_def)

lemma literal_end: "\<not> (cs \<noteq> [] \<and> hd cs = quote) \<Longrightarrow> literal_body l (quote # cs) = Some (l, cs)"
  by (cases cs) auto

lemma output_literal:
  "literal_body l (rewrite_from In_single_quote b inp) = Some (lit, r) \<Longrightarrow> \<exists>r'. literal_body l inp = Some (lit, r')"
proof (induction l inp arbitrary: b rule: literal_body.induct)
  case (2 l c cs)
  show ?case
  proof (cases "c = quote")
    case True
    show ?thesis
    proof (cases "cs \<noteq> [] \<and> hd cs = quote")
      case q: True
      then obtain ds where "cs = quote # ds" by (cases cs) auto
      then show ?thesis using 2 True by auto
    next
      case False
      then have "literal_body l (quote # rewrite_from In_code False cs) = Some (l, rewrite_from In_code False cs)"
        by (intro literal_end output_starts) simp_all
      then show ?thesis using "2.prems" True False literal_end [OF False, of l] by (simp del: literal_body.simps)
    qed
  next
    case False
    then show ?thesis using "2.IH"(2) [of "is_identifier_char c"] "2.prems" by simp
  qed
qed simp

lemma output_should_rewrite:
  assumes "should_rewrite_read_parquet_call (w @ rewrite_from In_code b inp)" and "length w = length NATIVE_READ_PARQUET_FN"
  shows "should_rewrite_read_parquet_call (w @ inp)"
proof -
  from assms obtain o1 where o1: "skip_whitespace (rewrite_from In_code b inp) = CHR ''('' # o1"
    by (auto simp: should_rewrite_read_parquet_call_def split: list.splits if_splits)
  obtain i1 b1 where i1: "skip_whitespace inp = CHR ''('' # i1" "rewrite_from In_code b1 (CHR ''('' # i1) = CHR ''('' # o1"
    using output_after_space [OF o1] by auto
  have r1: "o1 = rewrite_from In_code False i1" using output_char [OF i1(2)] by (auto simp: is_identifier_char_def)
  from assms o1 obtain o2 l r where o2: "skip_whitespace o1 = quote # o2" "literal_body [] o2 = Some (l, r)"
    "iequals_prefix l S3_URI_PREFIX"
    by (auto simp: should_rewrite_read_parquet_call_def parse_single_quoted_literal_def split: list.splits if_splits option.splits)
  obtain i2 b2 where i2: "skip_whitespace i1 = quote # i2" "rewrite_from In_code b2 (quote # i2) = quote # o2"
    using output_after_space [OF o2(1) [unfolded r1]] by auto
  then obtain r' where "literal_body [] i2 = Some (l, r')" using o2(2) output_literal [of "[]" False i2 l r] by auto
  then show ?thesis
    using assms(2) i1(1) i2(1) o2(3) by (simp add: should_rewrite_read_parquet_call_def parse_single_quoted_literal_def)
qed

lemma output_owned_call:
  assumes "owned_call b (c # rewrite_from In_code (is_identifier_char c) cs)"
  shows "owned_call b (c # cs)"
proof -
  let ?out = "rewrite_from In_code (is_identifier_char c) cs"
  obtain n where n: "length NATIVE_READ_PARQUET_FN = Suc n" by (simp add: NATIVE_READ_PARQUET_FN_def)
  have c: "is_identifier_char c" using owned_call_ident [OF assms] .
  have "?out = take n ?out @ drop n ?out" by simp
  moreover have w: "list_all is_identifier_char (take n ?out)" "length (take n ?out) = n"
    using owned_call_name [OF assms] n by (auto simp: min_def)
  ultimately obtain cs2 where cs2: "cs = take n ?out @ cs2" "drop n ?out = rewrite_from In_code True cs2"
    using output_ident [of cs "take n ?out" "drop n ?out"] c by auto
  define w where "w = take n ?out"
  have eq: "c # ?out = (c # w) @ rewrite_from In_code True cs2" "c # cs = (c # w) @ cs2" "length (c # w) = length NATIVE_READ_PARQUET_FN"
    using cs2(1) w(2) n unfolding w_def [symmetric] cs2(2) [symmetric] by (simp_all add: w_def)
  have dr: "drop (length NATIVE_READ_PARQUET_FN) ((c # w) @ r) = r"
    "take (length NATIVE_READ_PARQUET_FN) ((c # w) @ r) = c # w" for r
    unfolding eq(3) [symmetric] by simp_all
  have next_char: "case rewrite_from In_code True cs2 of [] \<Rightarrow> True | d # _ \<Rightarrow> \<not> is_identifier_char d"
    using assms unfolding eq(1) owned_call_def dr by blast
  have head: "case cs2 of [] \<Rightarrow> True | d # _ \<Rightarrow> \<not> is_identifier_char d"
  proof (cases cs2)
    case (Cons d ds)
    have "\<not> is_identifier_char d"
    proof
      assume "is_identifier_char d"
      then have "rewrite_from In_code True cs2 = d # rewrite_from In_code True ds" using copy_ident [of "[d]" ds] Cons by simp
      then show False using next_char \<open>is_identifier_char d\<close> by simp
    qed
    then show ?thesis using Cons by simp
  qed simp
  show ?thesis
    using assms output_should_rewrite [of "c # w" True cs2] eq(3) head
    unfolding eq(1,2) owned_call_def iequals_prefix_iff dr by auto
qed

lemma rewrite_twice: "rewrite_from m b (rewrite_from m b inp) = rewrite_from m b inp"
proof (induction m b inp rule: rewrite_from.induct)
  case (6 b c cs)
  let ?out = "rewrite_from In_code (is_identifier_char c) cs"
  consider (line) "c = CHR ''-'' \<and> cs \<noteq> [] \<and> hd cs = CHR ''-''"
    | (block) "c = CHR ''/'' \<and> cs \<noteq> [] \<and> hd cs = CHR ''*''"
    | (single) "c = quote" | (double) "c = dquote"
    | (call) "c \<noteq> quote" "c \<noteq> dquote" "owned_call b (c # cs)"
    | (copy) "\<not> (c = CHR ''-'' \<and> cs \<noteq> [] \<and> hd cs = CHR ''-'')" "\<not> (c = CHR ''/'' \<and> cs \<noteq> [] \<and> hd cs = CHR ''*'')"
        "c \<noteq> quote" "c \<noteq> dquote" "\<not> owned_call b (c # cs)"
    by blast
  then show ?case
  proof cases
    case call
    then have c: "c \<noteq> CHR ''-''" "c \<noteq> CHR ''/''" using owned_call_ident [OF call(3)] ident_not_special by auto
    let ?rest = "rewrite_from In_code True (drop (length NATIVE_READ_PARQUET_FN) (c # cs))"
    have "\<not> owned_call b (SIRIUS_READ_PARQUET_FN @ ?rest)"
      by (simp add: owned_call_def NATIVE_READ_PARQUET_FN_def SIRIUS_READ_PARQUET_FN_def lower_char_def)
    moreover have "list_all is_identifier_char ''irius_read_parquet''" by code_simp
    ultimately have "rewrite_from In_code b (SIRIUS_READ_PARQUET_FN @ ?rest) = SIRIUS_READ_PARQUET_FN @ rewrite_from In_code True ?rest"
      using copy_ident [of "''irius_read_parquet''" ?rest] by (simp add: SIRIUS_READ_PARQUET_FN_def is_identifier_char_def)
    then show ?thesis using 6 call c by simp
  next
    case copy
    then have "\<not> owned_call b (c # ?out)" using output_owned_call by blast
    then have "rewrite_from In_code b (c # ?out) = c # rewrite_from In_code (is_identifier_char c) ?out"
      using copy output_starts [of cs "CHR ''-''" "is_identifier_char c"] output_starts [of cs "CHR ''*''" "is_identifier_char c"] by auto
    moreover have "rewrite_from In_code b (c # cs) = c # ?out" using copy by auto
    ultimately show ?thesis using "6.IH"(6) [OF copy] by simp
  qed (use 6 in auto)
next
  case (4 b c cs)
  then show ?case using output_starts [of cs quote False] by auto
next
  case (5 b c cs)
  then show ?case using output_starts [of cs dquote False] by auto
next
  case (3 b c cs)
  then show ?case by (cases cs) auto
qed auto

section \<open>Nothing but names changes\<close>

inductive renamed :: "string \<Rightarrow> string \<Rightarrow> bool" where
  Done: "renamed [] []"
| Keep: "renamed a b \<Longrightarrow> renamed (c # a) (c # b)"
| Name: "to_lower w = NATIVE_READ_PARQUET_FN \<Longrightarrow> renamed a b \<Longrightarrow> renamed (w @ a) (SIRIUS_READ_PARQUET_FN @ b)"

lemma to_lower_name: "to_lower NATIVE_READ_PARQUET_FN = NATIVE_READ_PARQUET_FN"
  by code_simp

lemma renamed_call:
  assumes "owned_call b inp" and "renamed (drop (length NATIVE_READ_PARQUET_FN) inp) out"
  shows "renamed inp (SIRIUS_READ_PARQUET_FN @ out)"
proof -
  have "to_lower (take (length NATIVE_READ_PARQUET_FN) inp) = NATIVE_READ_PARQUET_FN"
    using assms(1) to_lower_name by (simp add: owned_call_def iequals_prefix_iff to_lower_def)
  from renamed.Name [OF this assms(2)] show ?thesis by simp
qed

lemma renamed_two: "cs \<noteq> [] \<Longrightarrow> hd cs = d \<Longrightarrow> renamed (tl cs) out \<Longrightarrow> renamed (c # cs) (c # d # out)"
  by (cases cs) (auto intro: renamed.Keep)

lemma rewrite_renames: "renamed inp (rewrite_from m b inp)"
  by (induction m b inp rule: rewrite_from.induct)
    (auto intro: renamed.Done renamed.Keep renamed_two simp del: drop_Suc_Cons intro!: renamed_call)

section \<open>Calls are found\<close>

definition plain_char :: "char \<Rightarrow> bool" where
  "plain_char c \<longleftrightarrow> c \<notin> {quote, dquote, CHR ''-'', CHR ''/''}"

definition sql_quote :: "string \<Rightarrow> string" where
  "sql_quote lit = concat (map (\<lambda>c. if c = quote then [quote, quote] else [c]) lit)"

lemma literal_quoted:
  "\<not> (r \<noteq> [] \<and> hd r = quote) \<Longrightarrow> literal_body l (sql_quote lit @ quote # r) = Some (l @ lit, r)"
proof (induction lit arbitrary: l)
  case Nil
  then show ?case using literal_end [of r l] by (simp add: sql_quote_def)
qed (auto simp: sql_quote_def)

lemma rewrite_quoted:
  "\<not> (r \<noteq> [] \<and> hd r = quote) \<Longrightarrow>
   rewrite_from In_single_quote b (sql_quote lit @ quote # r) = sql_quote lit @ quote # rewrite_from In_code False r"
  by (induction lit arbitrary: b) (auto simp: sql_quote_def)

lemma skip_whitespace_plain:
  assumes "skip_whitespace (s @ d # z) = x # y" and "list_all plain_char s" and "is_identifier_char d"
  shows "x \<noteq> quote" and "is_identifier_char x \<or> (\<exists>s'. y = s' @ d # z \<and> list_all plain_char s')"
proof -
  have d: "\<not> is_space d" "d \<noteq> quote" using assms(3) space_special ident_not_special by blast+
  have "(x = d \<and> y = z) \<or> (\<exists>s'. y = s' @ d # z \<and> list_all plain_char (x # s'))"
    using assms(1,2) d by (induction s) (auto simp: skip_whitespace_def split: if_splits)
  then show "x \<noteq> quote" and "is_identifier_char x \<or> (\<exists>s'. y = s' @ d # z \<and> list_all plain_char s')"
    using assms(3) d by (auto simp: plain_char_def)
qed

lemma no_call_before_name:
  assumes "s \<noteq> []" and "list_all plain_char s" and "list_all is_identifier_char w" and "length w = length NATIVE_READ_PARQUET_FN"
  shows "\<not> owned_call b (s @ w @ z)"
proof
  let ?n = "length NATIVE_READ_PARQUET_FN"
  assume call: "owned_call b (s @ w @ z)"
  have n: "0 < ?n" by (simp add: NATIVE_READ_PARQUET_FN_def)
  show False
  proof (cases "length s < ?n")
    case True
    have "?n - length s < ?n" using assms(1) n by (intro diff_less) auto
    then have "drop ?n (s @ w @ z) = drop (?n - length s) w @ z" "drop (?n - length s) w \<noteq> []" using assms(4) True by auto
    then obtain d ds where d: "drop (?n - length s) w = d # ds" "drop ?n (s @ w @ z) = d # ds @ z"
      by (cases "drop (?n - length s) w") auto
    then have "d \<in> set w" by (metis in_set_dropD list.set_intros(1))
    then show False using call d(2) assms(3) by (auto simp: owned_call_def list_all_iff)
  next
    case False
    then have dr: "drop ?n (s @ w @ z) = drop ?n s @ w @ z" "list_all plain_char (drop ?n s)"
      using assms(2) by (auto simp: list_all_iff dest: in_set_dropD)
    obtain d ds where w: "w = d # ds" "is_identifier_char d" using assms(3,4) n by (cases w) auto
    from call dr obtain y where y: "skip_whitespace (drop ?n s @ d # ds @ z) = CHR ''('' # y" "parse_single_quoted_literal (skip_whitespace y) \<noteq> None"
      using w by (auto simp: owned_call_def should_rewrite_read_parquet_call_def split: list.splits if_splits option.splits)
    obtain s' where s': "y = s' @ d # ds @ z" "list_all plain_char s'"
      using skip_whitespace_plain(2) [OF y(1) dr(2) w(2)] by (auto simp: is_identifier_char_def)
    from y(2) obtain q where "skip_whitespace y = quote # q"
      by (auto simp: parse_single_quoted_literal_def split: list.splits if_splits)
    then show False using skip_whitespace_plain(1) s' w(2) by blast
  qed
qed

lemma copy_before_name:
  assumes "list_all plain_char s" and "list_all is_identifier_char w" and "length w = length NATIVE_READ_PARQUET_FN"
  shows "rewrite_from In_code b (s @ w @ z) =
    s @ rewrite_from In_code (if s = [] then b else is_identifier_char (last s)) (w @ z)"
  using assms(1)
proof (induction s arbitrary: b)
  case (Cons c s)
  have "\<not> owned_call b ((c # s) @ w @ z)" using no_call_before_name [OF _ Cons.prems assms(2,3)] by simp
  then have "rewrite_from In_code b ((c # s) @ w @ z) = c # rewrite_from In_code (is_identifier_char c) (s @ w @ z)"
    using Cons.prems by (simp add: plain_char_def)
  then show ?case using Cons by simp
qed simp

lemma copy_blanks: "list_all is_space s \<Longrightarrow> rewrite_from In_code b (s @ z) =
    s @ rewrite_from In_code (if s = [] then b else False) z"
  by (induction s arbitrary: b) (auto dest: space_special owned_call_ident)

lemma lower_name_ident:
  assumes "to_lower w = NATIVE_READ_PARQUET_FN"
  shows "list_all is_identifier_char w" "length w = length NATIVE_READ_PARQUET_FN" "iequals_prefix (w @ z) NATIVE_READ_PARQUET_FN"
proof -
  show l: "length w = length NATIVE_READ_PARQUET_FN" using arg_cong [OF assms, of length] by (simp add: to_lower_def)
  then show p: "iequals_prefix (w @ z) NATIVE_READ_PARQUET_FN"
    using assms to_lower_name by (simp add: iequals_prefix_iff to_lower_def)
  show "list_all is_identifier_char w" using prefix_ident [OF p name_is_ident(1)] l by simp
qed

text \<open>
  C29: the rewriting changes nothing but function names, and it is complete: in the rewritten query no call outside of quotes
  and comments is left that would be rewritten, so a second pass finds nothing and the query no longer counts as one that
  refers to such a call.
\<close>

theorem sql_rewrite_exact:
  "renamed sql (rewrite_sirius_owned_remote_parquet_calls sql) \<and>
   rewrite_sirius_owned_remote_parquet_calls (rewrite_sirius_owned_remote_parquet_calls sql) =
     rewrite_sirius_owned_remote_parquet_calls sql \<and>
   \<not> references_sirius_owned_s3_parquet (rewrite_sirius_owned_remote_parquet_calls sql)"
  by (simp add: references_sirius_owned_s3_parquet_def rewrite_sirius_owned_remote_parquet_calls_def rewrite_twice rewrite_renames)

text \<open>
  C30: a call in plain text is found. After text without quotes, slashes and minus signs that does not end inside of an identifier,
  the function name in any case, blanks, and a literal that begins with the prefix, quotes in it doubled: the name is
  replaced, everything up to the end of the literal is kept, and the scan goes on behind it.
\<close>

theorem sql_call_rewritten:
  assumes "list_all plain_char pre" and "pre = [] \<or> \<not> is_identifier_char (last pre)" and "to_lower w = NATIVE_READ_PARQUET_FN"
    and "list_all is_space sp" and "list_all is_space sp'" and "iequals_prefix lit S3_URI_PREFIX"
    and "rest = [] \<or> hd rest \<noteq> quote"
  shows "rewrite_sirius_owned_remote_parquet_calls (pre @ w @ sp @ CHR ''('' # sp' @ quote # sql_quote lit @ quote # rest) =
    pre @ SIRIUS_READ_PARQUET_FN @ sp @ CHR ''('' # sp' @ quote # sql_quote lit @ quote # rewrite_from In_code False rest"
proof -
  let ?arg = "sp' @ quote # sql_quote lit @ quote # rest"
  let ?call = "sp @ CHR ''('' # ?arg"
  note w = lower_name_ident [OF assms(3)]
  have open_paren: "\<not> is_space (CHR ''('')" "\<not> is_space quote" "\<not> is_identifier_char (CHR ''('')"
    by (simp_all add: is_space_def is_identifier_char_def)
  have rest: "\<not> (rest \<noteq> [] \<and> hd rest = quote)" using assms(7) by auto
  have sk: "skip_whitespace ?call = CHR ''('' # ?arg" "skip_whitespace ?arg = quote # sql_quote lit @ quote # rest"
    using assms(4,5) open_paren by (simp_all add: skip_whitespace_def dropWhile_append2 list_all_iff)
  have "should_rewrite_read_parquet_call (w @ ?call)"
    using w(2) sk literal_quoted [OF rest, of "[]" lit] assms(6)
    by (simp add: should_rewrite_read_parquet_call_def parse_single_quoted_literal_def)
  moreover have "case ?call of [] \<Rightarrow> True | c # _ \<Rightarrow> \<not> is_identifier_char c"
    using assms(4) open_paren space_special by (cases sp) auto
  ultimately have call: "owned_call False (w @ ?call)" using w(2,3) by (simp add: owned_call_def)
  obtain c cs where c: "w @ ?call = c # cs" by (cases "w @ ?call") auto
  have "drop (length NATIVE_READ_PARQUET_FN) (c # cs) = ?call" unfolding c [symmetric] using w(2) by simp
  then have "rewrite_from In_code False (w @ ?call) = SIRIUS_READ_PARQUET_FN @ rewrite_from In_code True ?call"
    using call owned_call_ident [OF call [unfolded c]] ident_not_special [of c] unfolding c by simp
  moreover have "rewrite_from In_code True ?call = sp @ CHR ''('' # rewrite_from In_code False ?arg"
    using copy_blanks [OF assms(4), of True] open_paren owned_call_ident [of _ "CHR ''(''"] by auto
  moreover have "rewrite_from In_code False ?arg = sp' @ quote # sql_quote lit @ quote # rewrite_from In_code False rest"
    using copy_blanks [OF assms(5), of False] rewrite_quoted [OF rest, of False lit] by simp
  ultimately show ?thesis
    using copy_before_name [OF assms(1) w(1,2), of False ?call] assms(2)
    by (auto simp: rewrite_sirius_owned_remote_parquet_calls_def)
qed

theorem sql_call_rewritten_witness:
  "rewrite_sirius_owned_remote_parquet_calls (''FROM Read_Parquet ('' @ quote # ''s3://b'' @ [quote] @ '')'') =
   ''FROM sirius_read_parquet ('' @ quote # ''s3://b'' @ [quote] @ '')''"
proof -
  have "to_lower ''Read_Parquet'' = NATIVE_READ_PARQUET_FN" by code_simp
  moreover have "list_all plain_char ''FROM ''" "\<not> is_identifier_char (last ''FROM '')" "iequals_prefix ''s3://b'' S3_URI_PREFIX"
    "sql_quote ''s3://b'' = ''s3://b''"
    by code_simp+
  moreover have "rewrite_from In_code False '')'' = '')''" by code_simp
  ultimately show ?thesis
    using sql_call_rewritten [of "''FROM ''" "''Read_Parquet''" "'' ''" "[]" "''s3://b''" "'')''"]
    by (simp add: is_space_def SIRIUS_READ_PARQUET_FN_def)
qed

end
