(* ===== verification/Scan_Plan.thy ===== *)
theory Scan_Plan
  imports Logical_Types
begin

text \<open>
  The plan of a file scan (\<^verbatim>\<open>op/scan/scan_plan.cpp\<close>, \<^verbatim>\<open>op/scan/scan_utils.cpp\<close>): which columns the reader
  produces, which come from the file path, and how the output is assembled. A column id is its primary index, the
  test for virtual columns is a parameter, and so are the columns of the GPU library and the cast of a path value to such a column.
\<close>

section \<open>The plan\<close>

record data_column =
  data_primary_idx :: nat
  data_name :: string

record partition_column =
  partition_primary_idx :: nat
  partition_name :: string
  partition_type :: logical_type

datatype source_t = DATA | PARTITION

record output_entry =
  source :: source_t
  idx :: nat

record scan_plan =
  data_columns :: "data_column list"
  partition_columns :: "partition_column list"
  output_layout :: "output_entry list"
  batch_position_by_column_id :: "nat option list"
  partition_primary_indices :: "nat set"
  needs_reader_projection :: bool

definition has_partitions :: "scan_plan \<Rightarrow> bool" where
  "has_partitions plan \<longleftrightarrow> partition_columns plan \<noteq> []"

definition is_projected :: "scan_plan \<Rightarrow> bool" where
  "is_projected plan = needs_reader_projection plan"

definition data_column_names :: "scan_plan \<Rightarrow> string list" where
  "data_column_names plan = map data_name (data_columns plan)"

definition at :: "'a list \<Rightarrow> nat \<Rightarrow> 'a result" where
  "at xs i = (if i < length xs then Inr (xs ! i) else Inl (Out_of_range ''vector''))"

definition batch_column_name :: "scan_plan \<Rightarrow> nat \<Rightarrow> string result" where
  "batch_column_name plan batch_position = bind_result (at (data_columns plan) batch_position) (\<lambda>c. Inr (data_name c))"

definition pure_filter_batch_positions :: "scan_plan \<Rightarrow> nat set" where
  "pure_filter_batch_positions plan =
     fold (\<lambda>entry positions. if source entry = DATA then positions - {idx entry} else positions) (output_layout plan)
       (fold insert [0..<length (data_columns plan)] {})"

definition needs_output_assembly :: "scan_plan \<Rightarrow> bool" where
  "needs_output_assembly plan \<longleftrightarrow>
     (if output_layout plan = [] then False
      else if has_partitions plan \<or> length (output_layout plan) \<noteq> length (data_columns plan) then True
      else list_ex (\<lambda>i. source (output_layout plan ! i) \<noteq> DATA \<or> idx (output_layout plan ! i) \<noteq> i)
        [0..<length (output_layout plan)])"

section \<open>Building the plan\<close>

text \<open>The captured state of the lambda \<open>handle_position\<close>.\<close>

record plan_state =
  plan :: scan_plan
  seen_primary_indices :: "nat set"
  primary_to_batch :: "nat \<rightharpoonup> nat"

definition handle_position ::
    "(nat \<Rightarrow> bool) \<Rightarrow> nat list \<Rightarrow> string list \<Rightarrow> logical_type list \<Rightarrow> nat \<Rightarrow> bool \<Rightarrow> plan_state \<Rightarrow> plan_state result" where
  "handle_position is_virtual column_ids names returned_types column_ids_pos is_output st =
     bind_result (at column_ids column_ids_pos) (\<lambda>primary_idx.
       if is_virtual primary_idx then Inr st
       else if primary_idx \<in> seen_primary_indices st then Inr st
       else
         let st = st\<lparr>seen_primary_indices := insert primary_idx (seen_primary_indices st)\<rparr>; p = plan st in
         if primary_idx \<in> partition_primary_indices p then
           if \<not> is_output then Inr st
           else
             bind_result (at names primary_idx) (\<lambda>name.
             bind_result (at returned_types primary_idx) (\<lambda>type.
               Inr (st\<lparr>plan := p\<lparr>
                 partition_columns := partition_columns p @
                   [\<lparr>partition_primary_idx = primary_idx, partition_name = name, partition_type = type\<rparr>],
                 output_layout := output_layout p @ [\<lparr>source = PARTITION, idx = length (partition_columns p)\<rparr>]\<rparr>\<rparr>)))
         else
           let batch_idx = length (data_columns p) in
           bind_result (if names = [] then Inr [] else at names primary_idx) (\<lambda>col_name.
             Inr (st\<lparr>plan := p\<lparr>
                data_columns := data_columns p @ [\<lparr>data_primary_idx = primary_idx, data_name = col_name\<rparr>],
                output_layout := output_layout p @ (if is_output then [\<lparr>source = DATA, idx = batch_idx\<rparr>] else [])\<rparr>,
               primary_to_batch := (primary_to_batch st)(primary_idx \<mapsto> batch_idx)\<rparr>)))"

fun handle_positions ::
    "(nat \<Rightarrow> bool) \<Rightarrow> nat list \<Rightarrow> string list \<Rightarrow> logical_type list \<Rightarrow> (nat \<times> bool) list \<Rightarrow> plan_state \<Rightarrow> plan_state result" where
  "handle_positions is_virtual column_ids names returned_types [] st = Inr st"
| "handle_positions is_virtual column_ids names returned_types ((c, is_output) # ps) st =
     bind_result (handle_position is_virtual column_ids names returned_types c is_output st)
       (handle_positions is_virtual column_ids names returned_types ps)"

definition is_output_position :: "nat \<Rightarrow> nat \<Rightarrow> bool" where
  "is_output_position i output_types_size \<longleftrightarrow> i < output_types_size"

text \<open>The positions in the order in which they are visited.\<close>

definition walked_positions :: "nat list \<Rightarrow> nat list \<Rightarrow> nat \<Rightarrow> (nat \<times> bool) list" where
  "walked_positions column_ids projection_ids output_types_size =
     (if projection_ids = [] then map (\<lambda>c. (c, True)) [0..<length column_ids]
      else map (\<lambda>i. (projection_ids ! i, is_output_position i output_types_size)) [0..<length projection_ids])"

definition batch_positions :: "(nat \<Rightarrow> bool) \<Rightarrow> nat list \<Rightarrow> (nat \<rightharpoonup> nat) \<Rightarrow> nat option list" where
  "batch_positions is_virtual column_ids to_batch =
     map (\<lambda>primary_idx. if is_virtual primary_idx then None else to_batch primary_idx) column_ids"

definition build_scan_plan ::
    "(nat \<Rightarrow> bool) \<Rightarrow> nat list \<Rightarrow> nat list \<Rightarrow> string list \<Rightarrow> logical_type list \<Rightarrow> nat \<Rightarrow> nat list \<Rightarrow> scan_plan result" where
  "build_scan_plan is_virtual column_ids projection_ids names returned_types output_types_size partition_indices =
     (let p = \<lparr>data_columns = [], partition_columns = [], output_layout = [], batch_position_by_column_id = [],
        partition_primary_indices = set partition_indices,
        needs_reader_projection = (projection_ids \<noteq> [] \<or> partition_indices \<noteq> [])\<rparr> in
      bind_result (handle_positions is_virtual column_ids names returned_types
          (walked_positions column_ids projection_ids output_types_size)
          \<lparr>plan = p, seen_primary_indices = {}, primary_to_batch = Map.empty\<rparr>) (\<lambda>st.
        Inr ((plan st)\<lparr>batch_position_by_column_id := batch_positions is_virtual column_ids (primary_to_batch st)\<rparr>)))"

section \<open>Assembling the output\<close>

text \<open>
  The columns of the batch are moved out one by one; a column that was moved before is null, and a table of null columns
  is undefined. The parameter \<open>make_column\<close> casts a path value to a type and repeats it.
\<close>

fun assemble_columns ::
    "(string \<Rightarrow> logical_type \<Rightarrow> nat \<Rightarrow> 'col result) \<Rightarrow> scan_plan \<Rightarrow> nat \<Rightarrow> string list \<Rightarrow> output_entry list \<Rightarrow>
     'col option list \<Rightarrow> 'col option list result" where
  "assemble_columns make_column p num_rows partition_values [] data_cols = Inr []"
| "assemble_columns make_column p num_rows partition_values (entry # entries) data_cols =
     (if source entry = DATA then
        bind_result (at data_cols (idx entry)) (\<lambda>c.
        bind_result (assemble_columns make_column p num_rows partition_values entries (data_cols[idx entry := None])) (\<lambda>cs.
          Inr (c # cs)))
      else
        bind_result (at (partition_columns p) (idx entry)) (\<lambda>pcol.
        throw_if (idx entry \<ge> length partition_values) (Internal_exception ''partition_values too short'')
          (bind_result (make_column (partition_values ! idx entry) (partition_type pcol) num_rows) (\<lambda>c.
           bind_result (assemble_columns make_column p num_rows partition_values entries data_cols) (\<lambda>cs.
             Inr (Some c # cs))))))"

definition assemble_scan_output ::
    "(string \<Rightarrow> logical_type \<Rightarrow> nat \<Rightarrow> 'col result) \<Rightarrow> scan_plan \<Rightarrow> (nat \<times> 'col list) option \<Rightarrow> string list \<Rightarrow>
     'col list option result" where
  "assemble_scan_output make_column p reader_output partition_values =
     (case reader_output of
        None \<Rightarrow> Inr None
      | Some (num_rows, cols) \<Rightarrow>
          bind_result (assemble_columns make_column p num_rows partition_values (output_layout p) (map Some cols)) (\<lambda>cs.
            if None \<in> set cs then Inl (Undefined_behaviour ''null column'') else Inr (Some (map the cs))))"

section \<open>Filters\<close>

definition build_batch_column_map :: "nat list \<Rightarrow> nat \<Rightarrow> nat option list" where
  "build_batch_column_map projection_ids column_ids_count =
     (if projection_ids = [] then map Some [0..<column_ids_count]
      else
        let sorted_ids = sort projection_ids in
        fold (\<lambda>batch_pos m. if sorted_ids ! batch_pos < column_ids_count then m[sorted_ids ! batch_pos := Some batch_pos] else m)
          [0..<length sorted_ids] (replicate column_ids_count None))"

datatype filter_kind = OPTIONAL_FILTER | IS_NOT_NULL | Other_filter

text \<open>The filters of a scan: column position, kind and the predicate; the parameter is the translation of a predicate on a column.\<close>

fun filter_expressions ::
    "(logical_type \<Rightarrow> nat \<Rightarrow> 'f \<Rightarrow> 'e) \<Rightarrow> nat list \<Rightarrow> logical_type list \<Rightarrow> nat option list \<Rightarrow> nat set \<Rightarrow>
     (nat \<times> filter_kind \<times> 'f) list \<Rightarrow> 'e list result" where
  "filter_expressions to_expression column_ids returned_types positions skip [] = Inr []"
| "filter_expressions to_expression column_ids returned_types positions skip ((column_index, kind, f) # filters) =
     (if kind = OPTIONAL_FILTER \<or> kind = IS_NOT_NULL then
        filter_expressions to_expression column_ids returned_types positions skip filters
      else
        bind_result (at column_ids column_index) (\<lambda>primary_idx.
          if primary_idx \<in> skip then filter_expressions to_expression column_ids returned_types positions skip filters
          else
            bind_result (at returned_types primary_idx) (\<lambda>col_type.
              if column_index \<ge> length positions then Inl (Undefined_behaviour ''index'')
              else case positions ! column_index of
                  None \<Rightarrow> Inl (Runtime_error ''column_index not in projected batch'')
                | Some batch_pos \<Rightarrow>
                    bind_result (filter_expressions to_expression column_ids returned_types positions skip filters) (\<lambda>es.
                      Inr (to_expression col_type batch_pos f # es)))))"

datatype 'e filter_result = No_filter | Single 'e | Conjunction_and "'e list"

definition convert_table_filters_to_expression ::
    "(logical_type \<Rightarrow> nat \<Rightarrow> 'f \<Rightarrow> 'e) \<Rightarrow> (nat \<times> filter_kind \<times> 'f) list \<Rightarrow> nat list \<Rightarrow> logical_type list \<Rightarrow>
     nat option list \<Rightarrow> nat set \<Rightarrow> 'e filter_result result" where
  "convert_table_filters_to_expression to_expression filters column_ids returned_types positions skip =
     bind_result (filter_expressions to_expression column_ids returned_types positions skip filters) (\<lambda>es.
       Inr (case es of [] \<Rightarrow> No_filter | [e] \<Rightarrow> Single e | _ \<Rightarrow> Conjunction_and es))"

section \<open>The plan in closed form\<close>

text \<open>The columns that a walk visits: not virtual, and each one only the first time.\<close>

fun visited :: "(nat \<Rightarrow> bool) \<Rightarrow> nat set \<Rightarrow> (nat \<times> bool) list \<Rightarrow> (nat \<times> bool) list" where
  "visited is_virtual seen [] = []"
| "visited is_virtual seen ((p, is_output) # ps) =
     (if is_virtual p \<or> p \<in> seen then visited is_virtual seen ps
      else (p, is_output) # visited is_virtual (insert p seen) ps)"

definition data_primaries :: "nat set \<Rightarrow> (nat \<times> bool) list \<Rightarrow> nat list" where
  "data_primaries P vs = map fst (filter (\<lambda>(p, _). p \<notin> P) vs)"

definition partition_primaries :: "nat set \<Rightarrow> (nat \<times> bool) list \<Rightarrow> nat list" where
  "partition_primaries P vs = map fst (filter (\<lambda>(p, is_output). p \<in> P \<and> is_output) vs)"

definition output_primaries :: "(nat \<times> bool) list \<Rightarrow> nat list" where
  "output_primaries vs = map fst (filter snd vs)"

definition position_of :: "nat \<Rightarrow> nat list \<Rightarrow> nat" where
  "position_of p ps = length (takeWhile (\<lambda>q. q \<noteq> p) ps)"

definition batch_map :: "nat list \<Rightarrow> nat \<rightharpoonup> nat" where
  "batch_map ps p = (if p \<in> set ps then Some (position_of p ps) else None)"

definition entry_of :: "nat set \<Rightarrow> (nat \<times> bool) list \<Rightarrow> nat \<Rightarrow> output_entry" where
  "entry_of P vs p =
     (if p \<in> P then \<lparr>source = PARTITION, idx = position_of p (partition_primaries P vs)\<rparr>
      else \<lparr>source = DATA, idx = position_of p (data_primaries P vs)\<rparr>)"

definition name_of :: "string list \<Rightarrow> nat \<Rightarrow> string" where
  "name_of names p = (if names = [] then [] else names ! p)"

definition state_of :: "string list \<Rightarrow> logical_type list \<Rightarrow> scan_plan \<Rightarrow> (nat \<times> bool) list \<Rightarrow> plan_state" where
  "state_of names types p0 vs =
     (let P = partition_primary_indices p0 in
      \<lparr>plan = p0\<lparr>
         data_columns := map (\<lambda>p. \<lparr>data_primary_idx = p, data_name = name_of names p\<rparr>) (data_primaries P vs),
         partition_columns := map (\<lambda>p. \<lparr>partition_primary_idx = p, partition_name = names ! p, partition_type = types ! p\<rparr>)
           (partition_primaries P vs),
         output_layout := map (entry_of P vs) (output_primaries vs)\<rparr>,
       seen_primary_indices = fst ` set vs,
       primary_to_batch = batch_map (data_primaries P vs)\<rparr>)"

lemma position_of_append: "p \<in> set ps \<Longrightarrow> position_of p (ps @ qs) = position_of p ps"
  by (simp add: position_of_def)

lemma position_of_last: "p \<notin> set ps \<Longrightarrow> position_of p (ps @ [p]) = length ps"
proof -
  assume "p \<notin> set ps"
  then have "takeWhile (\<lambda>q. q \<noteq> p) ps = ps" by (induction ps) auto
  with \<open>p \<notin> set ps\<close> show ?thesis by (simp add: position_of_def takeWhile_append)
qed

lemma batch_map_snoc: "p \<notin> set ps \<Longrightarrow> batch_map (ps @ [p]) = (batch_map ps)(p \<mapsto> length ps)"
  by (auto simp: fun_eq_iff batch_map_def position_of_append position_of_last)

lemma position_of_nth: "p \<in> set ps \<Longrightarrow> position_of p ps < length ps \<and> ps ! position_of p ps = p"
  by (induction ps) (auto simp: position_of_def)

lemma primaries_snoc [simp]:
  "data_primaries P (vs @ [(p, b)]) = data_primaries P vs @ (if p \<in> P then [] else [p])"
  "partition_primaries P (vs @ [(p, b)]) = partition_primaries P vs @ (if p \<in> P \<and> b then [p] else [])"
  "output_primaries (vs @ [(p, b)]) = output_primaries vs @ (if b then [p] else [])"
  by (simp_all add: data_primaries_def partition_primaries_def output_primaries_def)

lemma primaries_subset:
  "set (data_primaries P vs) \<subseteq> fst ` set vs - P" "set (partition_primaries P vs) \<subseteq> fst ` set vs \<inter> P"
  "set (output_primaries vs) \<subseteq> fst ` set vs" "set (output_primaries vs) - P \<subseteq> set (data_primaries P vs)"
  "set (output_primaries vs) \<inter> P \<subseteq> set (partition_primaries P vs)"
  by (force simp: data_primaries_def partition_primaries_def output_primaries_def)+

lemma entry_of_old: "q \<in> set (output_primaries vs) \<Longrightarrow> entry_of P (vs @ [(p, b)]) q = entry_of P vs q"
  using primaries_subset(4,5) [of vs P] by (auto simp: entry_of_def position_of_append)

lemma entry_of_new: "p \<notin> fst ` set vs \<Longrightarrow> entry_of P (vs @ [(p, True)]) p =
    (if p \<in> P then \<lparr>source = PARTITION, idx = length (partition_primaries P vs)\<rparr>
     else \<lparr>source = DATA, idx = length (data_primaries P vs)\<rparr>)"
  using primaries_subset(1,2) [of P vs] by (auto simp: entry_of_def intro!: position_of_last)

lemma handle_position_step:
  assumes "c < length column_ids" and "column_ids ! c = p" and "\<not> is_virtual p" and "p \<notin> fst ` set vs"
    and "p < length types" and "names = [] \<longrightarrow> p \<notin> partition_primary_indices p0" and "names \<noteq> [] \<longrightarrow> p < length names"
  shows "handle_position is_virtual column_ids names types c b (state_of names types p0 vs) =
    Inr (state_of names types p0 (vs @ [(p, b)]))"
proof -
  let ?P = "partition_primary_indices p0"
  have at: "at column_ids c = Inr p" "at types p = Inr (types ! p)" using assms by (simp_all add: at_def)
  have name: "p \<in> ?P \<Longrightarrow> at names p = Inr (names ! p)" "(if names = [] then Inr [] else at names p) = Inr (name_of names p)"
    using assms(6,7) by (auto simp: at_def name_of_def)
  have out: "map (entry_of ?P (vs @ [(p, b)])) (output_primaries vs) = map (entry_of ?P vs) (output_primaries vs)"
    by (simp add: entry_of_old)
  have batch: "p \<notin> set (data_primaries ?P vs)" using primaries_subset(1) [of ?P vs] assms(4) by auto
  show ?thesis
    using at name assms(3,4) out batch_map_snoc [OF batch] entry_of_new [OF assms(4), of ?P]
    by (cases b; cases "p \<in> ?P") (simp_all add: handle_position_def state_of_def Let_def image_iff)
qed

definition columns_ok :: "(nat \<Rightarrow> bool) \<Rightarrow> nat list \<Rightarrow> string list \<Rightarrow> logical_type list \<Rightarrow> nat set \<Rightarrow> nat list \<Rightarrow> bool" where
  "columns_ok is_virtual column_ids names types P cs \<longleftrightarrow>
     list_all (\<lambda>c. c < length column_ids \<and> (is_virtual (column_ids ! c) \<or> column_ids ! c < length types \<and>
       (if names = [] then column_ids ! c \<notin> P else column_ids ! c < length names))) cs"

lemma handle_positions_ok:
  "columns_ok is_virtual column_ids names types (partition_primary_indices p0) (map fst ps) \<Longrightarrow>
   handle_positions is_virtual column_ids names types ps (state_of names types p0 vs) =
     Inr (state_of names types p0 (vs @ visited is_virtual (fst ` set vs) (map (\<lambda>(c, b). (column_ids ! c, b)) ps)))"
proof (induction ps arbitrary: vs)
  case (Cons x ps)
  obtain c b where x: "x = (c, b)" by force
  let ?p = "column_ids ! c"
  have c: "c < length column_ids" using Cons.prems x by (simp add: columns_ok_def)
  have rest: "columns_ok is_virtual column_ids names types (partition_primary_indices p0) (map fst ps)"
    using Cons.prems by (simp add: columns_ok_def)
  show ?case
  proof (cases "is_virtual ?p \<or> ?p \<in> fst ` set vs")
    case True
    then have "handle_position is_virtual column_ids names types c b (state_of names types p0 vs) = Inr (state_of names types p0 vs)"
      using c by (auto simp: handle_position_def at_def state_of_def Let_def)
    then show ?thesis using Cons.IH [OF rest, of vs] x True by simp
  next
    case False
    then have "handle_position is_virtual column_ids names types c b (state_of names types p0 vs) =
        Inr (state_of names types p0 (vs @ [(?p, b)]))"
      using Cons.prems x by (intro handle_position_step) (auto simp: columns_ok_def split: if_splits)
    then show ?thesis using Cons.IH [OF rest, of "vs @ [(?p, b)]"] x False by (simp add: insert_commute)
  qed
qed simp

text \<open>The columns that the scan visits, in order, with the flag for output.\<close>

definition scan_walk :: "(nat \<Rightarrow> bool) \<Rightarrow> nat list \<Rightarrow> nat list \<Rightarrow> nat \<Rightarrow> (nat \<times> bool) list" where
  "scan_walk is_virtual column_ids projection_ids output_types_size =
     visited is_virtual {} (map (\<lambda>(c, b). (column_ids ! c, b)) (walked_positions column_ids projection_ids output_types_size))"

lemma build_scan_plan_ok:
  assumes "columns_ok is_virtual column_ids names types (set parts) (map fst (walked_positions column_ids projection_ids n))"
  defines "vs \<equiv> scan_walk is_virtual column_ids projection_ids n"
  shows "\<exists>p. build_scan_plan is_virtual column_ids projection_ids names types n parts = Inr p \<and>
    data_columns p = map (\<lambda>q. \<lparr>data_primary_idx = q, data_name = name_of names q\<rparr>) (data_primaries (set parts) vs) \<and>
    partition_columns p = map (\<lambda>q. \<lparr>partition_primary_idx = q, partition_name = names ! q, partition_type = types ! q\<rparr>)
      (partition_primaries (set parts) vs) \<and>
    output_layout p = map (entry_of (set parts) vs) (output_primaries vs) \<and>
    batch_position_by_column_id p = batch_positions is_virtual column_ids (batch_map (data_primaries (set parts) vs)) \<and>
    partition_primary_indices p = set parts"
proof -
  let ?p0 = "\<lparr>data_columns = [], partition_columns = [], output_layout = [], batch_position_by_column_id = [],
        partition_primary_indices = set parts, needs_reader_projection = (projection_ids \<noteq> [] \<or> parts \<noteq> [])\<rparr>"
  have start: "\<lparr>plan = ?p0, seen_primary_indices = {}, primary_to_batch = Map.empty\<rparr> = state_of names types ?p0 []"
    by (simp add: state_of_def Let_def data_primaries_def partition_primaries_def output_primaries_def batch_map_def fun_eq_iff)
  show ?thesis
    using handle_positions_ok [of is_virtual column_ids names types ?p0 "walked_positions column_ids projection_ids n" "[]"] assms(1)
    unfolding build_scan_plan_def Let_def start by (simp add: state_of_def Let_def vs_def scan_walk_def)
qed

lemma visited_distinct: "distinct (map fst (visited v seen ps)) \<and> fst ` set (visited v seen ps) \<inter> seen = {}"
  by (induction v seen ps rule: visited.induct) auto

lemma outputs_distinct: "distinct (map fst vs) \<Longrightarrow> distinct (output_primaries vs)"
  by (simp add: output_primaries_def distinct_map_filter)

section \<open>What the assembly returns\<close>

lemma position_of_inj: "p \<in> set ps \<Longrightarrow> q \<in> set ps \<Longrightarrow> position_of p ps = position_of q ps \<Longrightarrow> p = q"
  using position_of_nth by metis

lemma assemble_columns_ok:
  assumes "partition_columns p = map (\<lambda>q. \<lparr>partition_primary_idx = q, partition_name = nm q, partition_type = ty q\<rparr>) (partition_primaries P vs)"
    and "set qs \<subseteq> set (output_primaries vs)" and "distinct qs"
    and "length D = length (data_primaries P vs)"
    and "\<forall>q \<in> set qs - P. D ! position_of q (data_primaries P vs) = Some (col q)"
    and "\<forall>q \<in> set qs \<inter> P. make_column (pv q) (ty q) n = Inr (pcol q)"
  shows "assemble_columns make_column p n (map pv (partition_primaries P vs)) (map (entry_of P vs) qs) D =
    Inr (map (\<lambda>q. Some (if q \<in> P then pcol q else col q)) qs)"
  using assms(2-)
proof (induction qs arbitrary: D)
  case (Cons q qs)
  let ?ds = "data_primaries P vs" and ?ps = "partition_primaries P vs"
  show ?case
  proof (cases "q \<in> P")
    case True
    then have "q \<in> set ?ps" using Cons.prems(1) primaries_subset(5) [of vs P] by auto
    then have i: "position_of q ?ps < length ?ps" "?ps ! position_of q ?ps = q" using position_of_nth by auto
    have "assemble_columns make_column p n (map pv ?ps) (map (entry_of P vs) qs) D =
        Inr (map (\<lambda>q. Some (if q \<in> P then pcol q else col q)) qs)"
      using Cons by simp
    then show ?thesis using True i Cons.prems(5) assms(1) by (simp add: entry_of_def [of P vs q] at_def)
  next
    case False
    then have q: "q \<in> set ?ds" using Cons.prems(1) primaries_subset(4) [of vs P] by auto
    then have i: "position_of q ?ds < length ?ds" using position_of_nth by auto
    let ?D = "D[position_of q ?ds := None]"
    have "\<forall>r \<in> set qs - P. ?D ! position_of r ?ds = Some (col r)"
    proof
      fix r assume r: "r \<in> set qs - P"
      then have "r \<in> set ?ds" using Cons.prems(1) primaries_subset(4) [of vs P] by auto
      then have "position_of r ?ds \<noteq> position_of q ?ds" using position_of_inj q r Cons.prems(2) by fastforce
      then show "?D ! position_of r ?ds = Some (col r)" using Cons.prems(4) r by simp
    qed
    then have "assemble_columns make_column p n (map pv ?ps) (map (entry_of P vs) qs) ?D =
        Inr (map (\<lambda>q. Some (if q \<in> P then pcol q else col q)) qs)"
      using Cons by simp
    then show ?thesis using False i Cons.prems(3,4) by (simp add: entry_of_def [of P vs q] at_def)
  qed
qed simp

lemma no_assembly_identity:
  assumes "\<not> needs_output_assembly p" and "output_layout p = map (entry_of P vs) (output_primaries vs)"
    and "length (data_columns p) = length (data_primaries P vs)"
  shows "output_primaries vs = [] \<or> output_primaries vs = data_primaries P vs"
proof (cases "output_primaries vs = []")
  case False
  let ?os = "output_primaries vs" and ?ds = "data_primaries P vs"
  have len: "length ?os = length ?ds" and id: "entry_of P vs (?os ! i) = \<lparr>source = DATA, idx = i\<rparr>" if "i < length ?os" for i
    using assms False that by (auto simp: needs_output_assembly_def list_ex_iff split: if_splits)
  have l: "length ?os = length ?ds" using False len [of 0] by simp
  have "?os ! i = ?ds ! i" if i: "i < length ?os" for i
  proof -
    have e: "?os ! i \<notin> P" "position_of (?os ! i) ?ds = i" using id [OF i] by (auto simp: entry_of_def split: if_splits)
    then have "?os ! i \<in> set ?ds" using primaries_subset(4) [of vs P] nth_mem [OF i] by blast
    then show ?thesis using position_of_nth e(2) by metis
  qed
  then show ?thesis using l by (simp add: nth_equalityI)
qed simp

lemma scan_walk_distinct: "distinct (map fst (scan_walk v cs ps n))"
  by (simp add: scan_walk_def visited_distinct)

lemma pure_filter_positions_ok:
  "pure_filter_batch_positions p =
     {d. d < length (data_columns p) \<and> d \<notin> idx ` {e \<in> set (output_layout p). source e = DATA}}"
proof -
  have "fold (\<lambda>entry ds. if source entry = DATA then ds - {idx entry} else ds) es ds =
      ds - idx ` {e \<in> set es. source e = DATA}" for es :: "output_entry list" and ds
    by (induction es arbitrary: ds) (simp_all, blast)
  moreover have "fold insert ds A = set ds \<union> A" for ds :: "nat list" and A
    by (induction ds arbitrary: A) simp_all
  ultimately show ?thesis unfolding pure_filter_batch_positions_def by auto
qed

lemma build_batch_column_map_ok:
  assumes "distinct projection_ids" and "projection_ids \<noteq> []" and "c < n"
  shows "length (build_batch_column_map projection_ids n) = n"
    and "build_batch_column_map projection_ids n ! c = Some b \<longleftrightarrow>
      b < length projection_ids \<and> sort projection_ids ! b = c"
proof -
  let ?s = "sort projection_ids"
  let ?f = "\<lambda>b m. if ?s ! b < n then m[?s ! b := Some b] else m"
  have "length (fold ?f [0..<k] (replicate n None)) = n \<and> (\<forall>b. fold ?f [0..<k] (replicate n None) ! c = Some b \<longleftrightarrow> b < k \<and> ?s ! b = c)"
    if "k \<le> length ?s" for k
    using that
  proof (induction k)
    case (Suc k)
    have "\<not> (b < k \<and> ?s ! b = ?s ! k)" for b
      using Suc.prems assms(1) nth_eq_iff_index_eq [of ?s b k] by auto
    then show ?case using Suc assms(3) by (auto simp: nth_list_update less_Suc_eq)
  qed (use assms(3) in simp)
  from this [of "length ?s"] assms(2) show "length (build_batch_column_map projection_ids n) = n"
    and "build_batch_column_map projection_ids n ! c = Some b \<longleftrightarrow> b < length projection_ids \<and> ?s ! b = c"
    by (simp_all add: build_batch_column_map_def Let_def)
qed

definition demo_walk :: "(nat \<times> bool) list" where
  "demo_walk = scan_walk (\<lambda>p. 50 \<le> p) [2, 0, 99, 0, 1] [4, 0, 2, 1] 3"

lemma demo_walk_eq: "demo_walk = [(1, True), (2, True), (0, False)]"
  by (simp add: demo_walk_def scan_walk_def walked_positions_def is_output_position_def upt_conv_Cons)

lemma demo_columns_ok:
  "columns_ok (\<lambda>p. 50 \<le> p) [2, 0, 99, 0, 1] [''a'', ''b'', ''c''] (replicate 3 default_type) (set [2])
     (map fst (walked_positions [2, 0, 99, 0, 1] [4, 0, 2, 1] 3))"
  by (simp add: columns_ok_def walked_positions_def upt_conv_Cons)





end
