(* ===== verification/Spec2Isabelle.thy ===== *)
theory Spec2Isabelle
  imports Duck_Instance Chunk_Reader Cached_Ranges Admission Bounded_Pool Dispatcher Scheduler Roaring_Format Gcs_Message Sql_Rewrite Scan_Plan
begin

text \<open>
  \<^bold>\<open>Verification of Sirius.\<close> Sirius is an extension of DuckDB that runs query plans on GPUs. The sources
  are under \<^verbatim>\<open>src/src\<close>; file names below are relative to that directory. The development models
  the parts of the engine that run on the CPU and decide what the GPU gets: the translation of expressions
  and types, the building and reading of columnar batches, the readers of table metadata, and the queues,
  budgets and thread pools between them.

  \<^bold>\<open>The parts and how they interact.\<close> A plan from DuckDB is translated into Sirius' own types, values and
  expression trees. Scan tasks pull chunks from a DuckDB table function and append them to columns that
  live in fixed-size blocks of host memory; a finished batch is handed on, and results that come back are read out
  of such blocks again, chunk by chunk. Scans of Iceberg tables read deletion vectors, scans of
  remote files parse object URIs, take the bytes out of the storage responses and look them up in cached ranges. Tasks wait in queues, a scheduler matches them with
  devices, and pools with slots, limits and stop flags run them; admission control bounds the bytes in flight.

  \<^bold>\<open>Conventions.\<close> A pure function is a HOL function; code that throws returns an error or a value
  (\<^typ>\<open>sirius_error\<close>, \<^const>\<open>bind_result\<close>); a failed assertion, an out-of-range access and an endless
  loop without effect are the error \<^const>\<open>Undefined_behaviour\<close>, so that theorems show their absence. Sizes are
  naturals where the code's arithmetic stays in range, with wrap-around subtraction written out
  (\<^const>\<open>size_sub\<close>), and machine words where overflow matters. Concurrent objects are state records with one
  function per critical section and an inductive step relation for the threads around them. DuckDB, cuDF,
  the concurrent queue library and the file system are parameters, and what the code relies on is a hypothesis.

  \<^bold>\<open>Theories, code and results.\<close>

  \<^item> \<open>Sirius_Prelude\<close>: errors, sequencing, loops that stop at the first failure, lists. \<open>Run_Laws\<close>: two
    interfaces as locales. A ledger grants and takes back reservations; in every run its books balance and an
    idle ledger grants. A draining system reduces a load with every step; its runs are bounded and end with
    no load.
  \<^item> \<open>Logical_Types\<close>, \<open>Expr_Ids\<close>, \<open>Expr_Value\<close>, \<open>Expr_Ast\<close>, \<open>Duck_Instance\<close>: the type enumeration and
    its conversion (\<^verbatim>\<open>include/helper/logical_type.hpp\<close>, \<^verbatim>\<open>helper\<close>), function, aggregate and comparison identifiers,
    constants and expression trees (\<^verbatim>\<open>expression\<close>, \<^verbatim>\<open>include/expression\<close>), and an instance of the DuckDB parameters.
    Shown: conversions of types, names, constants and whole trees round-trip; every translated tree is well formed;
    sizes are sufficient; operator counts and copies are right. The name tables share a locale.
  \<^item> \<open>Block_Accessor\<close>, \<open>Validity_Bits\<close>, \<open>Cudf_Types\<close>: cursors over blocks of memory
    (\<^verbatim>\<open>include/memory/multiple_blocks_allocation_accessor.hpp\<close>), bit helpers, and the mapping to cuDF types. The block memory
    is related to one flat byte list, and a copy in and out of it is the identity.
  \<^item> \<open>Column_Builder\<close>, \<open>Column_Masks\<close>, \<open>Column_Data\<close>, \<open>Scan_Batch\<close>: the columns of a scan batch and the scan task
    (\<^verbatim>\<open>op/scan/duckdb_scan_task.cpp\<close>). Shown: appending a chunk adds exactly its rows, for fixed-width and string
    columns; a scan ends with the documented error or with all rows of the consumed chunks; no write leaves its column. Also: a
    chunk of a multiple of eight rows that starts inside a byte of the mask loses the bits of its last rows, and the default
    batch layout exceeds the batch.
  \<^item> \<open>Chunk_Reader\<close>: the reader of result batches (\<^verbatim>\<open>op/result/host_table_chunk_reader.cpp\<close>). Shown: it returns chunk by
    chunk exactly the rows that a scan task wrote.
  \<^item> \<open>Cached_Ranges\<close>: lookup in cached byte ranges (\<^verbatim>\<open>op/scan/cached_ranges.cpp\<close>). Shown: a lookup succeeds exactly
    if all bytes are cached, and returns them in order.
  \<^item> \<open>Deletion_Vector\<close>, \<open>Roaring_Format\<close>: the reader of deletion vectors (\<^verbatim>\<open>op/scan/puffin_reader.cpp\<close>) and the format of the
    writer. Shown: the reader returns what was written, and stays inside of the blob on arbitrary input with one exception.
  \<^item> \<open>Uri\<close>: the parser of object URIs (\<^verbatim>\<open>io/uri_parser.cpp\<close>). Shown: a URI built from any key and query parses back to them.
  \<^item> \<open>Gcs_Wire\<close>, \<open>Gcs_Message\<close>: the extraction of object bytes from protobuf responses that arrive in slices
    (\<^verbatim>\<open>io/gcs/gcs_wire.cpp\<close>). Shown: on every response in every slicing it finds exactly the object bytes and the control
    fields, and on arbitrary bytes a reported extent lies inside of the message. Also: an extent that overruns in a failed result.
  \<^item> \<open>Sql_Rewrite\<close>: the rewriting of table function calls in query texts (\<^verbatim>\<open>sirius_sql_rewrite.cpp\<close>). Shown: only function names change,
    a call in plain text is found, and no call is left outside of quotes and comments.
  \<^item> \<open>Scan_Plan\<close>: the plan of a file scan and its filters (\<^verbatim>\<open>op/scan/scan_plan.cpp\<close>, \<^verbatim>\<open>op/scan/scan_utils.cpp\<close>). Shown: the assembled
    output has the right columns in the right order, and filters refer to the right column of the batch.
  \<^item> \<open>Admission\<close>: the byte budget of the I/O layer (\<^verbatim>\<open>io/admission_control.cpp\<close>). Shown: the books are exact under all moves
    of slot objects, which refine a ledger, and no request waits forever.
  \<^item> \<open>Bounded_Pool\<close>, \<open>Dispatcher\<close>: the thread pools and the dispatcher (\<^verbatim>\<open>include/exec\<close>). Shown: limits are kept, no job is
    lost or run twice, no wake-up is lost, and every run of the workers ends with all work done. Also: how a job is lost after a stop.
  \<^item> \<open>Task_Queue\<close>, \<open>Scheduler\<close>: the queues, the completion handler and the task scheduler (\<^verbatim>\<open>pipeline/task_scheduler.cpp\<close>).
    Shown: inspection takes the first match, no task that could be dispatched is left waiting, a device preference is
    binding, and a management round always completes. The scheduler uses the queue through a locale.

  \<^bold>\<open>Loops and bounds.\<close> No fuel is used: loops are structural or have a termination proof, such as the scan loop (rows left
  in the batch), the binary search, and clearing the bits of a word. A loop that could run forever returns an error.
  Condition variables are modelled by the threads asleep on them, so a lost wake-up would break an invariant.

  \<^bold>\<open>Not modelled.\<close> CUDA kernels and everything that calls cuDF on device data (physical operators, expression
  executors, the GPU Parquet and native decoders): their meaning is in libraries that are not part of the sources. The network and disk
  layers (S3, GCS and io_uring reactors, the prefetching cache): they drive system interfaces; of these the byte budget, the
  URI parser and the GCS extractor are modelled. The legacy
  engine under \<^verbatim>\<open>legacy\<close>, the extension entry points, the context and configuration: glue around
  DuckDB interfaces. Logging, tracing and plan printing have no result.
\<close>

end
